(* ===== verification/Prelude.thy ===== *)
theory Prelude
  imports Complex_Main "HOL-Library.Multiset"
begin

text \<open>
  Shared vocabulary of the development.

  \<^item> Errors are values: every service function of the program either raises an exception
    (\<open>Inl\<close>) or returns (\<open>Inr\<close>). A raised exception makes the unit of work roll back, so an
    \<open>Inl\<close> result carries no state. \<open>bindr\<close> sequences such computations.
  \<^item> A database table is the list of its rows in insertion order. \<open>find_row\<close> is a primary-key
    read, \<open>upd_rows\<close> an \<open>UPDATE ... WHERE\<close>, \<open>one_or_none\<close> SQLAlchemy's
    \<open>scalar_one_or_none\<close>.
  \<^item> \<open>fold_result\<close> is a \<open>for\<close> loop whose body may raise.
\<close>

named_theorems result_simps \<open>case analysis of computations that may raise\<close>
named_theorems table_simps \<open>reads after writes on tables\<close>

type_synonym uuid = nat
type_synonym decimal = rat

subsection \<open>Exceptions (backend/app/core/exceptions.py)\<close>

text \<open>
  The exception classes of the program with their machine-readable code; the message and the
  details are text for the client and are not modelled. \<open>IntegrityError\<close> is a violated database
  constraint (by name), \<open>DbGuard\<close> a trigger that raised an \<open>ATLAS_\<close> token,
  \<open>MultipleResultsFound\<close> SQLAlchemy's error for a second row, \<open>PyError\<close> any other exception of
  the Python runtime, by class name.
\<close>

datatype atlas_error =
    NotFoundError string
  | ValidationFailedError string
  | ConflictError string
  | AuthError string
  | PermissionDeniedError string
  | TenancyError string
  | AtlasError nat string
  | IntegrityError string
  | DbGuard string
  | MultipleResultsFound
  | PyError string

type_synonym 'a result = "atlas_error + 'a"

fun status_code :: "atlas_error \<Rightarrow> nat" where
  "status_code (NotFoundError _) = 404"
| "status_code (ValidationFailedError _) = 422"
| "status_code (ConflictError _) = 409"
| "status_code (AuthError _) = 401"
| "status_code (PermissionDeniedError _) = 403"
| "status_code (TenancyError _) = 403"
| "status_code (AtlasError s _) = s"
| "status_code (IntegrityError _) = 500"
| "status_code (DbGuard _) = 500"
| "status_code MultipleResultsFound = 500"
| "status_code (PyError _) = 500"

subsection \<open>Sequencing\<close>

definition bindr :: "'e + 'a \<Rightarrow> ('a \<Rightarrow> 'e + 'b) \<Rightarrow> 'e + 'b" where
  "bindr r f = (case r of Inl e \<Rightarrow> Inl e | Inr x \<Rightarrow> f x)"

lemma bindr_simps [simp]:
  "bindr (Inl e) f = Inl e"
  "bindr (Inr x) f = f x"
  by (simp_all add: bindr_def)

lemma bindr_Inr_iff [result_simps]:
  "bindr r f = Inr y \<longleftrightarrow> (\<exists>x. r = Inr x \<and> f x = Inr y)"
  by (cases r) auto

lemma bindr_Inl_iff [result_simps]:
  "bindr r f = Inl e \<longleftrightarrow> r = Inl e \<or> (\<exists>x. r = Inr x \<and> f x = Inl e)"
  by (cases r) auto

lemma bindr_InrE [elim]:
  assumes "bindr r f = Inr y"
  obtains x where "r = Inr x" and "f x = Inr y"
  using assms by (cases r) auto

lemma bindr_cong [fundef_cong]:
  "r = r' \<Longrightarrow> (\<And>x. r' = Inr x \<Longrightarrow> f x = g x) \<Longrightarrow> bindr r f = bindr r' g"
  by (cases r') auto

lemma if_Inl_Inr [result_simps]:
  "(if c then Inl e else r) = Inr y \<longleftrightarrow> \<not> c \<and> r = Inr y"
  by simp

primrec fold_result :: "('a \<Rightarrow> 's \<Rightarrow> 'e + 's) \<Rightarrow> 'a list \<Rightarrow> 's \<Rightarrow> 'e + 's" where
  "fold_result f [] s = Inr s"
| "fold_result f (x # xs) s = bindr (f x s) (fold_result f xs)"

lemma fold_result_append:
  "fold_result f (xs @ ys) s = bindr (fold_result f xs s) (fold_result f ys)"
  by (induction xs arbitrary: s) (auto simp: bindr_def split: sum.splits)

lemma fold_result_inv:
  assumes "fold_result f xs s = Inr s'" and "P s"
    and "\<And>x s s'. x \<in> set xs \<Longrightarrow> P s \<Longrightarrow> f x s = Inr s' \<Longrightarrow> P s'"
  shows "P s'"
  using assms
proof (induction xs arbitrary: s)
  case (Cons x xs)
  from Cons.prems(1) obtain t where t: "f x s = Inr t" "fold_result f xs t = Inr s'" by auto
  with Cons.prems have "P t" by auto
  with t(2) Cons.prems(3) show ?case by (intro Cons.IH [of t]) auto
qed simp

text \<open>The computation returns.\<close>

fun is_ok :: "'e + 'a \<Rightarrow> bool" where
  "is_ok (Inl e) = False"
| "is_ok (Inr x) = True"

lemma is_okE: "is_ok r \<Longrightarrow> (\<And>x. r = Inr x \<Longrightarrow> thesis) \<Longrightarrow> thesis"
  by (cases r) auto

subsection \<open>Tables\<close>

definition find_row :: "('r \<Rightarrow> 'k) \<Rightarrow> 'k \<Rightarrow> 'r list \<Rightarrow> 'r option" where
  "find_row key i rows = List.find (\<lambda>r. key r = i) rows"

definition upd_rows :: "('r \<Rightarrow> bool) \<Rightarrow> ('r \<Rightarrow> 'r) \<Rightarrow> 'r list \<Rightarrow> 'r list" where
  "upd_rows P f rows = map (\<lambda>r. if P r then f r else r) rows"

fun one_or_none :: "'r list \<Rightarrow> 'r option result" where
  "one_or_none [] = Inr None"
| "one_or_none [r] = Inr (Some r)"
| "one_or_none (_ # _ # _) = Inl MultipleResultsFound"

lemma find_row_Some_iff:
  "find_row key i rows = Some r \<Longrightarrow> r \<in> set rows \<and> key r = i"
  by (auto simp: find_row_def find_Some_iff)

lemma find_row_None_iff [table_simps]:
  "find_row key i rows = None \<longleftrightarrow> (\<forall>r \<in> set rows. key r \<noteq> i)"
  by (auto simp: find_row_def find_None_iff)

lemma find_row_None_image: "find_row key i rows = None \<longleftrightarrow> i \<notin> key ` set rows"
  unfolding find_row_None_iff by (metis image_iff)

lemma find_row_Nil [simp]: "find_row key i [] = None"
  by (simp add: find_row_def)

lemma find_row_Cons [simp]:
  "find_row key i (r # rows) = (if key r = i then Some r else find_row key i rows)"
  by (simp add: find_row_def)

lemma find_row_append [table_simps]:
  "find_row key i (xs @ ys) =
     (case find_row key i xs of Some r \<Rightarrow> Some r | None \<Rightarrow> find_row key i ys)"
  by (induction xs) auto

lemma find_row_distinct:
  assumes "distinct (map key rows)" and "r \<in> set rows"
  shows "find_row key (key r) rows = Some r"
  using assms by (induction rows) (auto simp: image_iff)

lemma upd_rows_Nil [simp]: "upd_rows P f [] = []"
  by (simp add: upd_rows_def)

lemma upd_rows_Cons [simp]:
  "upd_rows P f (r # rows) = (if P r then f r else r) # upd_rows P f rows"
  by (simp add: upd_rows_def)

lemma upd_rows_append [simp]: "upd_rows P f (xs @ ys) = upd_rows P f xs @ upd_rows P f ys"
  by (simp add: upd_rows_def)

lemma length_upd_rows [simp]: "length (upd_rows P f rows) = length rows"
  by (simp add: upd_rows_def)

lemma map_upd_rows [table_simps]:
  "(\<And>r. P r \<Longrightarrow> g (f r) = g r) \<Longrightarrow> map g (upd_rows P f rows) = map g rows"
  by (auto simp: upd_rows_def)

lemma filter_upd_rows_same [table_simps]:
  "(\<And>r. P r \<Longrightarrow> \<not> Q r \<and> \<not> Q (f r)) \<Longrightarrow> filter Q (upd_rows P f rows) = filter Q rows"
  by (induction rows) auto

lemma filter_upd_rows [table_simps]:
  "(\<And>r. P r \<Longrightarrow> Q (f r) = Q r) \<Longrightarrow>
   filter Q (upd_rows P f rows) = upd_rows P f (filter Q rows)"
  by (induction rows) auto

lemma set_upd_rows [table_simps]:
  "set (upd_rows P f rows) = {r \<in> set rows. \<not> P r} \<union> f ` {r \<in> set rows. P r}"
  by (auto simp: upd_rows_def)

lemma upd_rows_none: "\<forall>r \<in> set rows. \<not> P r \<Longrightarrow> upd_rows P f rows = rows"
  by (induction rows) auto

lemma ball_upd_rows_key:
  "(\<And>r. key (f r) = key r) \<Longrightarrow> (\<forall>r \<in> set (upd_rows P f rows). Q (key r)) \<longleftrightarrow> (\<forall>r \<in> set rows. Q (key r))"
  by (induction rows) auto

lemma set_upd_rows_unique:
  assumes "distinct (map key rows)" "r \<in> set rows"
  shows "set (upd_rows (\<lambda>x. key x = key r) f rows) = {q \<in> set rows. key q \<noteq> key r} \<union> {f r}"
proof -
  have "{q \<in> set rows. key q = key r} = {r}"
    using assms by (auto simp: distinct_map dest: inj_onD)
  then show ?thesis unfolding set_upd_rows by simp
qed

lemma find_row_upd_rows [table_simps]:
  "(\<And>r. P r \<Longrightarrow> key (f r) = key r) \<Longrightarrow>
   find_row key i (upd_rows P f rows) =
     map_option (\<lambda>r. if P r then f r else r) (find_row key i rows)"
  by (induction rows) auto

lemma filter_ConsD: "filter P xs = y # ys \<Longrightarrow> P y \<and> y \<in> set xs"
  by (induction xs) (auto split: if_splits)

lemma one_or_none_Inr_iff [result_simps]:
  "one_or_none rows = Inr None \<longleftrightarrow> rows = []"
  "one_or_none rows = Inr (Some r) \<longleftrightarrow> rows = [r]"
  by (cases rows rule: one_or_none.cases; simp)+

lemma one_or_none_at_most_one:
  "length rows \<le> 1 \<Longrightarrow> \<exists>r. one_or_none rows = Inr r"
  by (cases rows rule: one_or_none.cases) auto

text \<open>Writing back a batch of loaded rows, each to the row with its key.\<close>

lemma fold_upd_rows_key:
  assumes "distinct (map key ls)"
  shows "fold (\<lambda>l. upd_rows (\<lambda>r. key r = key l) (\<lambda>_. l)) ls rows =
    map (\<lambda>r. case find_row key (key r) ls of None \<Rightarrow> r | Some l \<Rightarrow> l) rows"
  using assms
proof (induction ls arbitrary: rows)
  case (Cons l ls)
  have "find_row key (key l) ls = None" using Cons.prems unfolding find_row_None_iff by (metis distinct.simps(2) image_eqI list.simps(9) set_map)
  with Cons show ?case by (auto simp: upd_rows_def o_def)
qed simp

lemma fold_upd_rows_find:
  assumes "distinct (map pk ps)" and "\<And>p r. key (f p r) = key r"
  shows "fold (\<lambda>p. upd_rows (\<lambda>r. key r = pk p) (f p)) ps rows =
    map (\<lambda>r. case find_row pk (key r) ps of None \<Rightarrow> r | Some p \<Rightarrow> f p r) rows"
  using assms
proof (induction ps arbitrary: rows)
  case (Cons p ps)
  have "find_row pk (pk p) ps = None"
    using Cons.prems(1) unfolding find_row_None_iff by (metis distinct.simps(2) image_eqI list.simps(9) set_map)
  with Cons show ?case by (auto simp: upd_rows_def o_def)
qed simp

lemma mset_write_back:
  assumes d: "distinct (map key ls)" and m: "mset (map key ls) = mset (map key rows)"
  shows "mset (map (\<lambda>r. case find_row key (key r) ls of None \<Rightarrow> r | Some l \<Rightarrow> l) rows) = mset ls"
proof -
  let ?g = "\<lambda>k. the (find_row key k ls)"
  have "set (map key ls) = set (map key rows)" using m by (metis set_mset_mset)
  then have "map (\<lambda>r. case find_row key (key r) ls of None \<Rightarrow> r | Some l \<Rightarrow> l) rows = map (?g \<circ> key) rows"
  proof -
    assume eq: "set (map key ls) = set (map key rows)"
    have "find_row key (key r) ls \<noteq> None" if "r \<in> set rows" for r
    proof -
      from that eq have "key r \<in> key ` set ls" by (metis image_eqI set_map)
      then show ?thesis by (auto simp: find_row_None_iff)
    qed
    then show ?thesis by (intro map_cong) (fastforce split: option.splits)+
  qed
  then have "mset (map (\<lambda>r. case find_row key (key r) ls of None \<Rightarrow> r | Some l \<Rightarrow> l) rows) =
      image_mset ?g (mset (map key rows))" by (simp only: mset_map multiset.map_comp)
  also have "\<dots> = mset (map ?g (map key ls))" unfolding mset_map [of ?g] m ..
  also have "map ?g (map key ls) = ls"
    using find_row_distinct [OF d] by (simp add: map_idI)
  finally show ?thesis .
qed

subsection \<open>Sums over lists\<close>

lemma sum_list_mset:
  "mset xs = mset ys \<Longrightarrow> sum_list (map g xs) = (sum_list (map g ys) :: 'a::comm_monoid_add)"
  by (metis mset_map sum_mset_sum_list)

lemma sum_list_upd_rows:
  fixes g :: "'r \<Rightarrow> 'a::ab_group_add"
  shows "sum_list (map g (upd_rows P f rows)) =
    sum_list (map g rows) + sum_list (map (\<lambda>r. g (f r) - g r) (filter P rows))"
  by (induction rows) (auto simp: algebra_simps)

lemma sum_list_filter_zero:
  "(\<And>x. x \<in> set xs \<Longrightarrow> \<not> P x \<Longrightarrow> g x = 0) \<Longrightarrow>
   sum_list (map g (filter P xs)) = sum_list (map (g :: 'a \<Rightarrow> 'b::comm_monoid_add) xs)"
  by (induction xs) auto

lemma sum_list_map_nonneg:
  "(\<And>x. x \<in> set xs \<Longrightarrow> 0 \<le> g x) \<Longrightarrow> (0::'a::ordered_comm_monoid_add) \<le> sum_list (map g xs)"
  by (induction xs) auto

subsection \<open>Tables with a unique key\<close>

lemma filter_key_distinct:
  assumes "distinct (map key rows)"
  shows "filter (\<lambda>r. key r = k) rows =
    (case List.find (\<lambda>r. key r = k) rows of None \<Rightarrow> [] | Some r \<Rightarrow> [r])"
  using assms
proof (induction rows)
  case (Cons r rows)
  show ?case
  proof (cases "key r = k")
    case True
    with Cons.prems have "\<forall>x \<in> set rows. key x \<noteq> k" by (metis distinct.simps(2) image_eqI list.simps(9) set_map)
    with True show ?thesis by (simp add: filter_empty_conv)
  next
    case False
    with Cons show ?thesis by simp
  qed
qed simp

lemma filter_key_cases:
  assumes "distinct (map key rows)"
  obtains "filter (\<lambda>r. key r = k) rows = []" | r where "filter (\<lambda>r. key r = k) rows = [r]" "r \<in> set rows" "key r = k"
  using filter_key_distinct [OF assms, of k] by (auto split: option.splits dest: find_Some_iff [THEN iffD1])

lemma filter_id:
  assumes "distinct (map key rows)" and "r \<in> set rows"
  shows "filter (\<lambda>x. key x = key r) rows = [r]"
proof (cases rule: filter_key_cases [OF assms(1), where k = "key r"])
  case 1
  with assms(2) show ?thesis by (auto simp: filter_empty_conv)
next
  case (2 r')
  with assms show ?thesis by (auto simp: distinct_map inj_on_def)
qed

lemma sum_filter_if:
  "sum_list (map g (filter P xs)) = sum_list (map (\<lambda>x. if P x then g x else 0) xs)"
  for g :: "'r \<Rightarrow> 'a::comm_monoid_add"
  by (induction xs) auto

text \<open>A sum over the rows that satisfy a condition, after the row with one id was rewritten.\<close>

lemma sum_filter_upd_row:
  fixes g :: "'r \<Rightarrow> 'a::ab_group_add"
  assumes "distinct (map key rows)" and "r \<in> set rows"
  shows "sum_list (map g (filter P (upd_rows (\<lambda>x. key x = key r) f rows))) =
    sum_list (map g (filter P rows)) - (if P r then g r else 0) + (if P (f r) then g (f r) else 0)"
  unfolding sum_filter_if sum_list_upd_rows filter_id [OF assms] by simp

lemma sum_list_map_zero:
  "(\<And>x. x \<in> set xs \<Longrightarrow> g x = 0) \<Longrightarrow> sum_list (map g xs) = (0 :: 'a::comm_monoid_add)"
  by (induction xs) auto

subsection \<open>Patches and dicts\<close>

text \<open>A field of a partial update: \<open>None\<close> when the request omits it.\<close>

definition patched :: "'a option \<Rightarrow> 'a \<Rightarrow> 'a" where
  "patched new old = (case new of Some v \<Rightarrow> v | None \<Rightarrow> old)"

text \<open>A dict of amounts: \<open>d[k] = d.get(k, 0) + x\<close>.\<close>

fun dict_add :: "'k \<Rightarrow> decimal \<Rightarrow> ('k \<times> decimal) list \<Rightarrow> ('k \<times> decimal) list" where
  "dict_add k x [] = [(k, x)]"
| "dict_add k x ((j, y) # d) = (if j = k then (j, y + x) # d else (j, y) # dict_add k x d)"

end
