(* ===== verification/Calendar.thy ===== *)
theory Calendar
  imports Prelude
begin

text \<open>
  The proleptic Gregorian calendar of Python's \<^verbatim>\<open>datetime.date\<close> and \<^verbatim>\<open>calendar.monthrange\<close>, as far
  as the program uses it: comparison of dates, the last day of a month, a shift by whole months
  clamped to the month's end (\<^verbatim>\<open>_add_months\<close> of finance/service/periods.py) and the day before a
  date (\<^verbatim>\<open>- timedelta(days=1)\<close>). Years are not bounded; Python's limits (years 1 to 9999) are
  outside the model.
\<close>

datatype date = Date (dyear: int) (dmonth: int) (dday: int)

instantiation date :: linorder
begin

definition less_eq_date :: "date \<Rightarrow> date \<Rightarrow> bool" where
  "less_eq_date a b \<longleftrightarrow>
     dyear a < dyear b \<or> dyear a = dyear b \<and>
       (dmonth a < dmonth b \<or> dmonth a = dmonth b \<and> dday a \<le> dday b)"

definition less_date :: "date \<Rightarrow> date \<Rightarrow> bool" where
  "less_date a b \<longleftrightarrow>
     dyear a < dyear b \<or> dyear a = dyear b \<and>
       (dmonth a < dmonth b \<or> dmonth a = dmonth b \<and> dday a < dday b)"

instance
  by standard (auto simp: less_eq_date_def less_date_def date.expand)

end

lemmas date_order = less_eq_date_def less_date_def

definition is_leap :: "int \<Rightarrow> bool" where
  "is_leap y \<longleftrightarrow> y mod 4 = 0 \<and> (y mod 100 \<noteq> 0 \<or> y mod 400 = 0)"

text \<open>\<^verbatim>\<open>calendar.monthrange(year, month)[1]\<close>\<close>

definition month_days :: "int \<Rightarrow> int \<Rightarrow> int" where
  "month_days y m =
     (if m = 2 then (if is_leap y then 29 else 28)
      else if m \<in> {4, 6, 9, 11} then 30 else 31)"

definition valid_date :: "date \<Rightarrow> bool" where
  "valid_date d \<longleftrightarrow>
     1 \<le> dmonth d \<and> dmonth d \<le> 12 \<and> 1 \<le> dday d \<and> dday d \<le> month_days (dyear d) (dmonth d)"

definition add_months :: "date \<Rightarrow> int \<Rightarrow> date" where
  "add_months anchor months =
     (let t = dmonth anchor - 1 + months;
          year = dyear anchor + t div 12;
          month = t mod 12 + 1;
          last_day = month_days year month
      in Date year month (min (dday anchor) last_day))"

definition prev_day :: "date \<Rightarrow> date" where
  "prev_day d =
     (if 1 < dday d then Date (dyear d) (dmonth d) (dday d - 1)
      else if 1 < dmonth d then
        Date (dyear d) (dmonth d - 1) (month_days (dyear d) (dmonth d - 1))
      else Date (dyear d - 1) 12 31)"

lemma month_days_bounds: "28 \<le> month_days y m \<and> month_days y m \<le> 31"
  by (simp add: month_days_def)

lemma valid_prev_day: "valid_date d \<Longrightarrow> valid_date (prev_day d)"
  using month_days_bounds [of "dyear d" "dmonth d - 1"]
  by (auto simp: valid_date_def prev_day_def) (simp add: month_days_def)

lemma valid_add_months: "valid_date d \<Longrightarrow> valid_date (add_months d n)"
proof -
  assume v: "valid_date d"
  let ?t = "dmonth d - 1 + n"
  have "0 \<le> ?t mod 12" "?t mod 12 < 12" by simp_all
  moreover have "1 \<le> min (dday d) (month_days y m)" for y m
    using v month_days_bounds [of y m] by (simp add: valid_date_def)
  ultimately show ?thesis by (simp add: valid_date_def add_months_def Let_def)
qed

text \<open>The day before is the greatest earlier date.\<close>

lemma le_prev_day_iff:
  assumes "valid_date d" and "valid_date x"
  shows "d \<le> prev_day x \<longleftrightarrow> d < x"
proof -
  obtain y m k where d: "d = Date y m k" by (cases d)
  obtain y' m' k' where x: "x = Date y' m' k'" by (cases x)
  have bounds: "1 \<le> k" "1 \<le> m" "m \<le> 12" "1 \<le> k'" "1 \<le> m'" "k \<le> month_days y m"
    using assms by (simp_all add: valid_date_def d x)
  consider "1 < k'" | "k' = 1" "1 < m'" | "k' = 1" "m' = 1" using bounds by linarith
  then show ?thesis
  proof cases
    case 1
    then show ?thesis by (simp add: prev_day_def date_order d x)
  next
    case 2
    have "k \<le> month_days y (m' - 1)" if "m = m' - 1" using that bounds by simp
    moreover have "m < m' \<longleftrightarrow> m < m' - 1 \<or> m = m' - 1" by linarith
    ultimately show ?thesis using 2 bounds(1) by (auto simp: prev_day_def date_order d x)
  next
    case 3
    have "k \<le> 31" using bounds month_days_bounds [of y m] by linarith
    with 3 bounds show ?thesis by (simp add: prev_day_def date_order d x) linarith
  qed
qed

text \<open>Shifting by more months gives a later date, whatever is clamped.\<close>

lemma add_months_mono:
  assumes "m < n"
  shows "add_months d m < add_months d n"
proof -
  let ?a = "dmonth d - 1 + m" and ?b = "dmonth d - 1 + n"
  have "?a div 12 < ?b div 12 \<or> ?a div 12 = ?b div 12 \<and> ?a mod 12 < ?b mod 12"
  proof -
    have "?a div 12 \<le> ?b div 12" using assms by (intro zdiv_mono1) simp_all
    moreover have "?a mod 12 < ?b mod 12" if "?a div 12 = ?b div 12"
      using that assms mult_div_mod_eq [of 12 ?a] mult_div_mod_eq [of 12 ?b] by linarith
    ultimately show ?thesis by linarith
  qed
  then show ?thesis
    by (auto simp: add_months_def Let_def date_order)
qed

lemma add_months_0: "valid_date d \<Longrightarrow> add_months d 0 = d"
  by (cases d) (auto simp: add_months_def valid_date_def Let_def div_pos_pos_trivial mod_pos_pos_trivial)

end
