(* ===== verification/Core_Db.thy ===== *)
theory Core_Db
  imports Calendar
begin

text \<open>
  The tables of the core platform (\<^verbatim>\<open>backend/app/core\<close>) and the rest of a unit of work's state: one
  record per ORM class and the record \<open>core_db\<close> of all tables. The modules extend \<open>core_db\<close> with
  their own tables, so a core function works on every extension (\<open>core_db_scheme\<close>).

  \<open>uuid4()\<close> is a supply of fresh identifiers (\<open>uuid_supply\<close>), \<open>date.today()\<close> and
  \<open>datetime.now()\<close> are the fields \<open>today\<close> and \<open>now\<close>, and \<open>pending_events\<close> is the FIFO buffer
  of not yet dispatched domain events in \<open>session.info\<close>. Audit stamps (\<open>created_at\<close>,
  \<open>updated_at\<close>) are not modelled: a table lists its rows in order of insertion.
\<close>

record number_sequence =
  ns_id :: uuid
  ns_tenant :: uuid
  ns_name :: string
  ns_prefix :: string
  ns_padding :: int
  ns_year_reset :: bool

record number_sequence_counter =
  nc_id :: uuid
  nc_tenant :: uuid
  nc_sequence :: uuid
  nc_year :: int
  nc_next_value :: nat

record document =
  doc_pk :: uuid
  doc_tenant :: uuid
  doc_type :: string
  doc_id :: uuid
  doc_number :: "string option"
  doc_status :: "string option"

record document_link =
  dl_id :: uuid
  dl_tenant :: uuid
  dl_predecessor :: uuid
  dl_successor :: uuid
  dl_link_type :: "string option"

record 'ev core_db =
  uuid_supply :: nat
  today :: date
  now :: nat
  number_sequences :: "number_sequence list"
  number_counters :: "number_sequence_counter list"
  documents :: "document list"
  doc_links :: "document_link list"
  pending_events :: "'ev list"

definition uuid4 :: "('ev, 'm) core_db_scheme \<Rightarrow> uuid \<times> ('ev, 'm) core_db_scheme" where
  "uuid4 db = (uuid_supply db, db\<lparr>uuid_supply := Suc (uuid_supply db)\<rparr>)"

text \<open>\<^verbatim>\<open>publish(session, event)\<close> appends to the session's buffer.\<close>

definition publish :: "'ev \<Rightarrow> ('ev, 'm) core_db_scheme \<Rightarrow> ('ev, 'm) core_db_scheme" where
  "publish ev db = db\<lparr>pending_events := pending_events db @ [ev]\<rparr>"

end
