(* ===== verification/Decimal_Arith.thy ===== *)
theory Decimal_Arith
  imports Prelude
begin

text \<open>
  The part of Python's \<^verbatim>\<open>decimal\<close> module the program uses. A \<^verbatim>\<open>Decimal\<close> is its value, a rational
  number. \<open>quantize\<close> rounds to a number of places under one of the three rounding modes that
  occur in the code. Products and quotients go through the arithmetic context
  (\<^verbatim>\<open>getcontext()\<close>: 28 significant digits, half-even), \<open>ctx\<close>. Sums and differences of
  amounts are exact: an operand is a stored value of at most 18 digits (\<^verbatim>\<open>NUMERIC(18,6)\<close>) or was
  just quantized, so a sum stays below 28 digits; where an operand is itself the result of a
  product or quotient, \<open>dadd\<close> rounds the sum in the context.
\<close>

subsection \<open>Rounding modes\<close>

datatype rounding = ROUND_HALF_UP | ROUND_HALF_EVEN | ROUND_DOWN

definition round_half_up :: "rat \<Rightarrow> int" where
  "round_half_up x = (if 0 \<le> x then \<lfloor>x + 1/2\<rfloor> else - \<lfloor>- x + 1/2\<rfloor>)"

definition round_half_even :: "rat \<Rightarrow> int" where
  "round_half_even x =
     (let f = \<lfloor>x\<rfloor>; r = x - of_int f
      in if r < 1/2 then f else if r > 1/2 then f + 1 else if even f then f else f + 1)"

definition round_down :: "rat \<Rightarrow> int" where
  "round_down x = (if 0 \<le> x then \<lfloor>x\<rfloor> else - \<lfloor>- x\<rfloor>)"

fun round_int :: "rounding \<Rightarrow> rat \<Rightarrow> int" where
  "round_int ROUND_HALF_UP x = round_half_up x"
| "round_int ROUND_HALF_EVEN x = round_half_even x"
| "round_int ROUND_DOWN x = round_down x"

definition scale_round :: "(rat \<Rightarrow> int) \<Rightarrow> nat \<Rightarrow> rat \<Rightarrow> rat" where
  "scale_round r p x = of_int (r (x * 10 ^ p)) / 10 ^ p"

text \<open>\<^verbatim>\<open>value.quantize(Decimal(1).scaleb(-places), rounding=mode)\<close>\<close>

definition quantize :: "rounding \<Rightarrow> nat \<Rightarrow> decimal \<Rightarrow> decimal" where
  "quantize m p x = scale_round (round_int m) p x"

text \<open>The values a column with \<open>p\<close> fractional digits can hold.\<close>

definition on_grid :: "nat \<Rightarrow> rat \<Rightarrow> bool" where
  "on_grid p x \<longleftrightarrow> of_int \<lfloor>x * 10 ^ p\<rfloor> = x * 10 ^ p"

lemma on_gridI: "x * 10 ^ p = of_int n \<Longrightarrow> on_grid p x"
  by (simp add: on_grid_def)

lemma on_gridE:
  assumes "on_grid p x"
  obtains n :: int where "x = of_int n / 10 ^ p"
proof -
  from assms have eq: "of_int \<lfloor>x * 10 ^ p\<rfloor> = x * 10 ^ p"
    unfolding on_grid_def .
  have "x = of_int \<lfloor>x * 10 ^ p\<rfloor> / 10 ^ p"
    unfolding eq by simp
  then show ?thesis by (rule that)
qed

lemma on_grid_of_int_div [simp]: "on_grid p (of_int n / 10 ^ p)"
  by (rule on_gridI [of _ _ n]) simp

lemma on_grid_0 [simp]: "on_grid p 0"
  by (simp add: on_grid_def)

lemma on_grid_add: "on_grid p x \<Longrightarrow> on_grid p y \<Longrightarrow> on_grid p (x + y)"
  by (elim on_gridE) (metis add_divide_distrib of_int_add on_grid_of_int_div)

lemma on_grid_minus: "on_grid p x \<Longrightarrow> on_grid p (- x)"
  by (elim on_gridE) (metis minus_divide_left of_int_minus on_grid_of_int_div)

lemma on_grid_diff: "on_grid p x \<Longrightarrow> on_grid p y \<Longrightarrow> on_grid p (x - y)"
  using on_grid_add [of p x "- y"] by (simp add: on_grid_minus)

lemma on_grid_sum_list: "(\<And>x. x \<in> set xs \<Longrightarrow> on_grid p x) \<Longrightarrow> on_grid p (sum_list xs)"
  by (induction xs) (auto intro: on_grid_add)

lemma on_grid_mono:
  assumes "on_grid p x" and "p \<le> p'"
  shows "on_grid p' x"
proof -
  from assms(1) obtain n :: int where n: "x = of_int n / 10 ^ p" by (rule on_gridE)
  have "x * 10 ^ p' = of_int (n * 10 ^ (p' - p))"
    using assms(2) by (simp add: n le_add_diff_inverse [symmetric] power_add [symmetric] field_simps)
  then show ?thesis by (rule on_gridI)
qed

text \<open>Two grid values closer than one step are equal.\<close>

lemma on_grid_eqI:
  assumes "on_grid p x" and "on_grid p y" and "\<bar>x - y\<bar> < 1 / 10 ^ p"
  shows "x = y"
proof -
  from assms(1,2) obtain m n :: int where mn: "x = of_int m / 10 ^ p" "y = of_int n / 10 ^ p"
    by (metis on_gridE)
  have "\<bar>x - y\<bar> = \<bar>of_int (m - n)\<bar> / 10 ^ p"
    by (simp add: mn diff_divide_distrib [symmetric] abs_divide)
  with assms(3) have "\<bar>of_int (m - n) :: rat\<bar> < 1"
    by (simp add: divide_less_cancel)
  then have "m = n" by linarith
  with mn show ?thesis by simp
qed

subsection \<open>What every rounding mode promises\<close>

locale rounding_mode =
  fixes r :: "rat \<Rightarrow> int"
  assumes round_of_int: "r (of_int n) = n"
    and round_mono: "x \<le> y \<Longrightarrow> r x \<le> r y"
    and round_minus: "r (- x) = - r x"
    and round_err: "\<bar>of_int (r x) - x\<bar> < 1"
begin

lemma scale_round_on_grid: "on_grid p (scale_round r p x)"
  by (simp add: scale_round_def)

lemma scale_round_grid: "on_grid p x \<Longrightarrow> scale_round r p x = x"
  by (elim on_gridE) (simp add: scale_round_def round_of_int)

lemma scale_round_mono: "x \<le> y \<Longrightarrow> scale_round r p x \<le> scale_round r p y"
  by (simp add: scale_round_def divide_right_mono round_mono)

lemma scale_round_0: "scale_round r p 0 = 0"
  by (simp add: scale_round_grid)

lemma scale_round_nonneg: "0 \<le> x \<Longrightarrow> 0 \<le> scale_round r p x"
  using scale_round_mono [of 0 x p] by (simp add: scale_round_0)

lemma scale_round_minus: "scale_round r p (- x) = - scale_round r p x"
  by (simp add: scale_round_def round_minus)

lemma scale_round_err: "\<bar>scale_round r p x - x\<bar> < 1 / 10 ^ p"
proof -
  have "scale_round r p x - x = (of_int (r (x * 10 ^ p)) - x * 10 ^ p) / 10 ^ p"
    by (simp add: scale_round_def diff_divide_distrib)
  then have "\<bar>scale_round r p x - x\<bar> = \<bar>of_int (r (x * 10 ^ p)) - x * 10 ^ p\<bar> / 10 ^ p"
    by (simp add: abs_divide)
  also have "\<dots> < 1 / 10 ^ p"
    using round_err by (intro divide_strict_right_mono) auto
  finally show ?thesis .
qed

end

locale nearest_rounding = rounding_mode +
  assumes round_half: "\<bar>of_int (r x) - x\<bar> \<le> 1/2"
begin

lemma scale_round_half: "\<bar>scale_round r p x - x\<bar> \<le> 1 / (2 * 10 ^ p)"
proof -
  have "scale_round r p x - x = (of_int (r (x * 10 ^ p)) - x * 10 ^ p) / 10 ^ p"
    by (simp add: scale_round_def diff_divide_distrib)
  then have "\<bar>scale_round r p x - x\<bar> = \<bar>of_int (r (x * 10 ^ p)) - x * 10 ^ p\<bar> / 10 ^ p"
    by (simp add: abs_divide)
  also have "\<dots> \<le> (1/2) / 10 ^ p"
    using round_half by (intro divide_right_mono) auto
  finally show ?thesis by simp
qed

text \<open>A value within half a step of a grid value rounds to it.\<close>

lemma scale_round_near:
  assumes "on_grid p g" and "\<bar>x - g\<bar> < 1 / (2 * 10 ^ p)"
  shows "scale_round r p x = g"
proof (rule on_grid_eqI [OF scale_round_on_grid assms(1)])
  have "\<bar>scale_round r p x - g\<bar> \<le> \<bar>scale_round r p x - x\<bar> + \<bar>x - g\<bar>" by linarith
  also have "\<dots> < 1 / (2 * 10 ^ p) + 1 / (2 * 10 ^ p)"
    using scale_round_half [of p x] assms(2) by linarith
  finally show "\<bar>scale_round r p x - g\<bar> < 1 / 10 ^ p" by simp
qed

end

lemma round_half_even_cases:
  fixes x :: rat
  shows "round_half_even x = \<lfloor>x\<rfloor> \<and> x - of_int \<lfloor>x\<rfloor> \<le> 1/2 \<or>
    round_half_even x = \<lfloor>x\<rfloor> + 1 \<and> 1/2 \<le> x - of_int \<lfloor>x\<rfloor>"
  unfolding round_half_even_def Let_def by auto

lemma round_half_even_minus: "round_half_even (- x) = - round_half_even x"
proof (cases "x = of_int \<lfloor>x\<rfloor>")
  case True
  then obtain n :: int where "x = of_int n" by blast
  then show ?thesis by (simp add: round_half_even_def floor_minus)
next
  case False
  then have lt: "of_int \<lfloor>x\<rfloor> < x" using of_int_floor_le [of x] by linarith
  then have fl: "\<lfloor>- x\<rfloor> = - \<lfloor>x\<rfloor> - 1"
    by (intro floor_unique) (use floor_correct [of x] in simp_all)
  have ev: "even (- \<lfloor>x\<rfloor> - 1) \<longleftrightarrow> odd \<lfloor>x\<rfloor>" by presburger
  show ?thesis
    unfolding round_half_even_def Let_def fl ev by simp
qed

lemma round_half_even_mono:
  assumes "x \<le> y"
  shows "round_half_even x \<le> round_half_even y"
proof (cases "\<lfloor>x\<rfloor> = \<lfloor>y\<rfloor>")
  case True
  with assms show ?thesis
    unfolding round_half_even_def Let_def by auto
next
  case False
  with assms have "\<lfloor>x\<rfloor> + 1 \<le> \<lfloor>y\<rfloor>" using floor_mono [OF assms] by linarith
  then show ?thesis
    using round_half_even_cases [of x] round_half_even_cases [of y] by auto
qed

lemma round_half_even_half: "\<bar>of_int (round_half_even x) - x\<bar> \<le> 1/2"
  using round_half_even_cases [of x] floor_correct [of x] by (auto simp: abs_le_iff)

lemma round_half_up_half: "\<bar>of_int (round_half_up x) - x\<bar> \<le> 1/2"
proof (cases "0 \<le> x")
  case True
  then show ?thesis using floor_correct [of "x + 1/2"] by (simp only: round_half_up_def if_True) linarith
next
  case False
  then have eq: "of_int (round_half_up x) = - (of_int \<lfloor>- x + 1/2\<rfloor> :: rat)"
    by (simp add: round_half_up_def)
  show ?thesis using floor_correct [of "- x + 1/2"] unfolding eq by linarith
qed

lemma round_down_err: "\<bar>of_int (round_down x) - x\<bar> < 1"
proof (cases "0 \<le> x")
  case True
  then show ?thesis using floor_correct [of x] by (simp only: round_down_def if_True) linarith
next
  case False
  then have eq: "of_int (round_down x) = - (of_int \<lfloor>- x\<rfloor> :: rat)"
    by (simp add: round_down_def)
  show ?thesis using floor_correct [of "- x"] unfolding eq by linarith
qed

lemma round_half_up_mono: "x \<le> y \<Longrightarrow> round_half_up x \<le> round_half_up y"
proof (cases "0 \<le> x")
  case True
  assume "x \<le> y"
  with True show ?thesis by (simp add: round_half_up_def floor_mono)
next
  case False
  assume le: "x \<le> y"
  show ?thesis
  proof (cases "0 \<le> y")
    case True
    have "0 \<le> \<lfloor>y + 1/2\<rfloor>" and "0 \<le> \<lfloor>- x + 1/2\<rfloor>" using True False by simp_all
    then have "- \<lfloor>- x + 1/2\<rfloor> \<le> \<lfloor>y + 1/2\<rfloor>" by linarith
    with True False show ?thesis by (simp only: round_half_up_def if_True if_False)
  next
    case F: False
    have "\<lfloor>- y + 1/2\<rfloor> \<le> \<lfloor>- x + 1/2\<rfloor>" using le by (intro floor_mono) simp
    with F False show ?thesis by (simp add: round_half_up_def)
  qed
qed

lemma round_down_mono: "x \<le> y \<Longrightarrow> round_down x \<le> round_down y"
proof (cases "0 \<le> x")
  case True
  assume "x \<le> y"
  with True show ?thesis by (simp add: round_down_def floor_mono)
next
  case False
  assume le: "x \<le> y"
  show ?thesis
  proof (cases "0 \<le> y")
    case True
    have "0 \<le> \<lfloor>y\<rfloor>" and "0 \<le> \<lfloor>- x\<rfloor>" using True False by simp_all
    then have "- \<lfloor>- x\<rfloor> \<le> \<lfloor>y\<rfloor>" by linarith
    with True False show ?thesis by (simp only: round_down_def if_True if_False)
  next
    case F: False
    have "\<lfloor>- y\<rfloor> \<le> \<lfloor>- x\<rfloor>" using le by (intro floor_mono) simp
    with F False show ?thesis by (simp add: round_down_def)
  qed
qed

lemma round_half_up_of_int: "round_half_up (of_int n) = n"
proof -
  have "\<lfloor>of_int n + 1/2 :: rat\<rfloor> = n" and "\<lfloor>- of_int n + 1/2 :: rat\<rfloor> = - n"
    by (intro floor_unique; simp)+
  then show ?thesis by (simp only: round_half_up_def minus_minus split: if_split) simp
qed

lemma round_half_up_minus: "round_half_up (- x) = - round_half_up x"
proof (cases "x = 0")
  case True
  with round_half_up_of_int [of 0] show ?thesis by simp
next
  case False
  then show ?thesis by (auto simp: round_half_up_def)
qed

interpretation half_up: nearest_rounding round_half_up
proof unfold_locales
  fix x :: rat
  show "\<bar>of_int (round_half_up x) - x\<bar> < 1" using round_half_up_half [of x] by linarith
qed (fact round_half_up_of_int round_half_up_mono round_half_up_minus round_half_up_half)+

interpretation half_even: nearest_rounding round_half_even
proof unfold_locales
  fix x :: rat and n :: int
  show "\<bar>of_int (round_half_even x) - x\<bar> < 1" using round_half_even_half [of x] by linarith
  show "round_half_even (of_int n) = n" by (simp add: round_half_even_def)
qed (fact round_half_even_mono round_half_even_minus round_half_even_half)+

interpretation trunc: rounding_mode round_down
proof unfold_locales
  fix x :: rat and n :: int
  show "round_down (- x) = - round_down x"
    by (auto simp: round_down_def)
  show "round_down (of_int n) = n"
    by (simp add: round_down_def)
qed (fact round_down_err round_down_mono)+

text \<open>The laws at \<open>quantize\<close>, for the three modes of the code.\<close>

lemma round_int_mode: "rounding_mode (round_int m)"
proof -
  have "round_int ROUND_HALF_UP = round_half_up" "round_int ROUND_HALF_EVEN = round_half_even"
    "round_int ROUND_DOWN = round_down" by auto
  then show ?thesis
    by (cases m) (simp_all add: half_up.rounding_mode_axioms half_even.rounding_mode_axioms
        trunc.rounding_mode_axioms)
qed

lemma quantize_on_grid [simp]: "on_grid p (quantize m p x)"
  unfolding quantize_def by (rule rounding_mode.scale_round_on_grid [OF round_int_mode])

lemma quantize_grid: "on_grid p x \<Longrightarrow> quantize m p x = x"
  unfolding quantize_def by (rule rounding_mode.scale_round_grid [OF round_int_mode])

lemma quantize_mono: "x \<le> y \<Longrightarrow> quantize m p x \<le> quantize m p y"
  unfolding quantize_def by (rule rounding_mode.scale_round_mono [OF round_int_mode])

lemma quantize_0 [simp]: "quantize m p 0 = 0"
  by (simp add: quantize_grid)

lemma quantize_nonneg: "0 \<le> x \<Longrightarrow> 0 \<le> quantize m p x"
  using quantize_mono [of 0 x m p] by simp

lemma quantize_minus: "quantize m p (- x) = - quantize m p x"
  unfolding quantize_def by (rule rounding_mode.scale_round_minus [OF round_int_mode])

lemma quantize_err: "\<bar>quantize m p x - x\<bar> < 1 / 10 ^ p"
  unfolding quantize_def by (rule rounding_mode.scale_round_err [OF round_int_mode])

lemma quantize_half_up_near:
  "on_grid p g \<Longrightarrow> \<bar>x - g\<bar> < 1 / (2 * 10 ^ p) \<Longrightarrow> quantize ROUND_HALF_UP p x = g"
proof -
  assume "on_grid p g" and "\<bar>x - g\<bar> < 1 / (2 * 10 ^ p)"
  moreover have "round_int ROUND_HALF_UP = round_half_up" by auto
  ultimately show ?thesis
    unfolding quantize_def by (simp only:) (rule half_up.scale_round_near)
qed

lemma quantize_down_le: "0 \<le> x \<Longrightarrow> quantize ROUND_DOWN p x \<le> x"
  using floor_correct [of "x * 10 ^ p"]
  by (simp add: quantize_def scale_round_def round_down_def field_simps)

subsection \<open>The arithmetic context: 28 significant digits, half-even\<close>

function ndigits :: "int \<Rightarrow> nat" where
  "ndigits n = (if n \<le> 0 then 0 else Suc (ndigits (n div 10)))"
  by pat_completeness auto
termination
  by (relation "measure nat") auto

declare ndigits.simps [simp del]

text \<open>The number of digits before the decimal point (0 or negative for a fraction).\<close>

definition dec_exponent :: "rat \<Rightarrow> int" where
  "dec_exponent x =
     (case quotient_of \<bar>x\<bar> of (n, d) \<Rightarrow>
        let k = int (ndigits n) - int (ndigits d)
        in if 10 powi k \<le> \<bar>x\<bar> then k + 1 else k)"

definition ctx :: "rat \<Rightarrow> decimal" where
  "ctx x = (if x = 0 then 0
     else let e = dec_exponent x - 28 in of_int (round_half_even (x / 10 powi e)) * 10 powi e)"

definition dadd :: "decimal \<Rightarrow> decimal \<Rightarrow> decimal" where
  "dadd a b = ctx (a + b)"

definition dmul :: "decimal \<Rightarrow> decimal \<Rightarrow> decimal" where
  "dmul a b = ctx (a * b)"

definition ddiv :: "decimal \<Rightarrow> decimal \<Rightarrow> decimal" where
  "ddiv a b = ctx (a / b)"

lemma ndigits_bounds:
  "0 < n \<Longrightarrow> 0 < ndigits n \<and> 10 ^ (ndigits n - 1) \<le> n \<and> n < 10 ^ ndigits n"
proof (induction n rule: ndigits.induct)
  case (1 n)
  show ?case
  proof (cases "n < 10")
    case True
    with 1(2) have "ndigits n = 1" by (simp add: ndigits.simps [of n] ndigits.simps [of 0])
    with True 1(2) show ?thesis by simp
  next
    case False
    let ?m = "n div 10"
    from False have IH: "0 < ndigits ?m" "10 ^ (ndigits ?m - 1) \<le> ?m" "?m < 10 ^ ndigits ?m"
      using 1(1) by auto
    have d: "ndigits n = Suc (ndigits ?m)" using 1(2) by (simp add: ndigits.simps [of n])
    have "10 ^ ndigits ?m = (10::int) * 10 ^ (ndigits ?m - 1)"
      using IH(1) by (cases "ndigits ?m") auto
    also have "\<dots> \<le> 10 * ?m" using IH(2) by simp
    also have "\<dots> \<le> n" by simp
    finally have "10 ^ ndigits ?m \<le> n" .
    moreover have "n < 10 * 10 ^ ndigits ?m" using IH(3) by linarith
    ultimately show ?thesis by (simp add: d)
  qed
qed

lemma powi_nat: "(10::rat) powi int k = 10 ^ k"
  by simp

lemma powi_mono: "a \<le> b \<Longrightarrow> (10::rat) powi a \<le> 10 powi b"
  by (rule power_int_increasing) auto

lemma dec_exponent_bounds:
  assumes "x \<noteq> 0"
  shows "10 powi (dec_exponent x - 1) \<le> \<bar>x\<bar> \<and> \<bar>x\<bar> < 10 powi dec_exponent x"
proof -
  obtain n d where q: "quotient_of \<bar>x\<bar> = (n, d)" by fastforce
  have d0: "0 < d" using quotient_of_denom_pos [OF q] .
  have eq: "\<bar>x\<bar> = of_int n / of_int d" using quotient_of_div [OF q] .
  with assms d0 have n0: "0 < n"
    by (metis abs_not_less_zero div_0 divide_less_0_iff linorder_neqE_linordered_idom of_int_0
        of_int_0_less_iff of_int_less_0_iff zero_less_abs_iff less_irrefl)
  let ?a = "ndigits n" and ?b = "ndigits d"
  have A: "0 < ?a" "10 ^ (?a - 1) \<le> n" "n < 10 ^ ?a" using ndigits_bounds [of n] n0 by auto
  have B: "0 < ?b" "10 ^ (?b - 1) \<le> d" "d < 10 ^ ?b" using ndigits_bounds [of d] d0 by auto
  have A': "(10::rat) ^ (?a - 1) \<le> of_int n" "of_int n < (10::rat) ^ ?a"
    using A(2,3) by (metis of_int_le_iff of_int_numeral of_int_power)
      (metis A(3) of_int_less_iff of_int_numeral of_int_power)
  have B': "(10::rat) ^ (?b - 1) \<le> of_int d" "of_int d < (10::rat) ^ ?b"
    using B(2,3) by (metis of_int_le_iff of_int_numeral of_int_power)
      (metis B(3) of_int_less_iff of_int_numeral of_int_power)
  define k where "k = int ?a - int ?b"
  have lo: "10 powi (k - 1) \<le> \<bar>x\<bar>"
  proof -
    have "(10::rat) powi (k - 1) = 10 ^ (?a - 1) / 10 ^ ?b"
      using A(1) by (simp add: k_def power_int_diff power_diff)
    also have "\<dots> \<le> of_int n / of_int d"
      using A'(1) B'(2) d0 n0 by (intro frac_le) auto
    finally show ?thesis by (simp add: eq)
  qed
  have hi: "\<bar>x\<bar> < 10 powi (k + 1)"
  proof -
    have "of_int n / of_int d < (10::rat) ^ ?a / 10 ^ (?b - 1)"
      using A'(2) B'(1) d0 n0 by (intro frac_less) auto
    also have "\<dots> = 10 powi (k + 1)"
      using B(1) by (simp add: k_def power_int_diff power_int_add power_diff)
    finally show ?thesis by (simp add: eq)
  qed
  have "dec_exponent x = (if 10 powi k \<le> \<bar>x\<bar> then k + 1 else k)"
    by (simp add: dec_exponent_def q k_def Let_def)
  with lo hi show ?thesis by auto
qed

lemma ctx_0 [simp]: "ctx 0 = 0"
  by (simp add: ctx_def)

lemma ctx_err: "\<bar>ctx x - x\<bar> \<le> \<bar>x\<bar> / (2 * 10 ^ 27)"
proof (cases "x = 0")
  case False
  let ?e = "dec_exponent x - 28"
  have p: "(0::rat) < 10 powi ?e" by (rule zero_less_power_int) simp
  have "ctx x - x = (of_int (round_half_even (x / 10 powi ?e)) - x / 10 powi ?e) * 10 powi ?e"
    using False p by (simp add: ctx_def Let_def left_diff_distrib)
  then have "\<bar>ctx x - x\<bar> =
      \<bar>of_int (round_half_even (x / 10 powi ?e)) - x / 10 powi ?e\<bar> * 10 powi ?e"
    using p by (simp add: abs_mult)
  also have "\<dots> \<le> 1/2 * 10 powi ?e"
    using round_half_even_half p by (intro mult_right_mono) auto
  also have "(10::rat) powi ?e = 10 powi (dec_exponent x - 1) / 10 ^ 27"
    by (simp add: power_int_diff)
  also have "1/2 * (10 powi (dec_exponent x - 1) / 10 ^ 27) \<le> \<bar>x\<bar> / (2 * 10 ^ 27)"
    using dec_exponent_bounds [OF False] by (simp add: divide_right_mono)
  finally show ?thesis .
qed simp

lemma ctx_nonneg: "0 \<le> x \<Longrightarrow> 0 \<le> ctx x"
proof -
  assume "0 \<le> x"
  then have "x / (2 * 10 ^ 27) \<le> x" and "\<bar>ctx x - x\<bar> \<le> x / (2 * 10 ^ 27)"
    using ctx_err [of x] by (simp_all add: field_simps)
  then show ?thesis by linarith
qed

lemma ctx_pos: "0 < x \<Longrightarrow> 0 < ctx x"
proof -
  assume "0 < x"
  then have "x / (2 * 10 ^ 27) < x" and "\<bar>ctx x - x\<bar> \<le> x / (2 * 10 ^ 27)"
    using ctx_err [of x] by (simp_all add: field_simps)
  then show ?thesis by linarith
qed

text \<open>A value of at most 28 digits is not changed by the context.\<close>

lemma ctx_exact:
  assumes g: "on_grid p x" and small: "\<bar>x\<bar> * 10 ^ p < 10 ^ 28"
  shows "ctx x = x"
proof (cases "x = 0")
  case False
  let ?e = "dec_exponent x - 28"
  from g obtain n :: int where n: "x = of_int n / 10 ^ p" by (rule on_gridE)
  have lo: "10 powi (?e + 27) \<le> \<bar>x\<bar>" using dec_exponent_bounds [OF False] by simp
  have "?e + int p \<le> 0"
  proof (rule ccontr)
    assume "\<not> ?e + int p \<le> 0"
    then have "28 \<le> ?e + 27 + int p" by linarith
    then have "(10::rat) powi 28 \<le> 10 powi (?e + 27 + int p)" by (rule powi_mono)
    also have "\<dots> = 10 powi (?e + 27) * 10 ^ p" by (simp add: power_int_add)
    also have "\<dots> \<le> \<bar>x\<bar> * 10 ^ p" using lo by (intro mult_right_mono) auto
    finally show False using small by simp
  qed
  then have "0 \<le> - ?e - int p" by linarith
  then obtain j where j: "- ?e - int p = int j" by (rule nonneg_int_cases)
  have pw: "(10::rat) powi (- e - int p) = 1 / (10 ^ p * 10 powi e)" for e
    by (simp add: power_int_diff power_int_minus field_simps)
  have "x / 10 powi ?e = of_int n * 10 powi (- ?e - int p)"
    unfolding pw using arg_cong [OF n, of "\<lambda>y. y / 10 powi ?e"] by simp
  also have "\<dots> = of_int (n * 10 ^ j)" unfolding j by simp
  finally have "round_half_even (x / 10 powi ?e) = n * 10 ^ j" and
    eq: "x / 10 powi ?e = of_int (n * 10 ^ j)"
    by (simp_all only: half_even.round_of_int)
  then have "ctx x = x / 10 powi ?e * 10 powi ?e"
    using False by (simp only: ctx_def Let_def if_False)
  then show ?thesis by simp
qed simp

lemma dmul_0 [simp]: "dmul 0 b = 0" "dmul a 0 = 0"
  by (simp_all add: dmul_def)

lemma dmul_nonneg: "0 \<le> a \<Longrightarrow> 0 \<le> b \<Longrightarrow> 0 \<le> dmul a b"
  by (simp add: dmul_def ctx_nonneg)

lemma ddiv_nonneg: "0 \<le> a \<Longrightarrow> 0 \<le> b \<Longrightarrow> 0 \<le> ddiv a b"
  by (simp add: ddiv_def ctx_nonneg)

text \<open>Dividing and multiplying back returns almost the dividend.\<close>

lemma dmul_ddiv_err:
  assumes "0 < b"
  shows "\<bar>dmul b (ddiv a b) - a\<bar> \<le> \<bar>a\<bar> / 10 ^ 26"
proof -
  let ?q = "ddiv a b"
  have e1: "\<bar>?q - a / b\<bar> \<le> \<bar>a / b\<bar> / (2 * 10 ^ 27)" unfolding ddiv_def by (rule ctx_err)
  have "b * ?q - a = b * (?q - a / b)" using assms by (simp add: right_diff_distrib)
  then have "\<bar>b * ?q - a\<bar> = b * \<bar>?q - a / b\<bar>" using assms by (simp add: abs_mult)
  also have "\<dots> \<le> b * (\<bar>a / b\<bar> / (2 * 10 ^ 27))"
    using e1 assms by (intro mult_left_mono) auto
  also have "\<dots> = \<bar>a\<bar> / (2 * 10 ^ 27)"
    using assms by (simp add: abs_divide)
  finally have e2: "\<bar>b * ?q - a\<bar> \<le> \<bar>a\<bar> / (2 * 10 ^ 27)" .
  have e3: "\<bar>dmul b ?q - b * ?q\<bar> \<le> \<bar>b * ?q\<bar> / (2 * 10 ^ 27)" unfolding dmul_def by (rule ctx_err)
  have "\<bar>a\<bar> / (2 * 10 ^ 27) \<le> \<bar>a\<bar>" by (simp add: field_simps)
  with e2 have "\<bar>b * ?q\<bar> \<le> 2 * \<bar>a\<bar>" by linarith
  then have "\<bar>b * ?q\<bar> / (2 * 10 ^ 27) \<le> \<bar>a\<bar> / 10 ^ 27" by (simp add: field_simps)
  with e2 e3 have "\<bar>dmul b ?q - a\<bar> \<le> \<bar>a\<bar> / (2 * 10 ^ 27) + \<bar>a\<bar> / 10 ^ 27" by linarith
  also have "\<dots> \<le> \<bar>a\<bar> / 10 ^ 26" by (simp add: field_simps)
  finally show ?thesis .
qed

lemma ddiv_dmul_err: "\<bar>ddiv (dmul a b) c - a * b / c\<bar> \<le> \<bar>a * b / c\<bar> / 10 ^ 26"
proof -
  let ?m = "dmul a b" and ?x = "a * b / c"
  have "\<bar>?m - a * b\<bar> \<le> \<bar>a * b\<bar> / (2 * 10 ^ 27)" unfolding dmul_def by (rule ctx_err)
  then have "\<bar>?m - a * b\<bar> / \<bar>c\<bar> \<le> \<bar>a * b\<bar> / (2 * 10 ^ 27) / \<bar>c\<bar>"
    by (rule divide_right_mono) simp
  moreover have "\<bar>?m / c - ?x\<bar> = \<bar>?m - a * b\<bar> / \<bar>c\<bar>"
    by (simp only: diff_divide_distrib [symmetric] abs_divide)
  moreover have "\<bar>a * b\<bar> / (2 * 10 ^ 27) / \<bar>c\<bar> = \<bar>?x\<bar> / (2 * 10 ^ 27)"
    by (simp add: abs_divide)
  ultimately have e1: "\<bar>?m / c - ?x\<bar> \<le> \<bar>?x\<bar> / (2 * 10 ^ 27)" by linarith
  have e2: "\<bar>ddiv ?m c - ?m / c\<bar> \<le> \<bar>?m / c\<bar> / (2 * 10 ^ 27)" unfolding ddiv_def by (rule ctx_err)
  have "y / (2 * 10 ^ 27) \<le> y" if "0 \<le> y" for y :: rat using that by (simp add: field_simps)
  then have "\<bar>?x\<bar> / (2 * 10 ^ 27) \<le> \<bar>?x\<bar>" by (simp only: abs_ge_zero)
  with e1 have "\<bar>?m / c\<bar> \<le> 2 * \<bar>?x\<bar>" by linarith
  then have "\<bar>?m / c\<bar> / (2 * 10 ^ 27) \<le> \<bar>?x\<bar> / 10 ^ 27" by simp
  then have e3: "\<bar>ddiv ?m c - ?m / c\<bar> \<le> \<bar>?x\<bar> / 10 ^ 27" using e2 by (rule order_trans [rotated])
  have "\<bar>ddiv ?m c - ?x\<bar> \<le> \<bar>ddiv ?m c - ?m / c\<bar> + \<bar>?m / c - ?x\<bar>"
    using abs_triangle_ineq [of "ddiv ?m c - ?m / c" "?m / c - ?x"] by (simp only: diff_add_cancel add_diff_eq)
  also have "\<dots> \<le> \<bar>?x\<bar> / 10 ^ 27 + \<bar>?x\<bar> / (2 * 10 ^ 27)" by (rule add_mono [OF e3 e1])
  also have "\<dots> \<le> \<bar>?x\<bar> / 10 ^ 26"
  proof -
    have "y / 10 ^ 27 + y / (2 * 10 ^ 27) \<le> y / 10 ^ 26" if "0 \<le> y" for y :: rat
      using that by (simp add: field_simps)
    then show ?thesis by (simp only: abs_ge_zero)
  qed
  finally show ?thesis .
qed

end
