(* ===== verification/Money.thy ===== *)
theory Money
  imports Decimal_Arith "HOL-Library.Product_Lexorder"
begin

text \<open>
  Model of \<^verbatim>\<open>backend/app/core/money.py\<close>: the scaled column types on both database engines, the
  currency decimals, the boundary rounding functions and the largest-remainder splitter
  \<open>allocate\<close>. The lemmas show the storage round trip, that \<open>allocate\<close> reconstitutes the total
  and that every part is within one minor unit of its exact share.
\<close>

subsection \<open>Scaled decimal columns\<close>

definition MONEY_SCALE :: nat where "MONEY_SCALE = 6"
definition QUANTITY_SCALE :: nat where "QUANTITY_SCALE = 6"
definition RATE_SCALE :: nat where "RATE_SCALE = 10"

datatype dialect = Sqlite | Postgresql

text \<open>What the driver is handed: an integer of minor units on SQLite, the decimal on PostgreSQL.\<close>

datatype stored = MinorUnits int | Numeric decimal

definition process_bind_param :: "nat \<Rightarrow> dialect \<Rightarrow> decimal option \<Rightarrow> stored option" where
  "process_bind_param scale dialect value =
     (case value of
        None \<Rightarrow> None
      | Some v \<Rightarrow>
          (case dialect of
             Sqlite \<Rightarrow> Some (MinorUnits (round_down (quantize ROUND_HALF_UP scale v * 10 ^ scale)))
           | Postgresql \<Rightarrow> Some (Numeric v)))"

definition process_result_value :: "nat \<Rightarrow> dialect \<Rightarrow> stored option \<Rightarrow> decimal option" where
  "process_result_value scale dialect value =
     (case value of
        None \<Rightarrow> None
      | Some st \<Rightarrow>
          (case dialect of
             Sqlite \<Rightarrow>
               (let n = (case st of MinorUnits n \<Rightarrow> n | Numeric v \<Rightarrow> round_down v)
                in Some (quantize ROUND_HALF_EVEN scale (dmul (of_int n) (1 / 10 ^ scale))))
           | Postgresql \<Rightarrow> Some (case st of MinorUnits n \<Rightarrow> of_int n | Numeric v \<Rightarrow> v)))"

text \<open>The value a money, quantity or rate column holds after a write of \<open>x\<close>.\<close>

definition store_money :: "decimal \<Rightarrow> decimal" where
  "store_money x = quantize ROUND_HALF_UP MONEY_SCALE x"

definition store_quantity :: "decimal \<Rightarrow> decimal" where
  "store_quantity x = quantize ROUND_HALF_UP QUANTITY_SCALE x"

definition store_rate :: "decimal \<Rightarrow> decimal" where
  "store_rate x = quantize ROUND_HALF_UP RATE_SCALE x"

subsection \<open>Currency decimals and boundary rounding\<close>

definition upper_char :: "char \<Rightarrow> char" where
  "upper_char c = (let n = (of_char c :: nat) in if 97 \<le> n \<and> n \<le> 122 then char_of (n - 32) else c)"

definition CURRENCY_DECIMALS :: "(string \<times> nat) list" where
  "CURRENCY_DECIMALS =
     [(''JPY'', 0), (''KRW'', 0), (''BHD'', 3), (''KWD'', 3), (''OMR'', 3), (''TND'', 3)]"

definition currency_decimals :: "string \<Rightarrow> nat" where
  "currency_decimals code =
     (case map_of CURRENCY_DECIMALS (map upper_char code) of None \<Rightarrow> 2 | Some d \<Rightarrow> d)"

definition quantize_money :: "decimal \<Rightarrow> nat \<Rightarrow> decimal" where
  "quantize_money x places = quantize ROUND_HALF_UP places x"

definition quantize_quantity :: "decimal \<Rightarrow> decimal" where
  "quantize_quantity x = quantize ROUND_HALF_UP QUANTITY_SCALE x"

definition quantize_for_currency :: "decimal \<Rightarrow> string \<Rightarrow> decimal" where
  "quantize_for_currency x code = quantize_money x (currency_decimals code)"

subsection \<open>Largest-remainder allocation\<close>

text \<open>One turn of the loop that hands a minor unit to \<open>floored[order[k % n]]\<close>.\<close>

definition hand_out :: "nat list \<Rightarrow> decimal \<Rightarrow> nat \<Rightarrow> decimal list \<Rightarrow> decimal list" where
  "hand_out order step k xs =
     (let i = order ! (k mod length order) in xs[i := xs ! i + step])"

definition share :: "decimal \<Rightarrow> decimal \<Rightarrow> decimal \<Rightarrow> decimal" where
  "share amount total_weight weight = ddiv (dmul amount weight) total_weight"

definition allocate :: "decimal \<Rightarrow> decimal list \<Rightarrow> nat \<Rightarrow> decimal list" where
  "allocate amount weights0 places =
     (let quantum = 1 / 10 ^ places;
          n = length weights0
      in if n = 0 then []
      else
        let weights = (if sum_list weights0 = 0 then replicate n 1 else weights0);
            total_weight = (if sum_list weights0 = 0 then of_nat n else sum_list weights0);
            exact = map (share amount total_weight) weights;
            floored = map (quantize ROUND_DOWN places) exact;
            remainders = map (\<lambda>i. exact ! i - floored ! i) [0..<n];
            residual = amount - sum_list floored;
            units = round_half_up (ddiv residual quantum);
            ascending = sort_key (\<lambda>i. (remainders ! i, - int i)) [0..<n];
            order = (if 0 \<le> units then rev ascending else ascending);
            step = (if 0 \<le> units then quantum else - quantum)
        in fold (hand_out order step) [0..<nat \<bar>units\<bar>] floored)"

subsection \<open>Storage\<close>

lemma currency_decimals_le [simp]: "currency_decimals code \<le> MONEY_SCALE"
  by (auto simp: currency_decimals_def CURRENCY_DECIMALS_def MONEY_SCALE_def
      split: option.splits if_splits)

lemma store_money_on_grid [simp]: "on_grid MONEY_SCALE (store_money x)"
  by (simp add: store_money_def)

lemma store_money_grid: "on_grid MONEY_SCALE x \<Longrightarrow> store_money x = x"
  by (simp add: store_money_def quantize_grid)

lemma store_money_idem [simp]: "store_money (store_money x) = store_money x"
  by (simp add: store_money_grid)

lemma store_money_nonneg: "0 \<le> x \<Longrightarrow> 0 \<le> store_money x"
  by (simp add: store_money_def quantize_nonneg)

lemma store_money_0 [simp]: "store_money 0 = 0"
  by (simp add: store_money_def)

lemma quantize_for_currency_grid [simp]:
  "on_grid MONEY_SCALE (quantize_for_currency x code)"
  unfolding quantize_for_currency_def quantize_money_def
  by (rule on_grid_mono [OF quantize_on_grid currency_decimals_le])

lemma quantize_for_currency_nonneg: "0 \<le> x \<Longrightarrow> 0 \<le> quantize_for_currency x code"
  by (simp add: quantize_for_currency_def quantize_money_def quantize_nonneg)

lemma round_down_grid: "of_int (round_down (quantize m p x * 10 ^ p)) = quantize m p x * 10 ^ p"
  by (simp add: quantize_def scale_round_def trunc.round_of_int)

lemma sqlite_round_trip:
  assumes "\<bar>x\<bar> < 10 ^ 21" and "scale \<le> 6"
  shows "process_result_value scale Sqlite (process_bind_param scale Sqlite (Some x)) =
    Some (quantize ROUND_HALF_UP scale x)"
proof -
  let ?q = "quantize ROUND_HALF_UP scale x"
  have "\<bar>?q - x\<bar> < 1 / 10 ^ scale" by (rule quantize_err)
  moreover have "(1::rat) / 10 ^ scale \<le> 1" by simp
  ultimately have "\<bar>?q\<bar> < 10 ^ 21 + 1" using assms(1) by linarith
  moreover have "(10::rat) ^ scale \<le> 10 ^ 6" by (rule power_increasing [OF assms(2)]) simp
  ultimately have "\<bar>?q\<bar> * 10 ^ scale \<le> (10 ^ 21 + 1) * 10 ^ 6"
    by (intro mult_mono) auto
  then have "dmul (?q * 10 ^ scale) (1 / 10 ^ scale) = ?q"
    unfolding dmul_def using ctx_exact [of scale ?q] by simp
  then show ?thesis
    by (simp add: process_bind_param_def process_result_value_def round_down_grid quantize_grid)
qed

subsection \<open>The parts sum to the total\<close>

lemma length_hand_out [simp]: "length (hand_out order step k xs) = length xs"
  by (simp add: hand_out_def Let_def)

lemma length_fold_hand_out [simp]:
  "length (fold (hand_out order step) ks xs) = length xs"
  by (induction ks arbitrary: xs) auto

lemma sum_list_update_add:
  "i < length xs \<Longrightarrow> sum_list (xs[i := xs ! i + d]) = sum_list xs + (d :: rat)"
  by (induction xs arbitrary: i) (auto simp: nth_Cons split: nat.splits)

lemma sum_hand_out:
  assumes "set order \<subseteq> {..<length xs}" and "order \<noteq> []"
  shows "sum_list (fold (hand_out order step) ks xs) = sum_list xs + of_nat (length ks) * step"
  using assms(1)
proof (induction ks arbitrary: xs)
  case (Cons k ks)
  have "order ! (k mod length order) \<in> set order" using assms(2) by simp
  with Cons.prems have "order ! (k mod length order) < length xs" by blast
  then have "sum_list (hand_out order step k xs) = sum_list xs + step"
    by (simp add: hand_out_def Let_def sum_list_update_add)
  with Cons.IH [of "hand_out order step k xs"] Cons.prems show ?case
    by (simp add: algebra_simps)
qed simp

lemma sum_shares:
  fixes w :: rat
  assumes "\<And>v. v \<in> set ws \<Longrightarrow> 0 \<le> v" and "w = sum_list ws" and "w \<noteq> 0"
  shows "\<bar>sum_list (map (share a w) ws) - a\<bar> \<le> \<bar>a\<bar> / 10 ^ 26"
proof -
  have w: "0 < w" using assms sum_list_map_nonneg [of ws id] by (simp add: less_le)
  have "\<bar>sum_list (map (share a w) vs) - a * sum_list vs / w\<bar> \<le> \<bar>a\<bar> * sum_list vs / w / 10 ^ 26"
    if "\<And>v. v \<in> set vs \<Longrightarrow> 0 \<le> v" for vs
    using that
  proof (induction vs)
    case (Cons v vs)
    have "\<bar>a * v / w\<bar> = \<bar>a\<bar> * v / w" using Cons.prems w by (simp add: abs_mult abs_divide)
    with ddiv_dmul_err [of a v w] have "\<bar>share a w v - a * v / w\<bar> \<le> \<bar>a\<bar> * v / w / 10 ^ 26"
      by (simp add: share_def)
    with Cons show ?case by (simp add: algebra_simps add_divide_distrib)
  qed simp
  from this [OF assms(1)] have "\<bar>sum_list (map (share a w) ws) - a * sum_list ws / w\<bar>
    \<le> \<bar>a\<bar> * sum_list ws / w / 10 ^ 26" by simp
  then show ?thesis using w assms(2) by simp
qed

text \<open>
  The effective weights of a call (the equal weights when all weights are zero) and the floored
  parts; their rounding residual is an exact multiple of the quantum.
\<close>

definition eff_weights :: "decimal list \<Rightarrow> decimal list" where
  "eff_weights ws = (if sum_list ws = 0 then replicate (length ws) 1 else ws)"

definition floored_parts :: "decimal \<Rightarrow> decimal list \<Rightarrow> nat \<Rightarrow> decimal list" where
  "floored_parts a ws places =
     map (quantize ROUND_DOWN places \<circ> share a (sum_list (eff_weights ws))) (eff_weights ws)"

definition residual_units :: "decimal \<Rightarrow> decimal list \<Rightarrow> nat \<Rightarrow> int" where
  "residual_units a ws places =
     round_half_up (ddiv (a - sum_list (floored_parts a ws places)) (1 / 10 ^ places))"

lemma length_eff_weights [simp]: "length (eff_weights ws) = length ws"
  by (simp add: eff_weights_def)

lemma length_floored_parts [simp]: "length (floored_parts a ws places) = length ws"
  by (simp add: floored_parts_def)

lemma eff_weights_total:
  "ws \<noteq> [] \<Longrightarrow> sum_list (eff_weights ws) \<noteq> 0 \<and>
   (if sum_list ws = 0 then of_nat (length ws) else sum_list ws) = sum_list (eff_weights ws)"
  by (simp add: eff_weights_def sum_list_replicate)

lemma eff_weights_nonneg:
  "(\<And>w. w \<in> set ws \<Longrightarrow> 0 \<le> w) \<Longrightarrow> w \<in> set (eff_weights ws) \<Longrightarrow> 0 \<le> w"
  by (auto simp: eff_weights_def split: if_splits)

lemma allocate_unfold:
  assumes "ws \<noteq> []"
  obtains order where "distinct order" and "set order = {..<length ws}"
    and "allocate a ws places =
      fold (hand_out order (if 0 \<le> residual_units a ws places then 1 / 10 ^ places else - (1 / 10 ^ places)))
        [0..<nat \<bar>residual_units a ws places\<bar>] (floored_parts a ws places)"
proof -
  let ?n = "length ws" and ?W = "sum_list (eff_weights ws)"
  define exact where "exact = map (share a ?W) (eff_weights ws)"
  define fl where "fl = map (quantize ROUND_DOWN places) exact"
  define asc where "asc = sort_key (\<lambda>i. (map (\<lambda>i. exact ! i - fl ! i) [0..<?n] ! i, - int i)) [0..<?n]"
  define ord where "ord = (if 0 \<le> residual_units a ws places then rev asc else asc)"
  have fl: "fl = floored_parts a ws places" by (simp add: fl_def exact_def floored_parts_def)
  have w: "(if sum_list ws = 0 then of_nat ?n else sum_list ws) = ?W"
    using eff_weights_total [OF assms] by simp
  have "allocate a ws places =
      fold (hand_out ord (if 0 \<le> residual_units a ws places then 1 / 10 ^ places else - (1 / 10 ^ places)))
        [0..<nat \<bar>residual_units a ws places\<bar>] fl"
    using assms unfolding allocate_def Let_def w eff_weights_def [symmetric]
    by (simp add: exact_def [symmetric] fl_def [symmetric] asc_def [symmetric] ord_def
        residual_units_def fl [symmetric])
  moreover have "distinct ord" "set ord = {..<?n}" by (auto simp: ord_def asc_def)
  ultimately show ?thesis by (intro that [of ord]) (simp_all add: fl)
qed

lemma floored_residual:
  fixes a :: rat
  assumes ne: "ws \<noteq> []" and nonneg: "\<And>w. w \<in> set ws \<Longrightarrow> 0 \<le> w"
  shows "\<bar>a - sum_list (floored_parts a ws p)\<bar> \<le> \<bar>a\<bar> / 10 ^ 26 + of_nat (length ws) / 10 ^ p"
    and "0 \<le> a \<Longrightarrow> - (a / 10 ^ 26) \<le> a - sum_list (floored_parts a ws p)"
proof -
  let ?W = "sum_list (eff_weights ws)"
  define es where "es = map (share a ?W) (eff_weights ws)"
  have W: "?W \<noteq> 0" using eff_weights_total [OF ne] by simp
  have close: "\<bar>sum_list es - a\<bar> \<le> \<bar>a\<bar> / 10 ^ 26"
    unfolding es_def by (rule sum_shares) (use eff_weights_nonneg [OF nonneg] W in auto)
  have fl: "floored_parts a ws p = map (quantize ROUND_DOWN p) es"
    by (simp add: floored_parts_def es_def)
  have len: "length es = length ws" by (simp add: es_def)
  have "\<bar>sum_list xs - sum_list (map (quantize ROUND_DOWN p) xs)\<bar> \<le> of_nat (length xs) / 10 ^ p"
    for xs :: "rat list"
  proof (induction xs)
    case (Cons x xs)
    with quantize_err [of ROUND_DOWN p x] show ?case by (simp add: add_divide_distrib)
  qed simp
  from this [of es] close show "\<bar>a - sum_list (floored_parts a ws p)\<bar> \<le>
      \<bar>a\<bar> / 10 ^ 26 + of_nat (length ws) / 10 ^ p"
    unfolding fl len by linarith
  assume a: "0 \<le> a"
  have "sum_list (map (quantize ROUND_DOWN p) xs) \<le> sum_list xs"
    if "\<And>x. x \<in> set xs \<Longrightarrow> 0 \<le> x" for xs :: "rat list"
    using that by (induction xs) (auto intro: add_mono quantize_down_le)
  moreover have "0 \<le> x" if "x \<in> set es" for x
  proof -
    from that obtain w where w: "w \<in> set (eff_weights ws)" and x: "x = share a ?W w"
      by (auto simp: es_def)
    have "0 \<le> ?W" using eff_weights_nonneg [OF nonneg] sum_list_map_nonneg [of "eff_weights ws" id]
      by simp
    then show ?thesis unfolding x share_def
      using a eff_weights_nonneg [OF nonneg w] by (intro ddiv_nonneg dmul_nonneg) auto
  qed
  ultimately have "sum_list (map (quantize ROUND_DOWN p) es) \<le> sum_list es" by blast
  moreover have "\<bar>sum_list es - a\<bar> \<le> a / 10 ^ 26" using close a by simp
  ultimately show "- (a / 10 ^ 26) \<le> a - sum_list (floored_parts a ws p)"
    unfolding fl by linarith
qed

text \<open>On a total of the currency's grid the number of units handed out is exact.\<close>

lemma residual_units_exact:
  assumes ne: "ws \<noteq> []" and nonneg: "\<And>w. w \<in> set ws \<Longrightarrow> 0 \<le> w"
    and grid: "on_grid p a" and small: "\<bar>a\<bar> * 10 ^ p < 10 ^ 26" and len: "length ws \<le> 10 ^ 26"
  shows "of_int (residual_units a ws p) = (a - sum_list (floored_parts a ws p)) * 10 ^ p"
proof -
  let ?r = "a - sum_list (floored_parts a ws p)"
  have "on_grid p ?r"
    by (intro on_grid_diff grid on_grid_sum_list) (auto simp: floored_parts_def)
  then obtain n :: int where "?r = of_int n / 10 ^ p" by (rule on_gridE)
  then have n: "?r * 10 ^ p = of_int n" by simp
  have "\<bar>?r\<bar> * 10 ^ p \<le> (\<bar>a\<bar> / 10 ^ 26 + of_nat (length ws) / 10 ^ p) * 10 ^ p"
    using floored_residual(1) [OF ne nonneg, of a p] by (intro mult_right_mono) auto
  also have "\<dots> = \<bar>a\<bar> * 10 ^ p / 10 ^ 26 + of_nat (length ws)"
    by (simp add: field_simps)
  also have "\<dots> < 1 + 10 ^ 26"
  proof (rule add_less_le_mono)
    show "\<bar>a\<bar> * 10 ^ p / 10 ^ 26 < 1" by (subst pos_divide_less_eq) (use small in simp_all)
    show "of_nat (length ws) \<le> (10 ^ 26 :: rat)"
      using of_nat_mono [OF len, where 'a = rat] by simp
  qed
  finally have "\<bar>?r * 10 ^ p\<bar> < 1 + 10 ^ 26" by (simp add: abs_mult)
  then have "\<bar>of_int n :: rat\<bar> * 10 ^ 0 < 10 ^ 28" unfolding n by simp
  moreover have "on_grid 0 (of_int n :: rat)" using on_grid_of_int_div [of 0 n] by simp
  ultimately have "ctx (of_int n) = of_int n" by (intro ctx_exact)
  then show ?thesis
    unfolding residual_units_def ddiv_def by (simp add: n half_up.round_of_int)
qed

lemma length_allocate: "length (allocate a ws p) = length ws"
proof (cases "ws = []")
  case False
  show ?thesis by (rule allocate_unfold [OF False, of a p]) simp
qed (simp add: allocate_def)

lemma allocate_sums_to_total:
  assumes "ws \<noteq> []" and "\<And>w. w \<in> set ws \<Longrightarrow> 0 \<le> w"
    and "on_grid p a" and "\<bar>a\<bar> * 10 ^ p < 10 ^ 26" and "length ws \<le> 10 ^ 26"
  shows "sum_list (allocate a ws p) = a"
proof -
  let ?u = "residual_units a ws p" and ?fl = "floored_parts a ws p"
  let ?step = "if 0 \<le> ?u then 1 / 10 ^ p else - (1 / 10 ^ p) :: rat"
  obtain ord where ord: "distinct ord" "set ord = {..<length ws}"
    and al: "allocate a ws p = fold (hand_out ord ?step) [0..<nat \<bar>?u\<bar>] ?fl"
    by (rule allocate_unfold [OF assms(1), of a p])
  have "set ord \<noteq> {}" unfolding ord(2) using assms(1) by (simp add: lessThan_empty_iff)
  then have "ord \<noteq> []" by (rule contrapos_nn) simp
  then have "sum_list (allocate a ws p) = sum_list ?fl + of_nat (length [0..<nat \<bar>?u\<bar>]) * ?step"
    unfolding al by (intro sum_hand_out) (simp_all add: ord(2))
  also have "of_nat (length [0..<nat \<bar>?u\<bar>]) * ?step = of_int ?u * (1 / 10 ^ p)"
    by (cases "0 \<le> ?u") (simp_all only: length_upt diff_zero, simp_all)
  also have "\<dots> = a - sum_list ?fl"
    by (subst residual_units_exact) (use assms in simp_all)
  finally show ?thesis by simp
qed

subsection \<open>Every part is within one minor unit of its share\<close>

lemma fold_hand_out_nth:
  assumes "distinct ord" and "set ord = {..<length xs}" and "m \<le> length xs" and "i < length xs"
  shows "fold (hand_out ord step) [0..<m] xs ! i =
    xs ! i + (if i \<in> set (take m ord) then step else 0)"
  using assms(3)
proof (induction m)
  case (Suc m)
  have len: "length ord = length xs" using assms(1,2) distinct_card by fastforce
  let ?ys = "fold (hand_out ord step) [0..<m] xs"
  have tk: "take (Suc m) ord = take m ord @ [ord ! m]"
    using Suc.prems len by (simp add: take_Suc_conv_app_nth)
  have nin: "ord ! m \<notin> set (take m ord)"
    using assms(1) Suc.prems len by (metis distinct_append distinct_take tk not_distinct_conv_prefix)
  have "ord ! m < length xs" using assms(2) Suc.prems len nth_mem [of m ord] by auto
  then have "hand_out ord step m ?ys ! i = (if i = ord ! m then ?ys ! i + step else ?ys ! i)"
    using Suc.prems len by (auto simp: hand_out_def Let_def)
  with Suc tk nin show ?case by auto
qed simp

text \<open>
  For a non-negative total no part is negative and no part is further than one quantum from its
  share.
\<close>

lemma allocate_parts:
  assumes "ws \<noteq> []" and "\<And>w. w \<in> set ws \<Longrightarrow> 0 \<le> w"
    and "on_grid p a" and "0 \<le> a" and "a * 10 ^ p < 10 ^ 26" and "length ws \<le> 10 ^ 26"
    and i: "i < length ws"
  shows "allocate a ws p ! i \<in> {floored_parts a ws p ! i, floored_parts a ws p ! i + 1 / 10 ^ p}"
proof -
  let ?u = "residual_units a ws p" and ?fl = "floored_parts a ws p"
  have small: "\<bar>a\<bar> * 10 ^ p < 10 ^ 26" using assms(4,5) by simp
  note u = residual_units_exact [OF assms(1-3) small assms(6)]
  have q: "a / 10 ^ 26 < 1 / 10 ^ p" using assms(5) by (simp add: field_simps)
  have "- (1 / 10 ^ p) * 10 ^ p < (a - sum_list ?fl) * 10 ^ p"
    using floored_residual(2) [OF assms(1,2,4), of p] q by (intro mult_strict_right_mono) auto
  then have "- 1 < (of_int ?u :: rat)" by (simp add: u)
  then have u0: "0 \<le> ?u" by linarith
  have "(a - sum_list ?fl) * 10 ^ p < (1 / 10 ^ p + of_nat (length ws) / 10 ^ p) * 10 ^ p"
    using floored_residual(1) [OF assms(1,2), of a p] q assms(4) by (intro mult_strict_right_mono) auto
  then have "of_int ?u < (of_nat (Suc (length ws)) :: rat)" by (simp add: u add_divide_distrib [symmetric])
  then have un: "nat \<bar>?u\<bar> \<le> length ws" using u0
    by (metis abs_of_nonneg less_Suc_eq_le nat_less_iff of_int_less_iff of_int_of_nat_eq)
  obtain ord where ord: "distinct ord" "set ord = {..<length ws}"
    and al: "allocate a ws p = fold (hand_out ord (if 0 \<le> ?u then 1 / 10 ^ p else - (1 / 10 ^ p)))
      [0..<nat \<bar>?u\<bar>] ?fl"
    by (rule allocate_unfold [OF assms(1), of a p])
  show ?thesis
    unfolding al using fold_hand_out_nth [of ord ?fl "nat \<bar>?u\<bar>" i] ord un i u0 by auto
qed

subsection \<open>Properties\<close>

text \<open>
  C13. Largest-remainder allocation: for non-negative weights and a non-negative amount on the
  \<open>places\<close> grid the parts of \<open>allocate\<close> sum to the amount exactly, there is one part per weight,
  and each part is the floored proportional share or one minor unit more. (The bounds keep the
  intermediate values within the 28 digits of the decimal context.)
\<close>

theorem allocate_exact:
  assumes "ws \<noteq> []" and "\<forall>w \<in> set ws. 0 \<le> w" and "on_grid p a" and "0 \<le> a"
    and "a * 10 ^ p < 10 ^ 26" and "length ws \<le> 10 ^ 26"
  shows "sum_list (allocate a ws p) = a \<and> length (allocate a ws p) = length ws \<and>
    (\<forall>i < length ws. allocate a ws p ! i \<in>
       {floored_parts a ws p ! i, floored_parts a ws p ! i + 1 / 10 ^ p})"
proof -
  have "length (allocate a ws p) = length ws"
    by (rule allocate_unfold [OF assms(1), of a p]) simp
  then show ?thesis
    using allocate_sums_to_total [of ws p a] allocate_parts [of ws p a] assms by simp
qed

theorem allocate_exact_witness:
  "sum_list (allocate 100 [1, 1, 1] 2) = 100 \<and> length (allocate 100 [1, 1, 1] 2) = 3"
proof -
  have "on_grid 2 100" using on_grid_of_int_div [of 2 10000] by simp
  then show ?thesis using allocate_exact [of "[1, 1, 1]" 2 100] by simp
qed

text \<open>
  Storage on SQLite: a value bound through \<open>ScaledDecimal\<close> reads back as itself rounded half
  up to the column's scale, and writing what was read stores the same integer of minor units
  again, for amounts below 10^21 and scales of at most six places.
\<close>

theorem stored_amount_round_trip:
  assumes "\<bar>x\<bar> < 10 ^ 21" and "scale \<le> 6"
  shows "process_result_value scale Sqlite (process_bind_param scale Sqlite (Some x)) =
      Some (quantize ROUND_HALF_UP scale x) \<and>
    process_bind_param scale Sqlite
        (process_result_value scale Sqlite (process_bind_param scale Sqlite (Some x))) =
      process_bind_param scale Sqlite (Some x)"
  using sqlite_round_trip [OF assms] by (simp add: process_bind_param_def quantize_grid)

theorem stored_amount_round_trip_witness:
  "process_result_value 6 Sqlite (process_bind_param 6 Sqlite (Some 12)) = Some 12"
proof -
  have "on_grid 6 12" using on_grid_of_int_div [of 6 12000000] by simp
  then have q: "quantize ROUND_HALF_UP 6 12 = 12" by (rule quantize_grid)
  show ?thesis using stored_amount_round_trip [of 12 6] unfolding q by simp
qed

end
