(* ===== verification/Fin_Db.thy ===== *)
theory Fin_Db
  imports Core_Db Money
begin

text \<open>
  The finance tables (\<^verbatim>\<open>backend/app/modules/finance/models\<close>) and the domain events of the modelled
  modules. \<open>fin_db\<close> extends the core tables; the chart of accounts, the cost and profit centres are
  master data the posting engine reads.
\<close>

datatype period_status = OPEN | CLOSED
datatype entry_status = DRAFT | POSTED | REVERSED
datatype document_type =
  JOURNAL | AP_INVOICE | AR_INVOICE | AR_CREDIT_NOTE | PAYMENT | COGS | FX_REVAL | DEPRECIATION | PAYROLL
datatype rate_kind = SPOT | CLOSING
datatype account_type = ASSET | LIABILITY | EQUITY | REVENUE | EXPENSE

fun entry_status_str :: "entry_status \<Rightarrow> string" where
  "entry_status_str DRAFT = ''DRAFT''"
| "entry_status_str POSTED = ''POSTED''"
| "entry_status_str REVERSED = ''REVERSED''"

record account =
  acc_id :: uuid
  acc_tenant :: uuid
  acc_code :: string
  acc_type :: account_type
  acc_is_postable :: bool

record fiscal_year =
  fy_id :: uuid
  fy_tenant :: uuid
  fy_code :: string
  fy_name :: string
  fy_start :: date
  fy_end :: date
  fy_status :: period_status

record fiscal_period =
  fp_id :: uuid
  fp_tenant :: uuid
  fp_year :: uuid
  fp_number :: nat
  fp_start :: date
  fp_end :: date
  fp_status :: period_status

record currency =
  cur_id :: uuid
  cur_tenant :: uuid
  cur_code :: string
  cur_name :: string
  cur_decimal_places :: int
  cur_is_functional :: bool

record exchange_rate =
  er_id :: uuid
  er_tenant :: uuid
  er_date :: date
  er_from :: string
  er_to :: string
  er_kind :: rate_kind
  er_rate :: decimal

record journal_entry =
  je_id :: uuid
  je_tenant :: uuid
  je_document :: uuid
  je_number :: "string option"
  je_posting_date :: date
  je_period :: "uuid option"
  je_document_type :: document_type
  je_currency :: string
  je_description :: "string option"
  je_status :: entry_status
  je_reverses :: "uuid option"
  je_reversed_by :: "uuid option"
  je_posted_at :: "nat option"

record journal_line =
  jl_id :: uuid
  jl_tenant :: uuid
  jl_entry :: uuid
  jl_number :: nat
  jl_account :: uuid
  jl_description :: "string option"
  jl_tdebit :: decimal
  jl_tcredit :: decimal
  jl_fdebit :: decimal
  jl_fcredit :: decimal
  jl_currency :: string
  jl_cost_center :: "uuid option"
  jl_profit_center :: "uuid option"
  jl_project :: "uuid option"
  jl_item :: "uuid option"
  jl_partner_type :: "string option"
  jl_partner :: "uuid option"
  jl_is_posted :: bool
  jl_posting_date :: "date option"
  jl_period :: "uuid option"

text \<open>A cost centre or profit centre, as far as the journal reads it: its id and tenant.\<close>

type_synonym center = "uuid \<times> uuid"

record stock_valued =
  sv_tenant :: uuid
  sv_move_id :: uuid
  sv_move_number :: string
  sv_move_type :: string
  sv_is_inbound :: bool
  sv_item :: uuid
  sv_warehouse :: uuid
  sv_quantity :: decimal
  sv_total_cost :: decimal
  sv_residual :: decimal
  sv_move_date :: date
  sv_document :: uuid
  sv_inventory_account :: uuid
  sv_offset_account :: uuid
  sv_price_difference_account :: uuid

datatype domain_event =
    JournalEntryPosted uuid uuid string document_type date string decimal "uuid list"
  | JournalEntryReversed uuid uuid uuid string document_type date
  | StockValued stock_valued
  | VendorBillPosted uuid uuid string uuid uuid string decimal decimal decimal
  | VendorPaymentPosted uuid uuid string uuid uuid string decimal "uuid list"
  | CustomerInvoicePosted uuid uuid string uuid uuid string decimal decimal decimal
  | CustomerReceiptPosted uuid uuid string uuid uuid string decimal "uuid list"
  | PlannedBuyConverted uuid uuid uuid uuid decimal string string

record fin_db = "domain_event core_db" +
  accounts :: "account list"
  fiscal_years :: "fiscal_year list"
  fiscal_periods :: "fiscal_period list"
  currencies :: "currency list"
  exchange_rates :: "exchange_rate list"
  cost_centers :: "center list"
  profit_centers :: "center list"
  journal_entries :: "journal_entry list"
  journal_lines :: "journal_line list"

end
