(* ===== verification/Periods.thy ===== *)
theory Periods
  imports Fin_Db
begin

text \<open>
  Model of \<^verbatim>\<open>backend/app/modules/finance/service/periods.py\<close> and of the date lookup in
  \<^verbatim>\<open>finance/queries/periods.py\<close>: generation of monthly periods, creation of a fiscal year, closing
  and reopening. The invariant \<open>periods_wf\<close> says that the periods of a tenant never overlap; it
  makes the lookup single-valued. A year that is CLOSED keeps all its periods CLOSED.
\<close>

subsection \<open>Generation\<close>

primrec gen_periods :: "date \<Rightarrow> nat \<Rightarrow> nat \<Rightarrow> date \<Rightarrow> (nat \<times> date \<times> date) list" where
  "gen_periods start 0 number period_start = []"
| "gen_periods start (Suc left) number period_start =
     (let next_start = add_months start (int number)
      in (number, period_start, prev_day next_start)
           # gen_periods start left (Suc number) next_start)"

definition generate_periods :: "date \<Rightarrow> int \<Rightarrow> (nat \<times> date \<times> date) list result" where
  "generate_periods start period_count =
     (if period_count < 1 then Inl (ValidationFailedError ''finance.invalid_period_count'')
      else Inr (gen_periods start (nat period_count) 1 start))"

subsection \<open>Fiscal years\<close>

record fiscal_year_create =
  fyc_code :: string
  fyc_name :: string
  fyc_start :: date
  fyc_period_count :: int

definition add_period ::
  "uuid \<Rightarrow> uuid \<Rightarrow> nat \<times> date \<times> date \<Rightarrow> 'm fin_db_scheme \<Rightarrow> 'm fin_db_scheme" where
  "add_period tenant year b db =
     (case b of (number, s, e) \<Rightarrow>
      case uuid4 db of (i, db1) \<Rightarrow>
        db1\<lparr>fiscal_periods := fiscal_periods db1 @
          [\<lparr>fp_id = i, fp_tenant = tenant, fp_year = year, fp_number = number,
             fp_start = s, fp_end = e, fp_status = OPEN\<rparr>]\<rparr>)"

definition create_fiscal_year ::
  "'m fin_db_scheme \<Rightarrow> uuid \<Rightarrow> fiscal_year_create \<Rightarrow> (fiscal_year \<times> 'm fin_db_scheme) result" where
  "create_fiscal_year db tenant payload =
     bindr (one_or_none (filter (\<lambda>y. fy_tenant y = tenant \<and> fy_code y = fyc_code payload)
              (fiscal_years db))) (\<lambda>existing.
     if existing \<noteq> None then Inl (ConflictError ''finance.fiscal_year_code_conflict'')
     else bindr (generate_periods (fyc_start payload) (fyc_period_count payload)) (\<lambda>boundaries.
       let year_end = snd (snd (last boundaries))
       in if \<exists>y \<in> set (fiscal_years db). fy_tenant y = tenant \<and>
               fy_start y \<le> year_end \<and> fyc_start payload \<le> fy_end y
          then Inl (ValidationFailedError ''finance.fiscal_year_overlap'')
          else case uuid4 db of (i, db1) \<Rightarrow>
            let year = \<lparr>fy_id = i, fy_tenant = tenant, fy_code = fyc_code payload,
                        fy_name = fyc_name payload, fy_start = fyc_start payload,
                        fy_end = year_end, fy_status = OPEN\<rparr>;
                db2 = db1\<lparr>fiscal_years := fiscal_years db1 @ [year]\<rparr>
            in Inr (year, fold (add_period tenant i) boundaries db2)))"

subsection \<open>Lookup, close, reopen\<close>

definition covers :: "uuid \<Rightarrow> date \<Rightarrow> fiscal_period \<Rightarrow> bool" where
  "covers tenant d p \<longleftrightarrow> fp_tenant p = tenant \<and> fp_start p \<le> d \<and> d \<le> fp_end p"

definition find_period_for_date ::
  "'m fin_db_scheme \<Rightarrow> uuid \<Rightarrow> date \<Rightarrow> fiscal_period option result" where
  "find_period_for_date db tenant d = one_or_none (filter (covers tenant d) (fiscal_periods db))"

definition get_period_status ::
  "'m fin_db_scheme \<Rightarrow> uuid \<Rightarrow> date \<Rightarrow> period_status option result" where
  "get_period_status db tenant d =
     bindr (find_period_for_date db tenant d) (\<lambda>p. Inr (map_option fp_status p))"

definition require_period ::
  "'m fin_db_scheme \<Rightarrow> uuid \<Rightarrow> uuid \<Rightarrow> fiscal_period result" where
  "require_period db tenant i =
     (case find_row fp_id i (fiscal_periods db) of
        None \<Rightarrow> Inl (NotFoundError ''finance.fiscal_period_not_found'')
      | Some p \<Rightarrow>
          if fp_tenant p \<noteq> tenant then Inl (NotFoundError ''finance.fiscal_period_not_found'')
          else Inr p)"

definition assert_period_closable ::
  "'m fin_db_scheme \<Rightarrow> uuid \<Rightarrow> fiscal_period \<Rightarrow> unit result" where
  "assert_period_closable db tenant p =
     (if fp_status p = CLOSED then Inl (ValidationFailedError ''finance.period_already_closed'')
      else if \<exists>e \<in> set (journal_entries db). je_tenant e = tenant \<and> je_status e = DRAFT \<and>
             fp_start p \<le> je_posting_date e \<and> je_posting_date e \<le> fp_end p
      then Inl (ValidationFailedError ''finance.period_has_draft_entries'')
      else Inr ())"

definition set_period_status :: "period_status \<Rightarrow> uuid \<Rightarrow> 'm fin_db_scheme \<Rightarrow> 'm fin_db_scheme" where
  "set_period_status st i db =
     db\<lparr>fiscal_periods := upd_rows (\<lambda>p. fp_id p = i) (\<lambda>p. p\<lparr>fp_status := st\<rparr>) (fiscal_periods db)\<rparr>"

definition close_period :: "'m fin_db_scheme \<Rightarrow> uuid \<Rightarrow> uuid \<Rightarrow> 'm fin_db_scheme result" where
  "close_period db tenant i =
     bindr (require_period db tenant i) (\<lambda>p.
     bindr (assert_period_closable db tenant p) (\<lambda>_.
       Inr (set_period_status CLOSED i db)))"

definition open_period :: "'m fin_db_scheme \<Rightarrow> uuid \<Rightarrow> uuid \<Rightarrow> 'm fin_db_scheme result" where
  "open_period db tenant i =
     bindr (require_period db tenant i) (\<lambda>p.
       case find_row fy_id (fp_year p) (fiscal_years db) of
         Some y \<Rightarrow>
           if fy_status y = CLOSED then Inl (ValidationFailedError ''finance.fiscal_year_closed'')
           else Inr (set_period_status OPEN i db)
       | None \<Rightarrow> Inr (set_period_status OPEN i db))"

definition close_fiscal_year :: "'m fin_db_scheme \<Rightarrow> uuid \<Rightarrow> uuid \<Rightarrow> 'm fin_db_scheme result" where
  "close_fiscal_year db tenant i =
     (case find_row fy_id i (fiscal_years db) of
        None \<Rightarrow> Inl (NotFoundError ''finance.fiscal_year_not_found'')
      | Some y \<Rightarrow>
          if fy_tenant y \<noteq> tenant then Inl (NotFoundError ''finance.fiscal_year_not_found'')
          else if \<exists>p \<in> set (fiscal_periods db).
                 fp_tenant p = tenant \<and> fp_year p = i \<and> fp_status p = OPEN
          then Inl (ValidationFailedError ''finance.fiscal_year_has_open_periods'')
          else Inr (db\<lparr>fiscal_years :=
                 upd_rows (\<lambda>y. fy_id y = i) (\<lambda>y. y\<lparr>fy_status := CLOSED\<rparr>) (fiscal_years db)\<rparr>))"

subsection \<open>The generated periods tile the year\<close>

definition in_period :: "date \<Rightarrow> nat \<times> date \<times> date \<Rightarrow> bool" where
  "in_period d b \<longleftrightarrow> fst (snd b) \<le> d \<and> d \<le> snd (snd b)"

lemma length_gen_periods [simp]: "length (gen_periods start n k ps) = n"
  by (induction n arbitrary: k ps) (auto simp: Let_def)

lemma add_months_le: "m \<le> n \<Longrightarrow> add_months d m \<le> add_months d n"
  using add_months_mono [of m n d] by (cases "m = n") auto

lemma gen_periods_count:
  assumes "valid_date start" and "valid_date d" and "ps \<le> add_months start (int k)"
  shows "length (filter (in_period d) (gen_periods start n (Suc k) ps)) =
    (if n \<noteq> 0 \<and> ps \<le> d \<and> d < add_months start (int (k + n)) then 1 else 0)"
  using assms(3)
proof (induction n arbitrary: k ps)
  case (Suc n)
  let ?nx = "add_months start (int (Suc k))"
  have nx: "ps \<le> ?nx" "?nx \<le> add_months start (int (Suc k + n))"
    using Suc.prems add_months_le [of "int k" "int (Suc k)" start] by (auto intro: add_months_le)
  have first: "in_period d (Suc k, ps, prev_day ?nx) \<longleftrightarrow> ps \<le> d \<and> d < ?nx"
    using le_prev_day_iff [OF assms(2) valid_add_months [OF assms(1)]] by (simp add: in_period_def)
  have rest: "length (filter (in_period d) (gen_periods start n (Suc (Suc k)) ?nx)) =
      (if n \<noteq> 0 \<and> ?nx \<le> d \<and> d < add_months start (int (Suc k + n)) then 1 else 0)"
    by (rule Suc.IH) simp
  have step: "gen_periods start (Suc n) (Suc k) ps =
      (Suc k, ps, prev_day ?nx) # gen_periods start n (Suc (Suc k)) ?nx" by (simp add: Let_def)
  show ?case
    unfolding step filter.simps first
    using rest nx by (cases "n = 0"; cases "d < add_months start (int (Suc k + n))") (auto simp: leD not_less split: if_splits)
qed simp

lemma gen_periods_last:
  "n \<noteq> 0 \<Longrightarrow> snd (snd (last (gen_periods start n (Suc k) ps))) = prev_day (add_months start (int (k + n)))"
proof (induction n arbitrary: k ps)
  case (Suc n)
  have ne: "gen_periods start n (Suc (Suc k)) ps' \<noteq> []" if "n \<noteq> 0" for ps'
    using that length_gen_periods [of start n "Suc (Suc k)" ps'] by (metis list.size(3))
  show ?case
  proof (cases "n = 0")
    case False
    with ne Suc.IH [of "Suc k"] show ?thesis by (simp add: Let_def add.assoc)
  qed (simp add: Let_def)
qed simp

lemma gen_periods_bounds:
  assumes "valid_date start" and "ps \<le> add_months start (int k)" and "b \<in> set (gen_periods start n (Suc k) ps)"
  shows "ps \<le> fst (snd b) \<and> snd (snd b) \<le> prev_day (add_months start (int (k + n)))"
  using assms(2,3)
proof (induction n arbitrary: k ps)
  case (Suc n)
  let ?nx = "add_months start (int (Suc k))"
  have v: "valid_date (add_months start j)" for j by (rule valid_add_months [OF assms(1)])
  have pd: "prev_day ?nx < ?nx" using le_prev_day_iff [OF valid_prev_day [OF v] v] by blast
  from Suc.prems consider "b = (Suc k, ps, prev_day ?nx)"
    | "b \<in> set (gen_periods start n (Suc (Suc k)) ?nx)" by (auto simp: Let_def)
  then show ?case
  proof cases
    case 1
    have "?nx \<le> add_months start (int (k + Suc n))" by (rule add_months_le) simp
    then have "prev_day ?nx \<le> prev_day (add_months start (int (k + Suc n)))"
      using pd by (subst le_prev_day_iff) (auto intro: valid_prev_day v)
    with 1 show ?thesis by simp
  next
    case 2
    have "ps \<le> ?nx" using Suc.prems add_months_le [of "int k" "int (Suc k)" start] by auto
    with Suc.IH [OF _ 2] show ?thesis by (auto simp: add.assoc intro: order_trans)
  qed
qed simp

subsection \<open>The invariant of the fiscal calendar\<close>

definition periods_wf :: "'m fin_db_scheme \<Rightarrow> bool" where
  "periods_wf db \<longleftrightarrow>
     distinct (map fp_id (fiscal_periods db)) \<and> distinct (map fy_id (fiscal_years db)) \<and>
     (\<forall>p \<in> set (fiscal_periods db). fp_id p < uuid_supply db) \<and>
     (\<forall>y \<in> set (fiscal_years db). fy_id y < uuid_supply db) \<and>
     (\<forall>p \<in> set (fiscal_periods db). \<exists>y \<in> set (fiscal_years db).
        fy_id y = fp_year p \<and> fy_tenant y = fp_tenant p \<and>
        fy_start y \<le> fp_start p \<and> fp_end p \<le> fy_end y) \<and>
     (\<forall>t d. valid_date d \<longrightarrow> length (filter (covers t d) (fiscal_periods db)) \<le> 1) \<and>
     (\<forall>y \<in> set (fiscal_years db). fy_status y = CLOSED \<longrightarrow>
        (\<forall>p \<in> set (fiscal_periods db). fp_year p = fy_id y \<longrightarrow> fp_status p = CLOSED))"

definition mk_periods :: "nat \<Rightarrow> uuid \<Rightarrow> uuid \<Rightarrow> (nat \<times> date \<times> date) list \<Rightarrow> fiscal_period list" where
  "mk_periods base tenant year bs =
     map (\<lambda>(k, number, s, e). \<lparr>fp_id = base + k, fp_tenant = tenant, fp_year = year,
            fp_number = number, fp_start = s, fp_end = e, fp_status = OPEN\<rparr>) (enumerate 0 bs)"

lemma mk_periods_Cons:
  "mk_periods base t y (b # bs) =
     \<lparr>fp_id = base, fp_tenant = t, fp_year = y, fp_number = fst b, fp_start = fst (snd b),
      fp_end = snd (snd b), fp_status = OPEN\<rparr> # mk_periods (Suc base) t y bs"
  by (auto simp: mk_periods_def enumerate_Suc_eq split: prod.splits intro!: map_cong)

lemma fold_add_period:
  "fold (add_period t y) bs db =
     db\<lparr>uuid_supply := uuid_supply db + length bs,
        fiscal_periods := fiscal_periods db @ mk_periods (uuid_supply db) t y bs\<rparr>"
proof (induction bs arbitrary: db)
  case Nil
  then show ?case by (simp add: mk_periods_def)
next
  case (Cons b bs)
  then show ?case
    by (cases b) (simp add: add_period_def uuid4_def mk_periods_Cons)
qed

lemma mk_periods_props:
  assumes "p \<in> set (mk_periods base t y bs)"
  shows "fp_tenant p = t \<and> fp_year p = y \<and> fp_status p = OPEN \<and> base \<le> fp_id p \<and>
    fp_id p < base + length bs \<and> (\<exists>b \<in> set bs. fp_start p = fst (snd b) \<and> fp_end p = snd (snd b))"
  using assms
proof (induction bs arbitrary: base)
  case Nil
  then show ?case by (simp add: mk_periods_def)
next
  case (Cons b bs)
  then consider "p = \<lparr>fp_id = base, fp_tenant = t, fp_year = y, fp_number = fst b, fp_start = fst (snd b),
      fp_end = snd (snd b), fp_status = OPEN\<rparr>" | "p \<in> set (mk_periods (Suc base) t y bs)"
    by (auto simp: mk_periods_Cons)
  then show ?case
  proof cases
    case 2
    from Cons.IH [OF this] show ?thesis by auto
  qed simp
qed

lemma mk_periods_ids: "distinct (map fp_id (mk_periods base t y bs))"
  by (induction bs arbitrary: base) (auto simp: mk_periods_Cons dest: mk_periods_props, simp add: mk_periods_def)

lemma filter_covers_mk_periods:
  "length (filter (covers t' d) (mk_periods base t y bs)) =
     (if t' = t then length (filter (in_period d) bs) else 0)"
  by (induction bs arbitrary: base) (auto simp: mk_periods_Cons covers_def in_period_def, simp_all add: mk_periods_def)

lemma create_fiscal_year_Inr:
  assumes "create_fiscal_year db t c = Inr (y, db')"
  obtains n where "fyc_period_count c = int n" and "n \<noteq> 0"
    and "\<forall>y \<in> set (fiscal_years db). fy_tenant y = t \<longrightarrow>
      \<not> (fy_start y \<le> prev_day (add_months (fyc_start c) (int n)) \<and> fyc_start c \<le> fy_end y)"
    and "y = \<lparr>fy_id = uuid_supply db, fy_tenant = t, fy_code = fyc_code c, fy_name = fyc_name c,
      fy_start = fyc_start c, fy_end = prev_day (add_months (fyc_start c) (int n)), fy_status = OPEN\<rparr>"
    and "db' = db\<lparr>uuid_supply := Suc (uuid_supply db) + n,
      fiscal_years := fiscal_years db @ [y],
      fiscal_periods := fiscal_periods db @ mk_periods (Suc (uuid_supply db)) t (uuid_supply db)
        (gen_periods (fyc_start c) n 1 (fyc_start c))\<rparr>"
proof -
  let ?n = "nat (fyc_period_count c)"
  from assms have n1: "1 \<le> fyc_period_count c"
    by (auto simp: create_fiscal_year_def generate_periods_def result_simps split: if_splits)
  then have n: "fyc_period_count c = int ?n" "?n \<noteq> 0" by auto
  have last: "snd (snd (last (gen_periods (fyc_start c) ?n (Suc 0) ps))) =
      prev_day (add_months (fyc_start c) (fyc_period_count c))" for ps
    using gen_periods_last [of ?n "fyc_start c" 0 ps] n by simp
  show ?thesis
    by (rule that [of ?n])
      (use assms n n1 in \<open>auto simp: create_fiscal_year_def generate_periods_def result_simps
         last Let_def uuid4_def fold_add_period split: if_splits\<close>)
qed

lemma create_fiscal_year_wf:
  assumes wf: "periods_wf db" and v: "valid_date (fyc_start c)"
    and cr: "create_fiscal_year db t c = Inr (y, db')"
  shows "periods_wf db'"
proof -
  from cr obtain n where n: "n \<noteq> 0"
    and ov: "\<forall>y \<in> set (fiscal_years db). fy_tenant y = t \<longrightarrow>
      \<not> (fy_start y \<le> prev_day (add_months (fyc_start c) (int n)) \<and> fyc_start c \<le> fy_end y)"
    and y: "y = \<lparr>fy_id = uuid_supply db, fy_tenant = t, fy_code = fyc_code c, fy_name = fyc_name c,
      fy_start = fyc_start c, fy_end = prev_day (add_months (fyc_start c) (int n)), fy_status = OPEN\<rparr>"
    and db': "db' = db\<lparr>uuid_supply := Suc (uuid_supply db) + n,
      fiscal_years := fiscal_years db @ [y],
      fiscal_periods := fiscal_periods db @ mk_periods (Suc (uuid_supply db)) t (uuid_supply db)
        (gen_periods (fyc_start c) n 1 (fyc_start c))\<rparr>"
    by (rule create_fiscal_year_Inr)
  let ?bs = "gen_periods (fyc_start c) n 1 (fyc_start c)"
  let ?new = "mk_periods (Suc (uuid_supply db)) t (uuid_supply db) ?bs"
  note W = wf [unfolded periods_wf_def]
  have new: "fp_tenant p = t" "fp_year p = uuid_supply db" "fp_status p = OPEN" "uuid_supply db < fp_id p"
      "fp_id p < Suc (uuid_supply db) + n" "fyc_start c \<le> fp_start p" "fp_end p \<le> fy_end y"
    if "p \<in> set ?new" for p
    using mk_periods_props [OF that] gen_periods_bounds [OF v, of "fyc_start c" 0 _ n]
    by (auto simp: y add_months_0 [OF v])
  have old: "fp_id p < uuid_supply db" "fp_year p \<noteq> uuid_supply db" if "p \<in> set (fiscal_periods db)" for p
    using W that by (auto dest: bspec) (metis less_irrefl)
  have cov: "length (filter (covers t' d) (fiscal_periods db @ ?new)) \<le> 1" if "valid_date d" for t' d
  proof (cases "t' = t \<and> filter (in_period d) ?bs \<noteq> []")
    case True
    then obtain b where "b \<in> set ?bs" "in_period d b" by (auto simp: filter_empty_conv)
    with gen_periods_bounds [OF v, of "fyc_start c" 0 b n]
    have d: "fyc_start c \<le> d" "d \<le> fy_end y"
      by (auto simp: in_period_def y add_months_0 [OF v] intro: order_trans)
    have "filter (covers t' d) (fiscal_periods db) = []"
    proof (rule ccontr)
      assume "filter (covers t' d) (fiscal_periods db) \<noteq> []"
      then obtain p where p: "p \<in> set (fiscal_periods db)" "covers t d p"
        using True by (auto simp: filter_empty_conv)
      then obtain z where "z \<in> set (fiscal_years db)" "fy_tenant z = t" "fy_start z \<le> fp_start p" "fp_end p \<le> fy_end z"
        using W by (auto simp: covers_def)
      with ov p(2) d show False by (auto simp: covers_def y)
    qed
    moreover have "length (filter (in_period d) ?bs) \<le> 1"
      using gen_periods_count [OF v that, of "fyc_start c" 0 n] by (simp add: add_months_0 [OF v])
    ultimately show ?thesis using True by (simp add: filter_covers_mk_periods)
  next
    case False
    then have "filter (covers t' d) ?new = []"
      by (metis filter_covers_mk_periods length_0_conv list.size(3))
    with W that show ?thesis by simp
  qed
  have ids: "distinct (map fp_id (fiscal_periods db @ ?new))"
    using W mk_periods_ids [of "Suc (uuid_supply db)" t "uuid_supply db" ?bs] old(1) new(4)
    by (auto dest!: new(4)) (metis less_asym old(1))
  have yids: "distinct (map fy_id (fiscal_years db @ [y]))" using W by (auto simp: y)
  have small: "fp_id p < Suc (uuid_supply db) + n" if "p \<in> set (fiscal_periods db @ ?new)" for p
    using that new(5) [of p] old(1) [of p] by auto
  have ysmall: "fy_id z < Suc (uuid_supply db) + n" if "z \<in> set (fiscal_years db @ [y])" for z
    using that W by (auto simp: y dest!: bspec)
  have inyear: "\<exists>z \<in> set (fiscal_years db @ [y]). fy_id z = fp_year p \<and> fy_tenant z = fp_tenant p \<and>
        fy_start z \<le> fp_start p \<and> fp_end p \<le> fy_end z" if "p \<in> set (fiscal_periods db @ ?new)" for p
  proof (cases "p \<in> set ?new")
    case True
    with new [OF True] show ?thesis by (intro bexI [of _ y]) (auto simp: y)
  next
    case False
    with that W show ?thesis by auto
  qed
  have closed: "fp_status p = CLOSED" if "z \<in> set (fiscal_years db @ [y])" "fy_status z = CLOSED"
    "p \<in> set (fiscal_periods db @ ?new)" "fp_year p = fy_id z" for z p
  proof -
    have z: "z \<in> set (fiscal_years db)" using that(1,2) by (auto simp: y)
    then have "fy_id z < uuid_supply db" using W by blast
    then have "p \<in> set (fiscal_periods db)" using that(3,4) new(2) [of p] by auto
    with z that(2,4) W show ?thesis by blast
  qed
  from ids yids small ysmall inyear closed cov show ?thesis
    unfolding periods_wf_def db' by simp
qed

lemma set_period_status_covers:
  "length (filter (covers t d) (fiscal_periods (set_period_status st i db))) =
   length (filter (covers t d) (fiscal_periods db))"
  by (simp add: set_period_status_def filter_upd_rows covers_def)

lemma fiscal_periods_set_status [simp]:
  "map fp_id (fiscal_periods (set_period_status st i db)) = map fp_id (fiscal_periods db)"
  "fiscal_years (set_period_status st i db) = fiscal_years db"
  "uuid_supply (set_period_status st i db) = uuid_supply db"
  by (simp_all add: set_period_status_def map_upd_rows)

lemma set_period_status_mem:
  assumes "p \<in> set (fiscal_periods (set_period_status st i db))"
  obtains q where "q \<in> set (fiscal_periods db)" and "p = (if fp_id q = i then q\<lparr>fp_status := st\<rparr> else q)"
  using assms by (auto simp: set_period_status_def set_upd_rows)

lemma require_period_Inr:
  "require_period db t i = Inr p \<Longrightarrow> p \<in> set (fiscal_periods db) \<and> fp_id p = i \<and> fp_tenant p = t"
  by (auto simp: require_period_def dest: find_row_Some_iff split: option.splits if_splits)

lemma set_period_status_wf:
  assumes wf: "periods_wf db"
    and cl: "\<And>p y. st = OPEN \<Longrightarrow> p \<in> set (fiscal_periods db) \<Longrightarrow> fp_id p = i \<Longrightarrow>
      y \<in> set (fiscal_years db) \<Longrightarrow> fy_id y = fp_year p \<Longrightarrow> fy_status y \<noteq> CLOSED"
  shows "periods_wf (set_period_status st i db)"
proof -
  note W = wf [unfolded periods_wf_def]
  have keep: "\<exists>q \<in> set (fiscal_periods db). fp_id p = fp_id q \<and> fp_year p = fp_year q \<and> fp_tenant p = fp_tenant q \<and>
      fp_start p = fp_start q \<and> fp_end p = fp_end q \<and> (fp_status p = fp_status q \<or> fp_id q = i \<and> fp_status p = st)"
    if "p \<in> set (fiscal_periods (set_period_status st i db))" for p
    using that by (elim set_period_status_mem) auto
  have "fp_status p = CLOSED" if "y \<in> set (fiscal_years db)" "fy_status y = CLOSED"
    "p \<in> set (fiscal_periods (set_period_status st i db))" "fp_year p = fy_id y" for y p
  proof -
    from keep [OF that(3)] obtain q where q: "q \<in> set (fiscal_periods db)" "fp_year p = fp_year q"
      "fp_status p = fp_status q \<or> fp_id q = i \<and> fp_status p = st" by blast
    have "fp_status q = CLOSED" using W that(1,2,4) q(1,2) by auto
    moreover have "st = CLOSED" if "fp_id q = i"
      using cl [OF _ q(1) that \<open>y \<in> set (fiscal_years db)\<close>] q(2) \<open>fp_year p = fy_id y\<close> \<open>fy_status y = CLOSED\<close>
      by (cases st) auto
    ultimately show ?thesis using q(3) by auto
  qed
  moreover have "fp_id p < uuid_supply db"
    and "\<exists>y \<in> set (fiscal_years db). fy_id y = fp_year p \<and> fy_tenant y = fp_tenant p \<and>
        fy_start y \<le> fp_start p \<and> fp_end p \<le> fy_end y"
    if "p \<in> set (fiscal_periods (set_period_status st i db))" for p
    using keep [OF that] W by metis+
  ultimately show ?thesis
    unfolding periods_wf_def using W by (auto simp: set_period_status_covers)
qed

lemma close_period_wf:
  "periods_wf db \<Longrightarrow> close_period db t i = Inr db' \<Longrightarrow> periods_wf db'"
  by (auto simp: close_period_def result_simps intro: set_period_status_wf)

lemma open_period_wf:
  assumes wf: "periods_wf db" and op: "open_period db t i = Inr db'"
  shows "periods_wf db'"
proof -
  note W = wf [unfolded periods_wf_def]
  from op obtain p where p: "require_period db t i = Inr p"
    and db': "db' = set_period_status OPEN i db"
    and y: "case find_row fy_id (fp_year p) (fiscal_years db) of Some y \<Rightarrow> fy_status y \<noteq> CLOSED | None \<Rightarrow> True"
    by (auto simp: open_period_def result_simps split: option.splits if_splits)
  have "fy_status z \<noteq> CLOSED" if "q \<in> set (fiscal_periods db)" "fp_id q = i"
    "z \<in> set (fiscal_years db)" "fy_id z = fp_year q" for q z
  proof -
    have "q = p" using require_period_Inr [OF p] that(1,2) W by (auto simp: distinct_map inj_on_def)
    then have "find_row fy_id (fp_year p) (fiscal_years db) = Some z"
      using find_row_distinct [of fy_id "fiscal_years db" z] that W by simp
    with y show ?thesis by simp
  qed
  then show ?thesis unfolding db' by (intro set_period_status_wf wf) auto
qed

lemma close_fiscal_year_wf:
  assumes wf: "periods_wf db" and cl: "close_fiscal_year db t i = Inr db'"
  shows "periods_wf db'"
proof -
  note W = wf [unfolded periods_wf_def]
  from cl obtain y where y: "find_row fy_id i (fiscal_years db) = Some y" "fy_tenant y = t"
    and no: "\<not> (\<exists>p \<in> set (fiscal_periods db). fp_tenant p = t \<and> fp_year p = i \<and> fp_status p = OPEN)"
    and db': "db' = db\<lparr>fiscal_years := upd_rows (\<lambda>y. fy_id y = i) (\<lambda>y. y\<lparr>fy_status := CLOSED\<rparr>) (fiscal_years db)\<rparr>"
    by (auto simp: close_fiscal_year_def split: option.splits if_splits)
  have yi: "y \<in> set (fiscal_years db)" "fy_id y = i" using find_row_Some_iff [OF y(1)] by auto
  have closed: "fp_status p = CLOSED" if "p \<in> set (fiscal_periods db)" "fp_year p = i" for p
  proof -
    from W that obtain z where "z \<in> set (fiscal_years db)" "fy_id z = i" "fy_tenant z = fp_tenant p" by metis
    with yi W have "fp_tenant p = t" using y(2) by (auto simp: distinct_map inj_on_def)
    with no that show ?thesis by (metis period_status.exhaust)
  qed
  have mem: "\<exists>z \<in> set (fiscal_years db). fy_id x = fy_id z \<and> fy_tenant x = fy_tenant z \<and> fy_start x = fy_start z \<and>
      fy_end x = fy_end z \<and> (fy_status x = fy_status z \<or> fy_id z = i)" if "x \<in> set (fiscal_years db')" for x
    using that by (auto simp: db' set_upd_rows)
  have mem': "\<exists>x \<in> set (fiscal_years db'). fy_id x = fy_id z \<and> fy_tenant x = fy_tenant z \<and> fy_start x = fy_start z \<and>
      fy_end x = fy_end z" if "z \<in> set (fiscal_years db)" for z
  proof (rule bexI [of _ "if fy_id z = i then z\<lparr>fy_status := CLOSED\<rparr> else z"])
    show "(if fy_id z = i then z\<lparr>fy_status := CLOSED\<rparr> else z) \<in> set (fiscal_years db')"
      using that by (auto simp: db' set_upd_rows)
  qed simp
  have "fp_status p = CLOSED" if "x \<in> set (fiscal_years db')" "fy_status x = CLOSED"
    "p \<in> set (fiscal_periods db)" "fp_year p = fy_id x" for x p
    using mem [OF that(1)] that W closed by metis
  moreover have "fy_id x < uuid_supply db" if "x \<in> set (fiscal_years db')" for x
    using mem [OF that] W by metis
  moreover have "\<exists>x \<in> set (fiscal_years db'). fy_id x = fp_year p \<and> fy_tenant x = fp_tenant p \<and>
        fy_start x \<le> fp_start p \<and> fp_end p \<le> fy_end x" if "p \<in> set (fiscal_periods db)" for p
    using that W mem' by metis
  moreover have "map fy_id (fiscal_years db') = map fy_id (fiscal_years db)"
    by (simp add: db' map_upd_rows)
  moreover have "fiscal_periods db' = fiscal_periods db" "uuid_supply db' = uuid_supply db"
    by (simp_all add: db')
  ultimately show ?thesis
    unfolding periods_wf_def using W by auto
qed

lemma find_period_total:
  "periods_wf db \<Longrightarrow> valid_date d \<Longrightarrow> \<exists>p. find_period_for_date db t d = Inr p"
  unfolding find_period_for_date_def periods_wf_def by (intro one_or_none_at_most_one) blast

subsection \<open>Properties\<close>

text \<open>
  C25. A created fiscal year is tiled by its periods: every day from the first to the last day of
  the year has exactly one period of the tenant, found by \<open>find_period_for_date\<close>, open and
  belonging to that year, and the calendar stays well formed.
\<close>

theorem fiscal_year_is_tiled:
  assumes wf: "periods_wf db" and v: "valid_date (fyc_start c)"
    and cr: "create_fiscal_year db t c = Inr (y, db')"
    and d: "valid_date d" "fy_start y \<le> d" "d \<le> fy_end y"
  shows "periods_wf db' \<and>
    (\<exists>p. find_period_for_date db' t d = Inr (Some p) \<and> fp_status p = OPEN \<and> fp_year p = fy_id y)"
proof -
  have wf': "periods_wf db'" by (rule create_fiscal_year_wf [OF wf v cr])
  from cr obtain n where n: "n \<noteq> 0"
    and y: "y = \<lparr>fy_id = uuid_supply db, fy_tenant = t, fy_code = fyc_code c, fy_name = fyc_name c,
      fy_start = fyc_start c, fy_end = prev_day (add_months (fyc_start c) (int n)), fy_status = OPEN\<rparr>"
    and db': "db' = db\<lparr>uuid_supply := Suc (uuid_supply db) + n,
      fiscal_years := fiscal_years db @ [y],
      fiscal_periods := fiscal_periods db @ mk_periods (Suc (uuid_supply db)) t (uuid_supply db)
        (gen_periods (fyc_start c) n 1 (fyc_start c))\<rparr>"
    by (rule create_fiscal_year_Inr)
  let ?new = "mk_periods (Suc (uuid_supply db)) t (uuid_supply db) (gen_periods (fyc_start c) n 1 (fyc_start c))"
  have "d < add_months (fyc_start c) (int n)"
    using d y le_prev_day_iff [of d "add_months (fyc_start c) (int n)"] valid_add_months [OF v] by simp
  then have "length (filter (in_period d) (gen_periods (fyc_start c) n 1 (fyc_start c))) = 1"
    using gen_periods_count [OF v d(1), of "fyc_start c" 0 n] n d(2) y add_months_0 [of "fyc_start c"] v by simp
  then have "length (filter (covers t d) ?new) = 1" by (simp add: filter_covers_mk_periods)
  then obtain p where p: "filter (covers t d) ?new = [p]" by (metis One_nat_def length_0_conv length_Suc_conv)
  have "length (filter (covers t d) (fiscal_periods db')) \<le> 1" using wf' d(1) by (simp add: periods_wf_def)
  then have "filter (covers t d) (fiscal_periods db') = [p]" unfolding db' using p by simp
  moreover have "p \<in> set ?new" using filter_ConsD [OF p] by simp
  ultimately show ?thesis
    using wf' mk_periods_props [of p] y by (auto simp: find_period_for_date_def)
qed

definition empty_calendar :: fin_db where
  "empty_calendar =
     \<lparr>uuid_supply = 1, today = Date 2024 1 1, now = 0, number_sequences = [], number_counters = [],
      documents = [], doc_links = [], pending_events = [], accounts = [], fiscal_years = [],
      fiscal_periods = [], currencies = [], exchange_rates = [], cost_centers = [], profit_centers = [],
      journal_entries = [], journal_lines = []\<rparr>"

definition sample_year :: fiscal_year_create where
  "sample_year = \<lparr>fyc_code = ''FY24'', fyc_name = ''2024'', fyc_start = Date 2024 1 31, fyc_period_count = 12\<rparr>"

lemma empty_calendar_wf: "periods_wf empty_calendar"
  by (simp add: periods_wf_def empty_calendar_def)

lemma sample_year_created:
  "(case create_fiscal_year empty_calendar 1 sample_year of
      Inl _ \<Rightarrow> False | Inr (y, _) \<Rightarrow> fy_start y = Date 2024 1 31 \<and> fy_end y = Date 2025 1 30)"
  by code_simp

theorem fiscal_year_is_tiled_witness:
  "\<exists>y db'. create_fiscal_year empty_calendar 1 sample_year = Inr (y, db') \<and>
     (\<exists>p. find_period_for_date db' 1 (Date 2024 2 29) = Inr (Some p))"
proof -
  obtain y db' where cr: "create_fiscal_year empty_calendar 1 sample_year = Inr (y, db')"
    and y: "fy_start y = Date 2024 1 31" "fy_end y = Date 2025 1 30"
    using sample_year_created by (auto split: sum.splits)
  have v: "valid_date (fyc_start sample_year)" "valid_date (Date 2024 2 29)" by code_simp+
  have le: "fy_start y \<le> Date 2024 2 29" "Date 2024 2 29 \<le> fy_end y" by (simp_all add: y date_order)
  from fiscal_year_is_tiled [OF empty_calendar_wf v(1) cr v(2) le] cr show ?thesis by blast
qed



end
