(* ===== verification/Fx.thy ===== *)
theory Fx
  imports Fin_Db
begin

text \<open>
  Model of \<^verbatim>\<open>backend/app/modules/finance/service/fx.py\<close> (currencies, exchange rates, rate lookup)
  and \<^verbatim>\<open>fx_translation.py\<close> (posting-time translation of an entry's lines). The lemmas show that a
  tenant has at most one functional currency, that a rate lookup never uses a rate dated after
  the posting, and that translation makes the functional debits equal the functional credits to
  the last minor unit.
\<close>

subsection \<open>Currencies\<close>

definition functional_currency_or_none :: "'m fin_db_scheme \<Rightarrow> uuid \<Rightarrow> string option result" where
  "functional_currency_or_none db tenant =
     bindr (one_or_none (filter (\<lambda>c. cur_tenant c = tenant \<and> cur_is_functional c) (currencies db)))
       (\<lambda>c. Inr (map_option cur_code c))"

definition functional_currency :: "'m fin_db_scheme \<Rightarrow> uuid \<Rightarrow> string result" where
  "functional_currency db tenant =
     bindr (functional_currency_or_none db tenant) (\<lambda>c.
       case c of
         None \<Rightarrow> Inl (ValidationFailedError ''finance.functional_currency_missing'')
       | Some code \<Rightarrow> Inr code)"

definition currencies_coded :: "'m fin_db_scheme \<Rightarrow> uuid \<Rightarrow> string \<Rightarrow> currency list" where
  "currencies_coded db tenant code =
     filter (\<lambda>c. cur_tenant c = tenant \<and> cur_code c = code) (currencies db)"

definition get_currency :: "'m fin_db_scheme \<Rightarrow> uuid \<Rightarrow> string \<Rightarrow> currency result" where
  "get_currency db tenant code =
     bindr (one_or_none (currencies_coded db tenant code)) (\<lambda>c.
       case c of
         None \<Rightarrow> Inl (NotFoundError ''finance.currency_not_found'')
       | Some cur \<Rightarrow> Inr cur)"

definition assert_no_functional_currency :: "'m fin_db_scheme \<Rightarrow> uuid \<Rightarrow> unit result" where
  "assert_no_functional_currency db tenant =
     (if \<exists>c \<in> set (currencies db). cur_tenant c = tenant \<and> cur_is_functional c
      then Inl (ConflictError ''finance.functional_currency_exists'') else Inr ())"

definition create_currency ::
  "'m fin_db_scheme \<Rightarrow> uuid \<Rightarrow> string \<Rightarrow> string \<Rightarrow> int \<Rightarrow> bool \<Rightarrow>
   (currency \<times> 'm fin_db_scheme) result" where
  "create_currency db tenant code name decimal_places is_functional =
     bindr (one_or_none (currencies_coded db tenant code)) (\<lambda>existing.
     if existing \<noteq> None then Inl (ConflictError ''finance.currency_code_conflict'')
     else bindr (if is_functional then assert_no_functional_currency db tenant else Inr ()) (\<lambda>_.
       case uuid4 db of (i, db1) \<Rightarrow>
         let c = \<lparr>cur_id = i, cur_tenant = tenant, cur_code = code, cur_name = name,
                  cur_decimal_places = decimal_places, cur_is_functional = is_functional\<rparr>
         in Inr (c, db1\<lparr>currencies := currencies db1 @ [c]\<rparr>)))"

text \<open>Demote every other functional currency, then promote the target.\<close>

definition set_functional_currency ::
  "'m fin_db_scheme \<Rightarrow> uuid \<Rightarrow> string \<Rightarrow> 'm fin_db_scheme result" where
  "set_functional_currency db tenant code =
     bindr (get_currency db tenant code) (\<lambda>target.
       let demoted = upd_rows
             (\<lambda>c. cur_tenant c = tenant \<and> cur_is_functional c \<and> cur_id c \<noteq> cur_id target)
             (\<lambda>c. c\<lparr>cur_is_functional := False\<rparr>) (currencies db)
       in Inr (db\<lparr>currencies := upd_rows (\<lambda>c. cur_id c = cur_id target)
                   (\<lambda>c. c\<lparr>cur_is_functional := True\<rparr>) demoted\<rparr>))"

subsection \<open>Exchange rates\<close>

definition rate_match :: "uuid \<Rightarrow> string \<Rightarrow> string \<Rightarrow> date \<Rightarrow> rate_kind \<Rightarrow> exchange_rate \<Rightarrow> bool" where
  "rate_match tenant from_code to_code on_date kind r \<longleftrightarrow>
     er_tenant r = tenant \<and> er_from r = from_code \<and> er_to r = to_code \<and> er_kind r = kind \<and>
     er_date r \<le> on_date"

definition latest_rate ::
  "'m fin_db_scheme \<Rightarrow> uuid \<Rightarrow> string \<Rightarrow> string \<Rightarrow> date \<Rightarrow> rate_kind \<Rightarrow> decimal option" where
  "latest_rate db tenant from_code to_code on_date kind =
     (case rev (sort_key er_date
              (filter (rate_match tenant from_code to_code on_date kind) (exchange_rates db))) of
        [] \<Rightarrow> None
      | r # _ \<Rightarrow> Some (er_rate r))"

definition get_rate ::
  "'m fin_db_scheme \<Rightarrow> uuid \<Rightarrow> string \<Rightarrow> string \<Rightarrow> date \<Rightarrow> rate_kind \<Rightarrow> decimal result" where
  "get_rate db tenant from_code to_code on_date kind =
     (if from_code = to_code then Inr 1
      else case latest_rate db tenant from_code to_code on_date kind of
        Some direct \<Rightarrow> Inr direct
      | None \<Rightarrow>
          (case latest_rate db tenant to_code from_code on_date kind of
             Some back \<Rightarrow>
               if back \<noteq> 0 then Inr (quantize ROUND_HALF_UP RATE_SCALE (ddiv 1 back))
               else Inl (ValidationFailedError ''finance.exchange_rate_missing'')
           | None \<Rightarrow> Inl (ValidationFailedError ''finance.exchange_rate_missing'')))"

definition translate :: "decimal \<Rightarrow> decimal \<Rightarrow> nat \<Rightarrow> decimal" where
  "translate amount rate to_decimals = quantize_money (dmul amount rate) to_decimals"

definition create_exchange_rate ::
  "'m fin_db_scheme \<Rightarrow> uuid \<Rightarrow> date \<Rightarrow> string \<Rightarrow> string \<Rightarrow> decimal \<Rightarrow> rate_kind \<Rightarrow>
   (exchange_rate \<times> 'm fin_db_scheme) result" where
  "create_exchange_rate db tenant rate_date from_code to_code rate kind =
     bindr (one_or_none (filter (\<lambda>r. er_tenant r = tenant \<and> er_date r = rate_date \<and>
              er_from r = from_code \<and> er_to r = to_code \<and> er_kind r = kind) (exchange_rates db)))
       (\<lambda>existing.
        if existing \<noteq> None then Inl (ConflictError ''finance.exchange_rate_conflict'')
        else case uuid4 db of (i, db1) \<Rightarrow>
          let r = \<lparr>er_id = i, er_tenant = tenant, er_date = rate_date, er_from = from_code,
                   er_to = to_code, er_kind = kind, er_rate = store_rate rate\<rparr>
          in Inr (r, db1\<lparr>exchange_rates := exchange_rates db1 @ [r]\<rparr>))"

subsection \<open>Translation of an entry's lines\<close>

text \<open>Hand the parts to the lines that carry this side, 0 to the others.\<close>

fun place_parts :: "decimal list \<Rightarrow> decimal list \<Rightarrow> decimal list" where
  "place_parts [] parts = []"
| "place_parts (a # amounts) parts =
     (if 0 < a then
        (case parts of [] \<Rightarrow> 0 # place_parts amounts [] | p # ps \<Rightarrow> p # place_parts amounts ps)
      else 0 # place_parts amounts parts)"

definition balance_side :: "decimal list \<Rightarrow> decimal \<Rightarrow> nat \<Rightarrow> decimal list" where
  "balance_side amounts functional_total places =
     (let weights = filter (\<lambda>a. 0 < a) amounts
      in if weights = [] then map (\<lambda>_. 0) amounts
         else place_parts amounts (allocate functional_total weights places))"

definition apply_translation :: "journal_line list \<Rightarrow> decimal \<Rightarrow> nat \<Rightarrow> journal_line list" where
  "apply_translation lines rate functional_decimals =
     (let functional_total =
            quantize ROUND_HALF_EVEN functional_decimals (dmul (sum_list (map jl_tdebit lines)) rate);
          debits = balance_side (map jl_tdebit lines) functional_total functional_decimals;
          credits = balance_side (map jl_tcredit lines) functional_total functional_decimals
      in map (\<lambda>(l, d, c). l\<lparr>jl_fdebit := d, jl_fcredit := c\<rparr>) (zip lines (zip debits credits)))"

definition translate_entry_lines ::
  "'m fin_db_scheme \<Rightarrow> uuid \<Rightarrow> journal_entry \<Rightarrow> journal_line list \<Rightarrow> decimal option \<Rightarrow>
   journal_line list result" where
  "translate_entry_lines db tenant entry lines rate_override =
     (if je_reverses entry \<noteq> None then Inr lines
      else bindr (functional_currency_or_none db tenant) (\<lambda>func.
        case func of
          None \<Rightarrow> Inr lines
        | Some code \<Rightarrow>
            if je_currency entry = code then Inr lines
            else bindr (case rate_override of
                          Some r \<Rightarrow> Inr r
                        | None \<Rightarrow> get_rate db tenant (je_currency entry) code
                                    (je_posting_date entry) SPOT) (\<lambda>rate.
              Inr (apply_translation lines rate (currency_decimals code)))))"

subsection \<open>One functional currency per tenant\<close>

definition currencies_wf :: "'m fin_db_scheme \<Rightarrow> bool" where
  "currencies_wf db \<longleftrightarrow>
     distinct (map cur_id (currencies db)) \<and>
     (\<forall>c \<in> set (currencies db). cur_id c < uuid_supply db) \<and>
     distinct (map (\<lambda>c. (cur_tenant c, cur_code c)) (currencies db)) \<and>
     (\<forall>t. length (filter (\<lambda>c. cur_tenant c = t \<and> cur_is_functional c) (currencies db)) \<le> 1)"

lemma functional_currency_total:
  "currencies_wf db \<Longrightarrow> \<exists>c. functional_currency_or_none db t = Inr c"
proof -
  assume "currencies_wf db"
  then have "length (filter (\<lambda>c. cur_tenant c = t \<and> cur_is_functional c) (currencies db)) \<le> 1"
    by (simp add: currencies_wf_def)
  from one_or_none_at_most_one [OF this] show ?thesis
    by (auto simp: functional_currency_or_none_def)
qed

lemma create_currency_wf:
  assumes "currencies_wf db" and "create_currency db t code name dp f = Inr (c, db')"
  shows "currencies_wf db'"
proof -
  from assms(2) have new: "currencies_coded db t code = []"
    and fn: "f \<Longrightarrow> \<forall>c \<in> set (currencies db). \<not> (cur_tenant c = t \<and> cur_is_functional c)"
    and db': "db' = db\<lparr>uuid_supply := Suc (uuid_supply db), currencies := currencies db @
       [\<lparr>cur_id = uuid_supply db, cur_tenant = t, cur_code = code, cur_name = name,
         cur_decimal_places = dp, cur_is_functional = f\<rparr>]\<rparr>"
    by (auto simp: create_currency_def assert_no_functional_currency_def result_simps uuid4_def Let_def
        split: if_splits option.splits)
  have "filter (\<lambda>c. cur_tenant c = t \<and> cur_is_functional c) (currencies db) = []" if f
    using fn [OF that] by (auto simp: filter_empty_conv)
  moreover have "(t, code) \<notin> (\<lambda>c. (cur_tenant c, cur_code c)) ` set (currencies db)"
    using new by (auto simp: currencies_coded_def filter_empty_conv)
  ultimately show ?thesis
    using assms(1) unfolding currencies_wf_def db' by (auto simp: less_Suc_eq)
qed

text \<open>After a switch the target is the tenant's only functional currency.\<close>

lemma set_functional_currency_spec:
  assumes wf: "currencies_wf db" and r: "set_functional_currency db t code = Inr db'"
  shows "functional_currency_or_none db' t = Inr (Some code) \<and> currencies_wf db'"
proof -
  from r obtain tg where tg: "currencies_coded db t code = [tg]"
    by (auto simp: set_functional_currency_def get_currency_def result_simps split: option.splits)
  let ?f = "\<lambda>c. c\<lparr>cur_is_functional := (cur_id c = cur_id tg \<or>
     (if cur_tenant c = t then False else cur_is_functional c))\<rparr>"
  have tgin: "tg \<in> set (currencies db)" "cur_tenant tg = t" "cur_code tg = code"
    using tg by (auto simp: currencies_coded_def dest!: filter_ConsD)
  from r tg have db': "db' = db\<lparr>currencies := map ?f (currencies db)\<rparr>"
    by (auto simp: set_functional_currency_def get_currency_def result_simps Let_def upd_rows_def o_def
        intro!: core_db.fold_congs)
  have W: "distinct (map cur_id (currencies db))" using wf by (simp add: currencies_wf_def)
  have only: "filter (\<lambda>c. cur_tenant c = t \<and> cur_is_functional c) (map ?f (currencies db)) =
      [tg\<lparr>cur_is_functional := True\<rparr>]"
  proof -
    have "filter (\<lambda>c. cur_id c = cur_id tg) cs = [tg]" if "tg \<in> set cs" "distinct (map cur_id cs)" for cs
      using that by (induction cs) (auto simp: filter_empty_conv image_iff)
    with W tgin have one: "filter (\<lambda>c. cur_id c = cur_id tg) (currencies db) = [tg]" by blast
    have "cur_tenant c = t" if "c \<in> set (currencies db)" "cur_id c = cur_id tg" for c
      using that tgin W by (auto simp: distinct_map inj_on_def)
    then have "filter (\<lambda>c. cur_tenant (?f c) = t \<and> cur_is_functional (?f c)) (currencies db) =
        filter (\<lambda>c. cur_id c = cur_id tg) (currencies db)"
      by (intro filter_cong) auto
    then show ?thesis unfolding filter_map o_def one by simp
  qed
  have other: "filter (\<lambda>c. cur_tenant c = t' \<and> cur_is_functional c) (map ?f (currencies db)) =
      map ?f (filter (\<lambda>c. cur_tenant c = t' \<and> cur_is_functional c) (currencies db))" if "t' \<noteq> t" for t'
  proof -
    have "cur_tenant c = t" if "c \<in> set (currencies db)" "cur_id c = cur_id tg" for c
      using that tgin W by (auto simp: distinct_map inj_on_def)
    with that show ?thesis unfolding filter_map o_def by (intro arg_cong [where f = "map ?f"] filter_cong) auto
  qed
  have "length (filter (\<lambda>c. cur_tenant c = t' \<and> cur_is_functional c) (currencies db')) \<le> 1" for t'
    using only other [of t'] wf by (cases "t' = t") (simp_all add: db' currencies_wf_def)
  then have "currencies_wf db'"
    using wf by (simp add: currencies_wf_def db' o_def)
  moreover have "functional_currency_or_none db' t = Inr (Some code)"
    using only tgin by (simp add: functional_currency_or_none_def db')
  ultimately show ?thesis by simp
qed


subsection \<open>Rate lookup\<close>

text \<open>The rate used is in force on the date and no later one is: no rate dated after the posting is used.\<close>

lemma latest_rate_Some:
  assumes "latest_rate db t a b d k = Some r"
  shows "\<exists>x \<in> set (exchange_rates db). rate_match t a b d k x \<and> er_rate x = r \<and>
    (\<forall>y \<in> set (exchange_rates db). rate_match t a b d k y \<longrightarrow> er_date y \<le> er_date x)"
proof -
  define xs where "xs = sort_key er_date (filter (rate_match t a b d k) (exchange_rates db))"
  from assms obtain x ys where x: "rev xs = x # ys" "er_rate x = r"
    unfolding latest_rate_def xs_def [symmetric] by (auto split: list.splits)
  from x(1) have eq: "xs = rev ys @ [x]" by (metis rev.simps(2) rev_rev_ident)
  have st: "set xs = {y \<in> set (exchange_rates db). rate_match t a b d k y}"
    unfolding xs_def by auto
  have "sorted (map er_date xs)" unfolding xs_def by (rule sorted_sort_key)
  then have "\<forall>y \<in> set xs. er_date y \<le> er_date x" unfolding eq by (auto simp: sorted_append)
  moreover have "x \<in> set xs" unfolding eq by simp
  ultimately show ?thesis using x(2) unfolding st by blast
qed

lemma latest_rate_None:
  "latest_rate db t a b d k = None \<longleftrightarrow> (\<forall>x \<in> set (exchange_rates db). \<not> rate_match t a b d k x)"
proof -
  define xs where "xs = sort_key er_date (filter (rate_match t a b d k) (exchange_rates db))"
  have "latest_rate db t a b d k = None \<longleftrightarrow> set xs = {}"
    unfolding latest_rate_def xs_def [symmetric] by (cases "rev xs") auto
  also have "set xs = {y \<in> set (exchange_rates db). rate_match t a b d k y}"
    unfolding xs_def by auto
  finally show ?thesis by blast
qed

subsection \<open>Translation balances exactly\<close>

lemma length_place_parts [simp]: "length (place_parts as ps) = length as"
  by (induction as ps rule: place_parts.induct) (auto split: list.splits)

lemma sum_place_parts:
  "length ps = length (filter (\<lambda>a. 0 < a) as) \<Longrightarrow> sum_list (place_parts as ps) = sum_list ps"
  by (induction as ps rule: place_parts.induct) (auto split: list.splits)

lemma place_parts_nth:
  "i < length as \<Longrightarrow> place_parts as ps ! i = 0 \<or> (0 < as ! i \<and> place_parts as ps ! i \<in> set ps)"
proof (induction as ps arbitrary: i rule: place_parts.induct)
  case (2 a as ps)
  then show ?case by (cases i; cases ps) auto
qed simp

lemma length_balance_side [simp]: "length (balance_side as T p) = length as"
  by (simp add: balance_side_def Let_def)

lemma floored_parts_nonneg:
  assumes "\<And>w. w \<in> set ws \<Longrightarrow> 0 \<le> w" and "0 \<le> a" and "i < length ws"
  shows "0 \<le> floored_parts a ws p ! i"
proof -
  have "0 \<le> x" if "x \<in> set (eff_weights ws)" for x using assms(1) that by (rule eff_weights_nonneg)
  then have "0 \<le> sum_list (eff_weights ws)" "0 \<le> eff_weights ws ! i"
    using assms(3) by (simp_all add: sum_list_nonneg)
  then show ?thesis using assms(2,3)
    by (simp add: floored_parts_def share_def quantize_nonneg ddiv_nonneg dmul_nonneg)
qed

text \<open>
  The bounds are far above what a ledger holds: the total has fewer than 26 digits in minor
  units, as the 28-digit decimal context needs.
\<close>

definition translatable :: "decimal list \<Rightarrow> decimal \<Rightarrow> nat \<Rightarrow> bool" where
  "translatable as T p \<longleftrightarrow> (\<exists>a \<in> set as. 0 < a) \<and> on_grid p T \<and> \<bar>T\<bar> * 10 ^ p < 10 ^ 26 \<and>
     length as \<le> 10 ^ 26"

lemma sum_balance_side:
  assumes "translatable as T p"
  shows "sum_list (balance_side as T p) = T"
proof -
  let ?ws = "filter (\<lambda>a. 0 < a) as"
  have ne: "?ws \<noteq> []" using assms by (auto simp: translatable_def filter_empty_conv)
  have len: "length ?ws \<le> 10 ^ 26"
    using assms unfolding translatable_def by (meson length_filter_le order_trans)
  have "sum_list (balance_side as T p) = sum_list (allocate T ?ws p)"
    unfolding balance_side_def Let_def if_not_P [OF ne] by (rule sum_place_parts) (rule length_allocate)
  also have "\<dots> = T"
    using assms len by (intro allocate_sums_to_total) (auto simp: translatable_def ne)
  finally show ?thesis .
qed

lemma balance_side_nth:
  assumes "translatable as T p" and "0 \<le> T" and "i < length as"
  shows "0 \<le> balance_side as T p ! i \<and> (as ! i \<le> 0 \<longrightarrow> balance_side as T p ! i = 0)"
proof -
  let ?ws = "filter (\<lambda>a. 0 < a) as"
  have ne: "?ws \<noteq> []" using assms by (auto simp: translatable_def filter_empty_conv)
  have len: "length ?ws \<le> 10 ^ 26"
    using assms unfolding translatable_def by (meson length_filter_le order_trans)
  have "0 \<le> x" if x: "x \<in> set (allocate T ?ws p)" for x
  proof -
    obtain j where j: "j < length ?ws" "x = allocate T ?ws p ! j"
      using x unfolding in_set_conv_nth length_allocate by blast
    have "x \<in> {floored_parts T ?ws p ! j, floored_parts T ?ws p ! j + 1 / 10 ^ p}"
      unfolding j(2) using assms len
      by (intro allocate_parts [OF ne _ _ _ _ _ j(1)]) (auto simp: translatable_def)
    moreover have "0 \<le> floored_parts T ?ws p ! j"
      by (rule floored_parts_nonneg) (use j assms ne in auto)
    ultimately show ?thesis by auto
  qed
  with place_parts_nth [OF assms(3), of "allocate T ?ws p"] show ?thesis
    unfolding balance_side_def Let_def if_not_P [OF ne] by auto
qed

definition translated_total :: "journal_line list \<Rightarrow> decimal \<Rightarrow> nat \<Rightarrow> decimal" where
  "translated_total lines rate p = quantize ROUND_HALF_EVEN p (dmul (sum_list (map jl_tdebit lines)) rate)"

lemma apply_translation_proj:
  "length (apply_translation ls r p) = length ls"
  "map jl_fdebit (apply_translation ls r p) = balance_side (map jl_tdebit ls) (translated_total ls r p) p"
  "map jl_fcredit (apply_translation ls r p) = balance_side (map jl_tcredit ls) (translated_total ls r p) p"
  by (simp_all add: apply_translation_def translated_total_def Let_def list_eq_iff_nth_eq)

text \<open>Only the two functional amounts of a line change.\<close>

lemma apply_translation_frame:
  assumes "\<And>l d c. g (l\<lparr>jl_fdebit := d, jl_fcredit := c\<rparr>) = g l"
  shows "map g (apply_translation ls r p) = map g ls"
  using assms by (auto simp: apply_translation_def Let_def list_eq_iff_nth_eq)

lemma apply_translation_nth:
  assumes "i < length ls" and "translatable (map jl_tdebit ls) (translated_total ls r p) p"
    and "translatable (map jl_tcredit ls) (translated_total ls r p) p" and "0 \<le> translated_total ls r p"
  shows "0 \<le> jl_fdebit (apply_translation ls r p ! i) \<and> 0 \<le> jl_fcredit (apply_translation ls r p ! i) \<and>
    (jl_tdebit (ls ! i) \<le> 0 \<longrightarrow> jl_fdebit (apply_translation ls r p ! i) = 0) \<and>
    (jl_tcredit (ls ! i) \<le> 0 \<longrightarrow> jl_fcredit (apply_translation ls r p ! i) = 0)"
proof -
  have "jl_fdebit (apply_translation ls r p ! i) = map jl_fdebit (apply_translation ls r p) ! i"
    and "jl_fcredit (apply_translation ls r p ! i) = map jl_fcredit (apply_translation ls r p) ! i"
    using assms(1) by (simp_all only: nth_map apply_translation_proj(1))
  then show ?thesis
    using balance_side_nth [OF assms(2,4), of i] balance_side_nth [OF assms(3,4), of i] assms(1)
    by (simp add: apply_translation_proj)
qed

text \<open>Translated amounts are on the currency's grid, so the money columns keep them exactly.\<close>

lemma fold_hand_out_grid:
  assumes "\<And>x. x \<in> set xs \<Longrightarrow> on_grid p x" and "on_grid p step"
  shows "x \<in> set (fold (hand_out ord step) ks xs) \<Longrightarrow> on_grid p x"
  using assms(1)
proof (induction ks arbitrary: xs)
  case (Cons k ks)
  have "on_grid p y" if y: "y \<in> set (hand_out ord step k xs)" for y
  proof (cases "ord ! (k mod length ord) < length xs")
    case True
    then show ?thesis using y Cons.prems(2) assms(2)
      by (auto simp: hand_out_def Let_def intro: on_grid_add dest!: set_update_subset_insert [THEN subsetD])
  next
    case False
    then show ?thesis using y Cons.prems(2) by (simp add: hand_out_def Let_def list_update_beyond)
  qed
  with Cons show ?case by simp
qed simp

lemma allocate_on_grid:
  assumes "x \<in> set (allocate a ws p)" shows "on_grid p x"
proof (cases "ws = []")
  case False
  have q: "on_grid p (1 / 10 ^ p)" using on_grid_of_int_div [of p 1] by simp
  then have q': "on_grid p (- (1 / 10 ^ p))" by (rule on_grid_minus)
  have fl: "on_grid p y" if "y \<in> set (floored_parts a ws p)" for y
    using that by (auto simp: floored_parts_def)
  obtain ord st ks where "allocate a ws p = fold (hand_out ord st) ks (floored_parts a ws p)" "on_grid p st"
    by (rule allocate_unfold [OF False, of a p]) (use q q' in \<open>simp split: if_splits\<close>)
  with fold_hand_out_grid [of "floored_parts a ws p" p st x ord ks] fl assms show ?thesis by simp
qed (use assms in \<open>simp add: allocate_def\<close>)

lemma balance_side_on_grid:
  assumes "x \<in> set (balance_side as T p)" shows "on_grid p x"
proof (cases "filter (\<lambda>a. 0 < a) as = []")
  case True
  with assms show ?thesis by (auto simp: balance_side_def Let_def)
next
  case False
  let ?ps = "allocate T (filter (\<lambda>a. 0 < a) as) p"
  from assms False have "x \<in> set (place_parts as ?ps)" by (simp add: balance_side_def Let_def)
  then obtain i where "i < length as" "x = place_parts as ?ps ! i" by (auto simp: in_set_conv_nth)
  with place_parts_nth [of i as ?ps] have "x = 0 \<or> x \<in> set ?ps" by blast
  then show ?thesis using allocate_on_grid by auto
qed

lemma apply_translation_on_grid:
  assumes "l \<in> set (apply_translation ls r p)"
  shows "on_grid p (jl_fdebit l) \<and> on_grid p (jl_fcredit l)"
proof -
  have "jl_fdebit l \<in> set (map jl_fdebit (apply_translation ls r p))"
    "jl_fcredit l \<in> set (map jl_fcredit (apply_translation ls r p))" using assms by simp_all
  then show ?thesis unfolding apply_translation_proj using balance_side_on_grid by blast
qed

text \<open>\<open>translate_entry_lines\<close> changes nothing but the functional amounts, and keeps them on the grid.\<close>

lemma translate_entry_lines_cases:
  assumes "translate_entry_lines db t e ls ro = Inr ls'"
  obtains "ls' = ls" | r c where "ls' = apply_translation ls r (currency_decimals c)"
proof (cases "je_reverses e")
  case None
  with assms obtain f where f: "functional_currency_or_none db t = Inr f"
    by (auto simp: translate_entry_lines_def)
  show ?thesis
  proof (cases "f = None \<or> f = Some (je_currency e)")
    case True
    with assms None f that(1) show ?thesis by (auto simp: translate_entry_lines_def)
  next
    case False
    then obtain c where "f = Some c" "je_currency e \<noteq> c" by auto
    with assms None f that(2) show ?thesis by (auto simp: translate_entry_lines_def)
  qed
qed (use assms that(1) in \<open>simp add: translate_entry_lines_def\<close>)

lemma translate_entry_lines_frame:
  assumes "translate_entry_lines db t e ls ro = Inr ls'"
    and "\<And>l d c. g (l\<lparr>jl_fdebit := d, jl_fcredit := c\<rparr>) = g l"
  shows "map g ls' = map g ls"
  by (rule translate_entry_lines_cases [OF assms(1)])
    (simp_all add: apply_translation_frame [of g, OF assms(2)])

lemma translate_entry_lines_grid:
  assumes tr: "translate_entry_lines db t e ls ro = Inr ls'" and "l \<in> set ls'"
    and "\<And>l. l \<in> set ls \<Longrightarrow> on_grid MONEY_SCALE (jl_fdebit l) \<and> on_grid MONEY_SCALE (jl_fcredit l)"
  shows "on_grid MONEY_SCALE (jl_fdebit l) \<and> on_grid MONEY_SCALE (jl_fcredit l)"
proof (rule translate_entry_lines_cases [OF tr])
  fix r c assume "ls' = apply_translation ls r (currency_decimals c)"
  with apply_translation_on_grid [of l ls r "currency_decimals c"] assms(2) show ?thesis
    using on_grid_mono [OF _ currency_decimals_le] by blast
qed (use assms in simp)

subsection \<open>Properties\<close>

text \<open>
  C24. Posting-time translation balances to the minor unit: when both sides carry an amount, the
  functional debits and the functional credits both sum to the one translated total (the
  transaction debits times the rate, rounded once to the currency's decimals), and for a
  non-negative total every line stays non-negative and on its own side. The bounds keep the total
  within the decimal context.
\<close>

theorem translation_balances:
  assumes "\<exists>l \<in> set lines. 0 < jl_tdebit l" and "\<exists>l \<in> set lines. 0 < jl_tcredit l"
    and "\<bar>translated_total lines rate p\<bar> * 10 ^ p < 10 ^ 26" and "length lines \<le> 10 ^ 26"
  shows "sum_list (map jl_fdebit (apply_translation lines rate p)) = translated_total lines rate p \<and>
    sum_list (map jl_fcredit (apply_translation lines rate p)) = translated_total lines rate p \<and>
    (0 \<le> translated_total lines rate p \<longrightarrow> (\<forall>i < length lines.
       0 \<le> jl_fdebit (apply_translation lines rate p ! i) \<and>
       0 \<le> jl_fcredit (apply_translation lines rate p ! i) \<and>
       (jl_tdebit (lines ! i) \<le> 0 \<longrightarrow> jl_fdebit (apply_translation lines rate p ! i) = 0) \<and>
       (jl_tcredit (lines ! i) \<le> 0 \<longrightarrow> jl_fcredit (apply_translation lines rate p ! i) = 0)))"
proof -
  have grid: "on_grid p (translated_total lines rate p)" by (simp add: translated_total_def)
  have d: "translatable (map jl_tdebit lines) (translated_total lines rate p) p"
    using assms grid by (simp add: translatable_def)
  have c: "translatable (map jl_tcredit lines) (translated_total lines rate p) p"
    using assms grid by (simp add: translatable_def)
  show ?thesis
    using sum_balance_side [OF d] sum_balance_side [OF c] apply_translation_nth [OF _ d c]
    unfolding apply_translation_proj by blast
qed

definition sample_fx_line :: "uuid \<Rightarrow> decimal \<Rightarrow> decimal \<Rightarrow> journal_line" where
  "sample_fx_line i d c =
     \<lparr>jl_id = i, jl_tenant = 1, jl_entry = 10, jl_number = i, jl_account = i,
      jl_description = None, jl_tdebit = d, jl_tcredit = c, jl_fdebit = d, jl_fcredit = c,
      jl_currency = ''EUR'', jl_cost_center = None, jl_profit_center = None, jl_project = None,
      jl_item = None, jl_partner_type = None, jl_partner = None, jl_is_posted = False,
      jl_posting_date = None, jl_period = None\<rparr>"

theorem translation_balances_witness:
  "sum_list (map jl_fdebit (apply_translation [sample_fx_line 1 10 0, sample_fx_line 2 20 0, sample_fx_line 3 0 30] 2 2)) = 60 \<and>
   sum_list (map jl_fcredit (apply_translation [sample_fx_line 1 10 0, sample_fx_line 2 20 0, sample_fx_line 3 0 30] 2 2)) = 60"
proof -
  let ?ls = "[sample_fx_line 1 10 0, sample_fx_line 2 20 0, sample_fx_line 3 0 30]"
  have g: "on_grid 0 60" "on_grid 2 60" using on_grid_of_int_div [of 0 60] on_grid_of_int_div [of 2 6000] by simp_all
  have "dmul 30 2 = 60" unfolding dmul_def using ctx_exact [OF g(1)] by simp
  then have T: "translated_total ?ls 2 2 = 60"
    using quantize_grid [OF g(2)] by (simp add: translated_total_def sample_fx_line_def)
  show ?thesis using translation_balances [of ?ls 2 2] unfolding T by (simp add: sample_fx_line_def)
qed

text \<open>
  Rate lookup: between different currencies \<open>get_rate\<close> returns the direct rate with the latest
  date not after the posting date, else (only when no direct rate is in force) the reciprocal of
  the latest reverse rate rounded half up to ten places; a future rate is never used, and without
  either the call is refused.
\<close>

theorem get_rate_latest:
  assumes "a \<noteq> b"
  shows "(\<forall>r. get_rate db t a b d k = Inr r \<longrightarrow>
      (\<exists>x \<in> set (exchange_rates db). rate_match t a b d k x \<and> r = er_rate x \<and>
         (\<forall>y \<in> set (exchange_rates db). rate_match t a b d k y \<longrightarrow> er_date y \<le> er_date x)) \<or>
      (\<forall>x \<in> set (exchange_rates db). \<not> rate_match t a b d k x) \<and>
      (\<exists>x \<in> set (exchange_rates db). rate_match t b a d k x \<and> er_rate x \<noteq> 0 \<and>
         r = quantize ROUND_HALF_UP RATE_SCALE (ddiv 1 (er_rate x)) \<and>
         (\<forall>y \<in> set (exchange_rates db). rate_match t b a d k y \<longrightarrow> er_date y \<le> er_date x))) \<and>
    ((\<forall>x \<in> set (exchange_rates db). \<not> rate_match t a b d k x \<and> \<not> rate_match t b a d k x) \<longrightarrow>
      get_rate db t a b d k = Inl (ValidationFailedError ''finance.exchange_rate_missing''))"
proof (intro conjI allI impI)
  fix r assume r: "get_rate db t a b d k = Inr r"
  show "(\<exists>x \<in> set (exchange_rates db). rate_match t a b d k x \<and> r = er_rate x \<and>
         (\<forall>y \<in> set (exchange_rates db). rate_match t a b d k y \<longrightarrow> er_date y \<le> er_date x)) \<or>
      (\<forall>x \<in> set (exchange_rates db). \<not> rate_match t a b d k x) \<and>
      (\<exists>x \<in> set (exchange_rates db). rate_match t b a d k x \<and> er_rate x \<noteq> 0 \<and>
         r = quantize ROUND_HALF_UP RATE_SCALE (ddiv 1 (er_rate x)) \<and>
         (\<forall>y \<in> set (exchange_rates db). rate_match t b a d k y \<longrightarrow> er_date y \<le> er_date x))"
  proof (cases "latest_rate db t a b d k")
    case (Some x)
    with r assms latest_rate_Some [OF Some] show ?thesis by (auto simp: get_rate_def)
  next
    case None
    with r assms obtain x where x: "latest_rate db t b a d k = Some x" "x \<noteq> 0"
      "r = quantize ROUND_HALF_UP RATE_SCALE (ddiv 1 x)"
      by (auto simp: get_rate_def split: option.splits if_splits)
    with None latest_rate_Some [OF x(1)] show ?thesis by (auto simp: latest_rate_None)
  qed
next
  assume "\<forall>x \<in> set (exchange_rates db). \<not> rate_match t a b d k x \<and> \<not> rate_match t b a d k x"
  then have "latest_rate db t a b d k = None" "latest_rate db t b a d k = None"
    by (simp_all add: latest_rate_None)
  with assms show "get_rate db t a b d k = Inl (ValidationFailedError ''finance.exchange_rate_missing'')"
    by (simp add: get_rate_def)
qed

definition sample_fx :: fin_db where
  "sample_fx =
     \<lparr>uuid_supply = 9, today = Date 2024 1 1, now = 0, number_sequences = [], number_counters = [],
      documents = [], doc_links = [], pending_events = [], accounts = [], fiscal_years = [],
      fiscal_periods = [],
      currencies = [\<lparr>cur_id = 1, cur_tenant = 1, cur_code = ''USD'', cur_name = ''Dollar'',
          cur_decimal_places = 2, cur_is_functional = True\<rparr>,
        \<lparr>cur_id = 2, cur_tenant = 1, cur_code = ''EUR'', cur_name = ''Euro'',
          cur_decimal_places = 2, cur_is_functional = False\<rparr>],
      exchange_rates = [\<lparr>er_id = 3, er_tenant = 1, er_date = Date 2024 1 1, er_from = ''EUR'', er_to = ''USD'',
          er_kind = SPOT, er_rate = 2\<rparr>,
        \<lparr>er_id = 4, er_tenant = 1, er_date = Date 2024 3 1, er_from = ''EUR'', er_to = ''USD'',
          er_kind = SPOT, er_rate = 3\<rparr>],
      cost_centers = [], profit_centers = [], journal_entries = [], journal_lines = []\<rparr>"

theorem get_rate_latest_witness:
  "get_rate sample_fx 1 ''GBP'' ''USD'' (Date 2024 2 1) SPOT =
     Inl (ValidationFailedError ''finance.exchange_rate_missing'')"
proof -
  have "\<forall>x \<in> set (exchange_rates sample_fx). \<not> rate_match 1 ''GBP'' ''USD'' (Date 2024 2 1) SPOT x \<and>
      \<not> rate_match 1 ''USD'' ''GBP'' (Date 2024 2 1) SPOT x"
    by (simp add: sample_fx_def rate_match_def)
  with get_rate_latest [of "''GBP''" "''USD''" sample_fx 1 "Date 2024 2 1" SPOT] show ?thesis by simp
qed

text \<open>
  One functional currency: creating currencies and switching the functional one keep at most
  one functional currency per tenant and unique codes, and after a switch the tenant's functional
  currency is the chosen one.
\<close>

theorem one_functional_currency:
  assumes "currencies_wf db"
  shows "(\<forall>t code name dp f c db'. create_currency db t code name dp f = Inr (c, db') \<longrightarrow> currencies_wf db') \<and>
    (\<forall>t code db'. set_functional_currency db t code = Inr db' \<longrightarrow>
       currencies_wf db' \<and> functional_currency db' t = Inr code)"
  using create_currency_wf [OF assms] set_functional_currency_spec [OF assms]
  by (auto simp: functional_currency_def)

theorem one_functional_currency_witness:
  "\<exists>db'. set_functional_currency sample_fx 1 ''EUR'' = Inr db' \<and> functional_currency db' 1 = Inr ''EUR''"
proof -
  have "length (filter (\<lambda>c. cur_tenant c = t \<and> cur_is_functional c) (currencies sample_fx)) \<le> 1" for t
    by (simp add: sample_fx_def)
  then have wf: "currencies_wf sample_fx" by (simp add: currencies_wf_def sample_fx_def)
  obtain db' where "set_functional_currency sample_fx 1 ''EUR'' = Inr db'"
    by (simp add: set_functional_currency_def get_currency_def currencies_coded_def sample_fx_def Let_def)
  with one_functional_currency [OF wf] show ?thesis by blast
qed

end
