(* ===== verification/Journal_Db.thy ===== *)
theory Journal_Db
  imports Periods Fx
begin

text \<open>
  The database side of the universal journal: the constraints of the two journal tables
  (\<^verbatim>\<open>finance/models/journal.py\<close>) and the triggers of migration 0009
  (\<^verbatim>\<open>backend/alembic/versions/0009\<close>) as checks run by every row write. A flush of the session is the
  sequence of its row writes; a trigger that raises is the error \<open>DbGuard\<close> with its token.
\<close>

subsection \<open>Three-valued SQL conditions\<close>

text \<open>A SQL condition is true, false or unknown (\<open>None\<close>); a trigger raises only on true.\<close>

definition sql_eq :: "'a option \<Rightarrow> 'a option \<Rightarrow> bool option" where
  "sql_eq a b = (case a of None \<Rightarrow> None | Some x \<Rightarrow> (case b of None \<Rightarrow> None | Some y \<Rightarrow> Some (x = y)))"

fun sql_and :: "bool option \<Rightarrow> bool option \<Rightarrow> bool option" where
  "sql_and (Some False) b = Some False"
| "sql_and (Some True) b = b"
| "sql_and None b = (if b = Some False then Some False else None)"

definition sql_not :: "bool option \<Rightarrow> bool option" where
  "sql_not = map_option Not"

subsection \<open>Trigger conditions\<close>

definition entry_lines :: "'m fin_db_scheme \<Rightarrow> uuid \<Rightarrow> journal_line list" where
  "entry_lines db i = filter (\<lambda>l. jl_entry l = i) (journal_lines db)"

definition no_open_period :: "'m fin_db_scheme \<Rightarrow> journal_entry \<Rightarrow> bool" where
  "no_open_period db new \<longleftrightarrow>
     \<not> (\<exists>p \<in> set (fiscal_periods db). fp_tenant p = je_tenant new \<and> fp_status p = OPEN \<and>
          fp_start p \<le> je_posting_date new \<and> je_posting_date new \<le> fp_end p)"

definition unbalanced :: "'m fin_db_scheme \<Rightarrow> journal_entry \<Rightarrow> bool" where
  "unbalanced db new \<longleftrightarrow>
     (let lines = entry_lines db (je_id new)
      in sum_list (map jl_fdebit lines) - sum_list (map jl_fcredit lines) \<noteq> 0 \<or>
         sum_list (map jl_fdebit lines) \<le> 0)"

definition sanctioned :: "journal_entry \<Rightarrow> journal_entry \<Rightarrow> bool option" where
  "sanctioned old new =
     sql_and (Some (je_status new = REVERSED)) (
     sql_and (Some (je_reversed_by new \<noteq> None)) (
     sql_and (Some (je_posting_date new = je_posting_date old)) (
     sql_and (sql_eq (je_number new) (je_number old)) (
     sql_and (Some (je_currency new = je_currency old)) (
     sql_and (Some (je_document_type new = je_document_type old))
       (sql_eq (je_period new) (je_period old)))))))"

definition TOKEN_PERIOD :: string where "TOKEN_PERIOD = ''ATLAS_PERIOD_CLOSED''"
definition TOKEN_UNBALANCED :: string where "TOKEN_UNBALANCED = ''ATLAS_UNBALANCED_ENTRY''"
definition TOKEN_IMMUTABLE :: string where "TOKEN_IMMUTABLE = ''ATLAS_POSTED_IMMUTABLE''"

definition header_insert_guard :: "'m fin_db_scheme \<Rightarrow> journal_entry \<Rightarrow> unit result" where
  "header_insert_guard db new =
     (if je_status new = POSTED \<and> no_open_period db new then Inl (DbGuard TOKEN_PERIOD) else Inr ())"

text \<open>The three update triggers, in the alphabetical order in which PostgreSQL fires them.\<close>

definition header_update_guard :: "'m fin_db_scheme \<Rightarrow> journal_entry \<Rightarrow> journal_entry \<Rightarrow> unit result" where
  "header_update_guard db old new =
     (if je_status new = POSTED \<and> je_status old \<noteq> POSTED \<and> unbalanced db new
      then Inl (DbGuard TOKEN_UNBALANCED)
      else if je_status old = POSTED \<and> sql_not (sanctioned old new) = Some True
      then Inl (DbGuard TOKEN_IMMUTABLE)
      else if je_status new = POSTED \<and> je_status old \<noteq> POSTED \<and> no_open_period db new
      then Inl (DbGuard TOKEN_PERIOD)
      else Inr ())"

definition header_delete_guard :: "journal_entry \<Rightarrow> unit result" where
  "header_delete_guard old =
     (if je_status old = POSTED \<or> je_status old = REVERSED then Inl (DbGuard TOKEN_IMMUTABLE) else Inr ())"

definition line_guard :: "journal_line \<Rightarrow> unit result" where
  "line_guard old = (if jl_is_posted old then Inl (DbGuard TOKEN_IMMUTABLE) else Inr ())"

subsection \<open>Row writes\<close>

definition number_clash :: "journal_entry list \<Rightarrow> journal_entry \<Rightarrow> bool" where
  "number_clash es new \<longleftrightarrow>
     (\<exists>e \<in> set es. je_id e \<noteq> je_id new \<and> je_tenant e = je_tenant new \<and>
        je_number e \<noteq> None \<and> je_number e = je_number new)"

definition insert_entry :: "journal_entry \<Rightarrow> 'm fin_db_scheme \<Rightarrow> 'm fin_db_scheme result" where
  "insert_entry new db =
     bindr (header_insert_guard db new) (\<lambda>_.
     if number_clash (journal_entries db) new
     then Inl (IntegrityError ''uq_fin_journal_entries_tenant_id_entry_number'')
     else Inr (db\<lparr>journal_entries := journal_entries db @ [new]\<rparr>))"

definition update_entry ::
  "uuid \<Rightarrow> (journal_entry \<Rightarrow> journal_entry) \<Rightarrow> 'm fin_db_scheme \<Rightarrow> 'm fin_db_scheme result" where
  "update_entry i f db =
     (case find_row je_id i (journal_entries db) of
        None \<Rightarrow> Inl (PyError ''StaleDataError'')
      | Some old \<Rightarrow>
          bindr (header_update_guard db old (f old)) (\<lambda>_.
          if number_clash (journal_entries db) (f old)
          then Inl (IntegrityError ''uq_fin_journal_entries_tenant_id_entry_number'')
          else Inr (db\<lparr>journal_entries := upd_rows (\<lambda>e. je_id e = i) f (journal_entries db)\<rparr>)))"

text \<open>The one-side check and the money columns compare and keep the stored amounts.\<close>

definition one_side :: "decimal \<Rightarrow> decimal \<Rightarrow> bool" where
  "one_side debit credit \<longleftrightarrow> (0 < debit \<and> credit = 0) \<or> (0 < credit \<and> debit = 0)"

definition stored_line :: "journal_line \<Rightarrow> journal_line" where
  "stored_line l = l\<lparr>jl_tdebit := store_money (jl_tdebit l), jl_tcredit := store_money (jl_tcredit l),
     jl_fdebit := store_money (jl_fdebit l), jl_fcredit := store_money (jl_fcredit l)\<rparr>"

definition insert_line :: "journal_line \<Rightarrow> 'm fin_db_scheme \<Rightarrow> 'm fin_db_scheme result" where
  "insert_line l db =
     (case uuid4 db of (i, db1) \<Rightarrow>
      let row = stored_line (l\<lparr>jl_id := i\<rparr>)
      in if \<not> one_side (jl_tdebit row) (jl_tcredit row)
         then Inl (IntegrityError ''ck_fin_journal_lines_one_side'')
         else if \<exists>r \<in> set (journal_lines db1). jl_tenant r = jl_tenant row \<and>
              jl_entry r = jl_entry row \<and> jl_number r = jl_number row
         then Inl (IntegrityError ''uq_fin_journal_lines_tenant_id_journal_entry_id_line_number'')
         else Inr (db1\<lparr>journal_lines := journal_lines db1 @ [row]\<rparr>))"

definition update_line :: "journal_line \<Rightarrow> 'm fin_db_scheme \<Rightarrow> 'm fin_db_scheme result" where
  "update_line l db =
     (case find_row jl_id (jl_id l) (journal_lines db) of
        None \<Rightarrow> Inl (PyError ''StaleDataError'')
      | Some old \<Rightarrow>
          bindr (line_guard old) (\<lambda>_.
          let row = stored_line l
          in if \<not> one_side (jl_tdebit row) (jl_tcredit row)
             then Inl (IntegrityError ''ck_fin_journal_lines_one_side'')
             else Inr (db\<lparr>journal_lines :=
               upd_rows (\<lambda>r. jl_id r = jl_id row) (\<lambda>_. row) (journal_lines db)\<rparr>)))"

definition delete_entry :: "uuid \<Rightarrow> 'm fin_db_scheme \<Rightarrow> 'm fin_db_scheme result" where
  "delete_entry i db =
     (case find_row je_id i (journal_entries db) of
        None \<Rightarrow> Inl (PyError ''StaleDataError'')
      | Some old \<Rightarrow>
          bindr (header_delete_guard old) (\<lambda>_.
          if entry_lines db i \<noteq> []
          then Inl (IntegrityError ''fk_fin_journal_lines_journal_entry_id_fin_journal_entries'')
          else Inr (db\<lparr>journal_entries := filter (\<lambda>e. je_id e \<noteq> i) (journal_entries db)\<rparr>)))"

definition delete_line :: "uuid \<Rightarrow> 'm fin_db_scheme \<Rightarrow> 'm fin_db_scheme result" where
  "delete_line i db =
     (case find_row jl_id i (journal_lines db) of
        None \<Rightarrow> Inl (PyError ''StaleDataError'')
      | Some old \<Rightarrow>
          bindr (line_guard old) (\<lambda>_.
          Inr (db\<lparr>journal_lines := filter (\<lambda>r. jl_id r \<noteq> i) (journal_lines db)\<rparr>)))"

end
