(* ===== verification/Numbering.thy ===== *)
theory Numbering
  imports Core_Db
begin

text \<open>
  Model of \<^verbatim>\<open>backend/app/core/numbering.py\<close>: gapless document numbers. A sequence row holds the
  format, a counter row per year the next value. The lemmas show that a claim hands out the
  counter's value and steps it by one, that no other counter moves (a back-dated claim cannot
  disturb another year), that a run of claims numbers each (sequence, year) without a gap, and
  that the formatted numbers of one sequence are distinct.
\<close>

subsection \<open>Formatting\<close>

definition digit_char :: "nat \<Rightarrow> char" where
  "digit_char d = char_of (48 + d)"

fun nat_str :: "nat \<Rightarrow> string" where
  "nat_str n = (if n < 10 then [digit_char n] else nat_str (n div 10) @ [digit_char (n mod 10)])"

declare nat_str.simps [simp del]

definition int_str :: "int \<Rightarrow> string" where
  "int_str i = (if i < 0 then ''-'' @ nat_str (nat (- i)) else nat_str (nat i))"

definition zfill :: "string \<Rightarrow> int \<Rightarrow> string" where
  "zfill s width = replicate (nat (width - int (length s))) (CHR ''0'') @ s"

definition format_number :: "string \<Rightarrow> int \<Rightarrow> nat \<Rightarrow> int option \<Rightarrow> string" where
  "format_number prefix padding value year =
     (let padded = zfill (nat_str value) padding
      in case year of
           None \<Rightarrow> prefix @ ''-'' @ padded
         | Some y \<Rightarrow> prefix @ ''-'' @ int_str y @ ''-'' @ padded)"

subsection \<open>Sequences and counters\<close>

definition NO_YEAR :: int where "NO_YEAR = 0"

definition sequences_named :: "('ev, 'm) core_db_scheme \<Rightarrow> uuid \<Rightarrow> string \<Rightarrow> number_sequence list" where
  "sequences_named db tenant name =
     filter (\<lambda>s. ns_tenant s = tenant \<and> ns_name s = name) (number_sequences db)"

definition counter_match :: "uuid \<Rightarrow> uuid \<Rightarrow> int \<Rightarrow> number_sequence_counter \<Rightarrow> bool" where
  "counter_match tenant seq year c \<longleftrightarrow>
     nc_tenant c = tenant \<and> nc_sequence c = seq \<and> nc_year c = year"

text \<open>
  The insert runs in a savepoint; when the (tenant, sequence, year) row is already there the
  unique constraint fires, the savepoint rolls back and nothing changes.
\<close>

definition create_counter ::
  "('ev, 'm) core_db_scheme \<Rightarrow> uuid \<Rightarrow> uuid \<Rightarrow> int \<Rightarrow> ('ev, 'm) core_db_scheme" where
  "create_counter db tenant seq year =
     (if \<exists>c \<in> set (number_counters db). counter_match tenant seq year c then db
      else case uuid4 db of (i, db1) \<Rightarrow>
        db1\<lparr>number_counters := number_counters db1 @
          [\<lparr>nc_id = i, nc_tenant = tenant, nc_sequence = seq, nc_year = year, nc_next_value = 1\<rparr>]\<rparr>)"

definition ensure_sequence ::
  "('ev, 'm) core_db_scheme \<Rightarrow> uuid \<Rightarrow> string \<Rightarrow> string \<Rightarrow> int \<Rightarrow> bool \<Rightarrow>
   (number_sequence \<times> ('ev, 'm) core_db_scheme) result" where
  "ensure_sequence db tenant name prefix padding year_reset =
     bindr (one_or_none (sequences_named db tenant name)) (\<lambda>existing.
       case existing of
         Some s \<Rightarrow> Inr (s, db)
       | None \<Rightarrow>
           (case uuid4 db of (i, db1) \<Rightarrow>
              let s = \<lparr>ns_id = i, ns_tenant = tenant, ns_name = name, ns_prefix = prefix,
                       ns_padding = padding, ns_year_reset = year_reset\<rparr>;
                  db2 = db1\<lparr>number_sequences := number_sequences db1 @ [s]\<rparr>;
                  db3 = create_counter db2 tenant i
                          (if year_reset then dyear (today db) else NO_YEAR)
              in Inr (s, db3)))"

text \<open>
  \<^verbatim>\<open>UPDATE ... SET next_value = next_value + 1 ... RETURNING next_value\<close>, minus one: the value the
  matching counter held before.
\<close>

definition bump_counter :: "number_sequence_counter \<Rightarrow> number_sequence_counter" where
  "bump_counter c = c\<lparr>nc_next_value := nc_next_value c + 1\<rparr>"

definition increment ::
  "('ev, 'm) core_db_scheme \<Rightarrow> uuid \<Rightarrow> uuid \<Rightarrow> int \<Rightarrow> nat option \<times> ('ev, 'm) core_db_scheme" where
  "increment db tenant seq year =
     (let db' = db\<lparr>number_counters :=
            upd_rows (counter_match tenant seq year) bump_counter (number_counters db)\<rparr>
      in case filter (counter_match tenant seq year) (number_counters db') of
           [] \<Rightarrow> (None, db')
         | c # _ \<Rightarrow> (Some (nc_next_value c - 1), db'))"

text \<open>
  The claimed value: increment optimistically; only when the UPDATE matched nothing, open the
  counter and increment again.
\<close>

definition claim_value ::
  "('ev, 'm) core_db_scheme \<Rightarrow> uuid \<Rightarrow> uuid \<Rightarrow> int \<Rightarrow> nat option \<times> ('ev, 'm) core_db_scheme" where
  "claim_value db tenant seq bucket =
     (case increment db tenant seq bucket of
        (Some v, db1) \<Rightarrow> (Some v, db1)
      | (None, db1) \<Rightarrow> increment (create_counter db1 tenant seq bucket) tenant seq bucket)"

definition claim_number ::
  "('ev, 'm) core_db_scheme \<Rightarrow> uuid \<Rightarrow> string \<Rightarrow> date \<Rightarrow>
   (string \<times> ('ev, 'm) core_db_scheme) result" where
  "claim_number db tenant name on_date =
     bindr (one_or_none (sequences_named db tenant name)) (\<lambda>found.
       case found of
         None \<Rightarrow> Inl (NotFoundError ''core.number_sequence_missing'')
       | Some s \<Rightarrow>
           (let claim_year = (if ns_year_reset s then Some (dyear on_date) else None);
                bucket = (case claim_year of Some y \<Rightarrow> y | None \<Rightarrow> NO_YEAR)
            in case claim_value db tenant (ns_id s) bucket of
                 (None, _) \<Rightarrow> Inl (NotFoundError ''core.number_sequence_missing'')
               | (Some v, db1) \<Rightarrow>
                   Inr (format_number (ns_prefix s) (ns_padding s) v claim_year, db1)))"

text \<open>The next value of a counter; 1 for a counter that does not exist yet.\<close>

definition next_free :: "('ev, 'm) core_db_scheme \<Rightarrow> uuid \<Rightarrow> uuid \<Rightarrow> int \<Rightarrow> nat" where
  "next_free db tenant seq year =
     (case filter (counter_match tenant seq year) (number_counters db) of
        [] \<Rightarrow> 1 | c # _ \<Rightarrow> nc_next_value c)"

definition seq_bucket :: "number_sequence \<Rightarrow> date \<Rightarrow> int" where
  "seq_bucket s d = (if ns_year_reset s then dyear d else NO_YEAR)"

text \<open>A batch of claims on one sequence, as a unit of work that creates several documents does.\<close>

primrec claim_run ::
  "('ev, 'm) core_db_scheme \<Rightarrow> uuid \<Rightarrow> string \<Rightarrow> date list \<Rightarrow>
   (string list \<times> ('ev, 'm) core_db_scheme) result" where
  "claim_run db tenant name [] = Inr ([], db)"
| "claim_run db tenant name (d # ds) =
     bindr (claim_number db tenant name d) (\<lambda>(n, db1).
       bindr (claim_run db1 tenant name ds) (\<lambda>(ns, db2). Inr (n # ns, db2)))"

subsection \<open>Gapless counters, abstractly\<close>

text \<open>
  The contract of a keyed counter: a claim returns the key's next value and steps that key only.
  A client that claims a list of keys gets, for each key, consecutive values.
\<close>

locale gapless_counter =
  fixes claim :: "'k \<Rightarrow> 's \<Rightarrow> nat option \<times> 's"
    and nxt :: "'s \<Rightarrow> 'k \<Rightarrow> nat"
  assumes claim_val: "fst (claim k s) = Some (nxt s k)"
    and claim_next: "nxt (snd (claim k s)) = (nxt s)(k := Suc (nxt s k))"
begin

primrec run :: "'k list \<Rightarrow> 's \<Rightarrow> nat list \<times> 's" where
  "run [] s = ([], s)"
| "run (k # ks) s =
     (the (fst (claim k s)) # fst (run ks (snd (claim k s))), snd (run ks (snd (claim k s))))"

lemma length_run [simp]: "length (fst (run ks s)) = length ks"
  by (induction ks arbitrary: s) auto

lemma run_next: "nxt (snd (run ks s)) k = nxt s k + count_list ks k"
  by (induction ks arbitrary: s) (auto simp: claim_next)

lemma run_nth:
  "i < length ks \<Longrightarrow> fst (run ks s) ! i = nxt s (ks ! i) + count_list (take i ks) (ks ! i)"
proof (induction ks arbitrary: s i)
  case (Cons k ks)
  have eq: "fst (run (k # ks) s) = nxt s k # fst (run ks (snd (claim k s)))"
    by (simp add: claim_val)
  show ?case
  proof (cases i)
    case 0
    then show ?thesis unfolding eq by simp
  next
    case (Suc j)
    with Cons.prems Cons.IH [of j "snd (claim k s)"] show ?thesis
      unfolding eq by (simp add: claim_next)
  qed
qed simp

end

subsection \<open>The counter table implements it\<close>

lemma bump_counter_simps [simp]:
  "counter_match t q y (bump_counter c) = counter_match t q y c"
  "nc_next_value (bump_counter c) = Suc (nc_next_value c)"
  by (simp_all add: counter_match_def bump_counter_def)

lemma increment_eq:
  "increment db t q y =
     (if filter (counter_match t q y) (number_counters db) = [] then (None, db)
      else (Some (next_free db t q y),
        db\<lparr>number_counters := upd_rows (counter_match t q y) bump_counter (number_counters db)\<rparr>))"
proof -
  have *: "upd_rows P f rows = rows" if "filter P rows = []"
    for P and f and rows :: "number_sequence_counter list"
    using that by (induction rows) (auto split: if_splits)
  show ?thesis
    by (auto simp: increment_def next_free_def Let_def filter_upd_rows * neq_Nil_conv
        split: list.splits dest: filter_ConsD)
qed

lemma next_free_upd:
  "next_free (db\<lparr>number_counters := upd_rows (counter_match t q y) bump_counter (number_counters db)\<rparr>) t' q' y' =
   (if (t', q', y') = (t, q, y) \<and> filter (counter_match t q y) (number_counters db) \<noteq> []
    then Suc (next_free db t q y) else next_free db t' q' y')"
proof (cases "(t', q', y') = (t, q, y)")
  case True
  then show ?thesis
    by (cases "filter (counter_match t q y) (number_counters db)")
      (auto simp: next_free_def filter_upd_rows split: list.splits dest: filter_ConsD)
next
  case False
  have "filter (counter_match t' q' y') (upd_rows (counter_match t q y) bump_counter (number_counters db)) =
     filter (counter_match t' q' y') (number_counters db)"
    using False by (intro filter_upd_rows_same) (auto simp: counter_match_def bump_counter_def)
  with False show ?thesis by (auto simp: next_free_def)
qed

lemma next_free_create:
  "next_free (create_counter db t q y) t' q' y' = next_free db t' q' y'"
  by (auto simp: create_counter_def next_free_def uuid4_def counter_match_def filter_empty_conv
      split: list.splits)

lemma create_counter_exists:
  "filter (counter_match t q y) (number_counters (create_counter db t q y)) \<noteq> []"
  by (auto simp: create_counter_def uuid4_def filter_empty_conv counter_match_def)

lemma claim_value_fst: "fst (claim_value db t q y) = Some (next_free db t q y)"
  by (simp add: claim_value_def increment_eq create_counter_exists next_free_create)

lemma claim_value_next:
  "next_free (snd (claim_value db t q y)) t' q' y' =
     (if (t', q', y') = (t, q, y) then Suc (next_free db t q y) else next_free db t' q' y')"
  by (auto simp: claim_value_def increment_eq create_counter_exists next_free_upd next_free_create)

interpretation numbering:
  gapless_counter "\<lambda>(t, q, y) db. claim_value db t q y" "\<lambda>db (t, q, y). next_free db t q y"
  by unfold_locales (auto simp: claim_value_fst claim_value_next fun_eq_iff split: if_splits)

lemma claim_value_frame:
  "number_sequences (snd (claim_value db t q y)) = number_sequences db"
  "documents (snd (claim_value db t q y)) = documents db"
  "doc_links (snd (claim_value db t q y)) = doc_links db"
  "pending_events (snd (claim_value db t q y)) = pending_events db"
  "today (snd (claim_value db t q y)) = today db"
  "now (snd (claim_value db t q y)) = now db"
  "uuid_supply db \<le> uuid_supply (snd (claim_value db t q y))"
  by (simp_all add: claim_value_def increment_eq create_counter_exists)
    (simp_all add: create_counter_def uuid4_def)

lemma claim_value_more [simp]:
  "core_db.more (snd (claim_value db t q y)) = core_db.more db"
  by (simp add: claim_value_def increment_eq create_counter_exists)
    (simp add: create_counter_def uuid4_def)

subsection \<open>Claiming a formatted number\<close>

lemma claim_number_eq:
  assumes "sequences_named db t name = [s]"
  shows "claim_number db t name d =
    Inr (format_number (ns_prefix s) (ns_padding s) (next_free db t (ns_id s) (seq_bucket s d))
           (if ns_year_reset s then Some (dyear d) else None),
         snd (claim_value db t (ns_id s) (seq_bucket s d)))"
proof -
  have "claim_value db t (ns_id s) (seq_bucket s d) =
      (Some (next_free db t (ns_id s) (seq_bucket s d)), snd (claim_value db t (ns_id s) (seq_bucket s d)))"
    using claim_value_fst [of db t "ns_id s" "seq_bucket s d"] by (metis prod.collapse)
  moreover have "(case (if ns_year_reset s then Some (dyear d) else None) of Some y \<Rightarrow> y | None \<Rightarrow> NO_YEAR)
      = seq_bucket s d" by (simp add: seq_bucket_def)
  ultimately show ?thesis
    unfolding claim_number_def assms by (simp add: Let_def split: prod.splits) (auto)
qed

lemma claim_number_Inr:
  assumes "claim_number db t name d = Inr (n, db')"
  obtains s where "sequences_named db t name = [s]"
    and "db' = snd (claim_value db t (ns_id s) (seq_bucket s d))"
proof -
  from assms obtain s where s: "sequences_named db t name = [s]"
    by (auto simp: claim_number_def result_simps split: option.splits)
  with assms have "db' = snd (claim_value db t (ns_id s) (seq_bucket s d))"
    by (simp add: claim_number_eq [OF s])
  with s show ?thesis by (rule that)
qed

lemma claim_number_frame:
  assumes "claim_number db t name d = Inr (n, db')"
  shows "number_sequences db' = number_sequences db" "documents db' = documents db"
    "doc_links db' = doc_links db" "pending_events db' = pending_events db"
    "today db' = today db" "now db' = now db"
    "core_db.more db' = core_db.more db" "uuid_supply db \<le> uuid_supply db'"
  using assms by (auto elim!: claim_number_Inr simp: claim_value_frame)

lemma sequences_named_cong:
  "number_sequences db' = number_sequences db \<Longrightarrow>
   sequences_named db' t name = sequences_named db t name"
  by (simp add: sequences_named_def)

lemma claim_run_eq:
  assumes "sequences_named db t name = [s]"
  shows "claim_run db t name ds =
    (let r = numbering.run (map (\<lambda>d. (t, ns_id s, seq_bucket s d)) ds) db
     in Inr (map2 (\<lambda>d v. format_number (ns_prefix s) (ns_padding s) v
                     (if ns_year_reset s then Some (dyear d) else None)) ds (fst r), snd r))"
  using assms
proof (induction ds arbitrary: db)
  case (Cons d ds)
  let ?db1 = "snd (claim_value db t (ns_id s) (seq_bucket s d))"
  have "sequences_named ?db1 t name = [s]"
    using Cons.prems by (simp add: sequences_named_cong [OF claim_value_frame(1)])
  from Cons.IH [OF this] Cons.prems show ?case
    by (simp add: claim_number_eq Let_def claim_value_fst)
qed simp

subsection \<open>Formatted numbers are distinct\<close>

definition str_nat :: "string \<Rightarrow> nat" where
  "str_nat s = foldl (\<lambda>a c. 10 * a + (of_char c - 48)) 0 s"

lemma of_digit_char: "d < 10 \<Longrightarrow> of_char (digit_char d) = 48 + d"
  by (simp add: digit_char_def)

lemma str_nat_nat_str: "str_nat (nat_str n) = n"
proof (induction n rule: nat_str.induct)
  case (1 n)
  show ?case
  proof (cases "n < 10")
    case True
    then show ?thesis by (simp add: nat_str.simps [of n] str_nat_def of_digit_char)
  next
    case False
    with 1 show ?thesis
      by (simp add: nat_str.simps [of n] str_nat_def of_digit_char)
  qed
qed

lemma str_nat_zeros: "str_nat (replicate k (CHR ''0'') @ s) = str_nat s"
  by (induction k) (auto simp: str_nat_def)

lemma zfill_inj: "zfill (nat_str v) p = zfill (nat_str w) q \<Longrightarrow> v = w"
  by (metis str_nat_nat_str str_nat_zeros zfill_def)

lemma nat_str_no_dash: "CHR ''-'' \<notin> set (nat_str n)"
proof (induction n rule: nat_str.induct)
  case (1 n)
  have d: "digit_char d \<noteq> CHR ''-''" if "d < 10" for d
  proof
    assume "digit_char d = CHR ''-''"
    then have "48 + d = of_char (CHR ''-'')" using of_digit_char [OF that] by simp
    then show False by simp
  qed
  show ?case
    using 1 d [of "n mod 10"] d [of n]
    by (cases "n < 10") (auto simp: nat_str.simps [of n] simp del: mod_less)
qed

lemma sep_inj:
  assumes "c \<notin> set xs" and "c \<notin> set xs'" and "xs @ c # ys = xs' @ c # ys'"
  shows "xs = xs' \<and> ys = ys'"
  using assms by (induction xs arbitrary: xs') (auto simp: Cons_eq_append_conv append_eq_Cons_conv)

lemma int_str_inj: "0 \<le> y \<Longrightarrow> 0 \<le> y' \<Longrightarrow> int_str y = int_str y' \<Longrightarrow> y = y'"
  by (metis int_str_def linorder_not_less nat_eq_iff str_nat_nat_str)

lemma format_number_inj:
  assumes "format_number prefix padding v (Some y) = format_number prefix padding w (Some z)"
    and "0 \<le> y" and "0 \<le> z"
  shows "v = w \<and> y = z"
proof -
  have "int_str y @ CHR ''-'' # zfill (nat_str v) padding = int_str z @ CHR ''-'' # zfill (nat_str w) padding"
    using assms(1) by (simp add: format_number_def)
  moreover have "CHR ''-'' \<notin> set (int_str y)" "CHR ''-'' \<notin> set (int_str z)"
    using assms(2,3) by (simp_all add: int_str_def nat_str_no_dash)
  ultimately have "int_str y = int_str z \<and> zfill (nat_str v) padding = zfill (nat_str w) padding"
    by (intro sep_inj)
  then show ?thesis using assms(2,3) int_str_inj zfill_inj by blast
qed

lemma format_number_inj_plain:
  "format_number prefix padding v None = format_number prefix padding w None \<Longrightarrow> v = w"
  by (auto simp: format_number_def dest: zfill_inj)

subsection \<open>Properties\<close>

text \<open>
  C20. Numbers without gaps: a batch of claims on a configured sequence always succeeds, and the
  i-th claim gets its year's next free value plus the number of earlier claims of the batch in
  the same year, whatever the order of the dates; afterwards every year's counter has advanced by
  the number of its claims.
\<close>

theorem claims_are_gapless:
  assumes "sequences_named db t name = [s]"
  shows "\<exists>ns db'. claim_run db t name ds = Inr (ns, db') \<and> length ns = length ds \<and>
    (\<forall>i < length ds. ns ! i = format_number (ns_prefix s) (ns_padding s)
       (next_free db t (ns_id s) (seq_bucket s (ds ! i)) +
        count_list (map (seq_bucket s) (take i ds)) (seq_bucket s (ds ! i)))
       (if ns_year_reset s then Some (dyear (ds ! i)) else None)) \<and>
    (\<forall>y. next_free db' t (ns_id s) y =
       next_free db t (ns_id s) y + count_list (map (seq_bucket s) ds) y)"
proof -
  let ?k = "\<lambda>d. (t, ns_id s, seq_bucket s d)" and ?r = "numbering.run (map (\<lambda>d. (t, ns_id s, seq_bucket s d)) ds) db"
  have cnt: "count_list (map ?k xs) (t, ns_id s, y) = count_list (map (seq_bucket s) xs) y" for xs y
    by (induction xs) auto
  have "fst ?r ! i = next_free db t (ns_id s) (seq_bucket s (ds ! i)) +
      count_list (map (seq_bucket s) (take i ds)) (seq_bucket s (ds ! i))" if "i < length ds" for i
    using numbering.run_nth [of i "map ?k ds" db] that by (simp add: take_map cnt)
  moreover have "next_free (snd ?r) t (ns_id s) y =
      next_free db t (ns_id s) y + count_list (map (seq_bucket s) ds) y" for y
    using numbering.run_next [of "map ?k ds" db "(t, ns_id s, y)"] by (simp add: cnt)
  ultimately show ?thesis unfolding claim_run_eq [OF assms] by (simp add: Let_def)
qed

definition sample_seq :: number_sequence where
  "sample_seq = \<lparr>ns_id = 3, ns_tenant = 1, ns_name = ''finance.journal'', ns_prefix = ''JE'',
     ns_padding = 5, ns_year_reset = True\<rparr>"

definition sample_numbers :: "nat core_db" where
  "sample_numbers = \<lparr>uuid_supply = 5, today = Date 2024 1 1, now = 0, number_sequences = [sample_seq],
     number_counters = [\<lparr>nc_id = 4, nc_tenant = 1, nc_sequence = 3, nc_year = 2024, nc_next_value = 8\<rparr>],
     documents = [], doc_links = [], pending_events = []\<rparr>"

lemma sample_numbers_seq: "sequences_named sample_numbers 1 ''finance.journal'' = [sample_seq]"
  by (simp add: sequences_named_def sample_numbers_def sample_seq_def)

theorem claims_are_gapless_witness:
  "\<exists>ns db'. claim_run sample_numbers 1 ''finance.journal'' [Date 2024 3 1, Date 2023 1 1, Date 2024 4 1] = Inr (ns, db') \<and>
     next_free db' 1 3 2024 = 10"
proof -
  have "next_free sample_numbers 1 (ns_id sample_seq) 2024 = 8"
    by (simp add: next_free_def sample_numbers_def sample_seq_def counter_match_def)
  then show ?thesis
    using claims_are_gapless [OF sample_numbers_seq, of "[Date 2024 3 1, Date 2023 1 1, Date 2024 4 1]"]
    by (auto simp: seq_bucket_def sample_seq_def)
qed

text \<open>
  No number is handed out twice: the formatted numbers of a batch of claims on one sequence
  are distinct, across years too (for years from 0 on), although the padding is only a minimum.
\<close>

theorem claimed_numbers_distinct:
  assumes s: "sequences_named db t name = [s]" and years: "\<forall>d \<in> set ds. 0 \<le> dyear d"
    and run: "claim_run db t name ds = Inr (ns, db')"
  shows "distinct ns"
proof -
  let ?b = "seq_bucket s"
  let ?v = "\<lambda>i. next_free db t (ns_id s) (?b (ds ! i)) + count_list (map ?b (take i ds)) (?b (ds ! i))"
  let ?y = "\<lambda>i. if ns_year_reset s then Some (dyear (ds ! i)) else None"
  have cnt: "count_list (map (\<lambda>d. (t, ns_id s, ?b d)) xs) (t, ns_id s, y) = count_list (map ?b xs) y" for xs y
    by (induction xs) auto
  have len: "length ns = length ds" and nth: "\<And>i. i < length ds \<Longrightarrow>
      ns ! i = format_number (ns_prefix s) (ns_padding s) (?v i) (?y i)"
    using run numbering.run_nth [of _ "map (\<lambda>d. (t, ns_id s, ?b d)) ds" db]
    unfolding claim_run_eq [OF s] by (auto simp: Let_def take_map cnt)
  have "ns ! i \<noteq> ns ! j" if ij: "i < j" "j < length ds" for i j
  proof
    assume eq: "ns ! i = ns ! j"
    have "?v i = ?v j \<and> ?b (ds ! i) = ?b (ds ! j)"
    proof (cases "ns_year_reset s")
      case True
      then show ?thesis
        using format_number_inj [of "ns_prefix s" "ns_padding s" "?v i" "dyear (ds ! i)" "?v j" "dyear (ds ! j)"]
          eq nth ij years by (auto simp: seq_bucket_def)
    next
      case False
      then show ?thesis
        using format_number_inj_plain [of "ns_prefix s" "ns_padding s" "?v i" "?v j"] eq nth ij
        by (auto simp: seq_bucket_def)
    qed
    then have same: "count_list (map ?b (take i ds)) (?b (ds ! i)) = count_list (map ?b (take j ds)) (?b (ds ! i))"
      by (metis add_left_cancel)
    have "take (Suc i) ds @ take (j - Suc i) (drop (Suc i) ds) = take j ds"
      using ij by (metis Suc_leI add_diff_inverse_nat linorder_not_less take_add)
    then have "count_list (map ?b (take j ds)) (?b (ds ! i)) \<ge> count_list (map ?b (take (Suc i) ds)) (?b (ds ! i))"
      by (metis count_list_append le_add1 map_append)
    moreover have "count_list (map ?b (take (Suc i) ds)) (?b (ds ! i)) =
        Suc (count_list (map ?b (take i ds)) (?b (ds ! i)))"
      using ij by (simp add: take_Suc_conv_app_nth count_list_append)
    ultimately show False using same by simp
  qed
  then show ?thesis unfolding distinct_conv_nth len by (metis linorder_neqE_nat)
qed

theorem claimed_numbers_distinct_witness:
  "\<exists>ns db'. claim_run sample_numbers 1 ''finance.journal'' [Date 2024 3 1, Date 2023 1 1] = Inr (ns, db') \<and> distinct ns"
proof -
  obtain ns db' where "claim_run sample_numbers 1 ''finance.journal'' [Date 2024 3 1, Date 2023 1 1] = Inr (ns, db')"
    unfolding claim_run_eq [OF sample_numbers_seq] by (auto simp: Let_def)
  moreover from claimed_numbers_distinct [OF sample_numbers_seq _ this] have "distinct ns" by simp
  ultimately show ?thesis by blast
qed

end
