(* ===== verification/Docflow.thy ===== *)
theory Docflow
  imports Core_Db
begin

text \<open>
  Model of \<^verbatim>\<open>backend/app/core/docflow.py\<close>: the document registry, its predecessor to successor
  links and the flow chain around a document. The table constraints (one registry row per
  business document, one document per number, one edge per pair, no self-edge, both endpoints in
  the tenant) are the checks the writes run. The recursive CTE of \<open>get_document_chain\<close> is
  \<open>reach\<close>; the lemmas show what it computes: everything reachable within 20 edges.
\<close>

subsection \<open>The registry\<close>

definition number_taken :: "document list \<Rightarrow> uuid \<Rightarrow> string \<Rightarrow> bool" where
  "number_taken docs tenant n \<longleftrightarrow>
     (\<exists>d \<in> set docs. doc_tenant d = tenant \<and> doc_number d = Some n)"

definition register_document ::
  "('ev, 'm) core_db_scheme \<Rightarrow> uuid \<Rightarrow> string \<Rightarrow> uuid \<Rightarrow> string option \<Rightarrow> string option \<Rightarrow>
   (document \<times> ('ev, 'm) core_db_scheme) result" where
  "register_document db tenant dtype did number status =
     (if \<exists>d \<in> set (documents db). doc_tenant d = tenant \<and> doc_type d = dtype \<and> doc_id d = did
      then Inl (IntegrityError ''uq_core_documents_tenant_id_doc_type_doc_id'')
      else if (case number of None \<Rightarrow> False | Some n \<Rightarrow> number_taken (documents db) tenant n)
      then Inl (IntegrityError ''uq_core_documents_tenant_id_doc_number'')
      else case uuid4 db of (i, db1) \<Rightarrow>
        let d = \<lparr>doc_pk = i, doc_tenant = tenant, doc_type = dtype, doc_id = did,
                 doc_number = number, doc_status = status\<rparr>
        in Inr (d, db1\<lparr>documents := documents db1 @ [d]\<rparr>))"

definition doc_row :: "uuid \<Rightarrow> uuid \<Rightarrow> document \<Rightarrow> bool" where
  "doc_row tenant i d \<longleftrightarrow> doc_tenant d = tenant \<and> doc_pk d = i"

definition set_document_status ::
  "('ev, 'm) core_db_scheme \<Rightarrow> uuid \<Rightarrow> uuid \<Rightarrow> string option \<Rightarrow> string option \<Rightarrow>
   (('ev, 'm) core_db_scheme) result" where
  "set_document_status db tenant i status number =
     (if status = None \<and> number = None then Inr db
      else
        let docs' = upd_rows (doc_row tenant i)
              (\<lambda>d. d\<lparr>doc_status := (case status of None \<Rightarrow> doc_status d | Some s \<Rightarrow> Some s),
                     doc_number := (case number of None \<Rightarrow> doc_number d | Some n \<Rightarrow> Some n)\<rparr>)
              (documents db)
        in case number of
             None \<Rightarrow> Inr (db\<lparr>documents := docs'\<rparr>)
           | Some n \<Rightarrow>
               if (\<exists>d \<in> set (documents db). doc_row tenant i d) \<and>
                  number_taken (filter (\<lambda>d. \<not> doc_row tenant i d) (documents db)) tenant n
               then Inl (IntegrityError ''uq_core_documents_tenant_id_doc_number'')
               else Inr (db\<lparr>documents := docs'\<rparr>))"

definition link_documents ::
  "('ev, 'm) core_db_scheme \<Rightarrow> uuid \<Rightarrow> uuid \<Rightarrow> uuid \<Rightarrow> string option \<Rightarrow>
   (document_link \<times> ('ev, 'm) core_db_scheme) result" where
  "link_documents db tenant predecessor successor link_type =
     (if predecessor = successor then Inl (IntegrityError ''ck_core_doc_links_no_self_link'')
      else if \<exists>l \<in> set (doc_links db). dl_tenant l = tenant \<and>
           dl_predecessor l = predecessor \<and> dl_successor l = successor
      then Inl (IntegrityError ''uq_core_doc_links_tenant_id_predecessor_document_id_successor'')
      else if \<not> (\<exists>d \<in> set (documents db). doc_row tenant predecessor d)
      then Inl (IntegrityError ''fk_core_doc_links_tenant_id_core_documents'')
      else if \<not> (\<exists>d \<in> set (documents db). doc_row tenant successor d)
      then Inl (IntegrityError ''fk_core_doc_links_successor_document_id_core_documents'')
      else case uuid4 db of (i, db1) \<Rightarrow>
        let l = \<lparr>dl_id = i, dl_tenant = tenant, dl_predecessor = predecessor,
                 dl_successor = successor, dl_link_type = link_type\<rparr>
        in Inr (l, db1\<lparr>doc_links := doc_links db1 @ [l]\<rparr>))"

subsection \<open>The flow chain\<close>

definition MAX_CHAIN_DEPTH :: nat where "MAX_CHAIN_DEPTH = 20"

definition near_end :: "bool \<Rightarrow> document_link \<Rightarrow> uuid" where
  "near_end forward l = (if forward then dl_successor l else dl_predecessor l)"

definition far_end :: "bool \<Rightarrow> document_link \<Rightarrow> uuid" where
  "far_end forward l = (if forward then dl_predecessor l else dl_successor l)"

text \<open>
  The rows of the recursive CTE below one row: \<open>current\<close> is its document, \<open>depth_left\<close> what is
  left of the depth cap and \<open>path\<close> the visited ids. (The program keeps the path as a
  comma-separated string and tests it with \<^verbatim>\<open>NOT LIKE\<close>; identifiers have one fixed length and no
  comma, so the substring test is membership.)
\<close>

primrec reach :: "document_link list \<Rightarrow> uuid \<Rightarrow> bool \<Rightarrow> nat \<Rightarrow> uuid \<Rightarrow> uuid list \<Rightarrow> uuid list" where
  "reach links tenant forward 0 current path = [current]"
| "reach links tenant forward (Suc depth_left) current path =
     current # concat (map (\<lambda>l. reach links tenant forward depth_left
                                (far_end forward l) (far_end forward l # path))
       (filter (\<lambda>l. dl_tenant l = tenant \<and> near_end forward l = current \<and>
                    far_end forward l \<notin> set path) links))"

definition reachability_cte :: "document_link list \<Rightarrow> uuid \<Rightarrow> uuid \<Rightarrow> bool \<Rightarrow> uuid list" where
  "reachability_cte links tenant start forward =
     reach links tenant forward MAX_CHAIN_DEPTH start [start]"

record chain_node =
  cn_document_id :: uuid
  cn_doc_type :: string
  cn_doc_id :: uuid
  cn_doc_number :: "string option"
  cn_status :: "string option"

record chain_edge =
  ce_predecessor :: uuid
  ce_successor :: uuid
  ce_link_type :: "string option"

definition get_document_chain ::
  "('ev, 'm) core_db_scheme \<Rightarrow> uuid \<Rightarrow> uuid \<Rightarrow> chain_node list \<times> chain_edge list" where
  "get_document_chain db tenant i =
     (let ancestors = reachability_cte (doc_links db) tenant i False;
          descendants = reachability_cte (doc_links db) tenant i True;
          rows = filter (\<lambda>d. doc_tenant d = tenant \<and>
                   (doc_pk d \<in> set ancestors \<or> doc_pk d \<in> set descendants)) (documents db)
      in if rows = [] then ([], [])
      else
        let present = set (map doc_pk rows);
            links = filter (\<lambda>l. dl_tenant l = tenant \<and>
                      dl_predecessor l \<in> present \<and> dl_successor l \<in> present) (doc_links db)
        in (map (\<lambda>d. \<lparr>cn_document_id = doc_pk d, cn_doc_type = doc_type d, cn_doc_id = doc_id d,
                       cn_doc_number = doc_number d, cn_status = doc_status d\<rparr>) rows,
            map (\<lambda>l. \<lparr>ce_predecessor = dl_predecessor l, ce_successor = dl_successor l,
                       ce_link_type = dl_link_type l\<rparr>) links))"

subsection \<open>What the traversal computes\<close>

definition flow_edges :: "document_link list \<Rightarrow> uuid \<Rightarrow> bool \<Rightarrow> (uuid \<times> uuid) set" where
  "flow_edges links tenant forward =
     {(near_end forward l, far_end forward l) | l. l \<in> set links \<and> dl_tenant l = tenant}"

lemma reach_sound:
  "y \<in> set (reach links t f d x path) \<Longrightarrow> \<exists>n \<le> d. (x, y) \<in> flow_edges links t f ^^ n"
proof (induction d arbitrary: x path)
  case 0
  then show ?case by simp
next
  case (Suc d)
  from Suc.prems consider "y = x"
    | l where "l \<in> set links" "dl_tenant l = t" "near_end f l = x"
        "y \<in> set (reach links t f d (far_end f l) (far_end f l # path))"
    by auto
  then show ?case
  proof cases
    case 1
    then show ?thesis by (intro exI [of _ 0]) simp
  next
    case 2
    from Suc.IH [OF 2(4)] obtain n where n: "n \<le> d" "(far_end f l, y) \<in> flow_edges links t f ^^ n"
      by blast
    have "(x, far_end f l) \<in> flow_edges links t f" using 2 by (auto simp: flow_edges_def)
    with n have "(x, y) \<in> flow_edges links t f ^^ Suc n" by (meson relpow_Suc_I2)
    with n(1) show ?thesis by (intro exI [of _ "Suc n"]) simp
  qed
qed

text \<open>A walk without repeated documents is found whatever path led to its start.\<close>

lemma reach_complete_simple:
  "successively (\<lambda>a b. (a, b) \<in> flow_edges links t f) (x # xs) \<Longrightarrow> distinct (x # xs) \<Longrightarrow>
   set xs \<inter> set path = {} \<Longrightarrow> length xs \<le> d \<Longrightarrow> last (x # xs) \<in> set (reach links t f d x path)"
proof (induction xs arbitrary: d x path)
  case Nil
  then show ?case by (cases d) auto
next
  case (Cons z xs)
  from Cons.prems(4) obtain d' where d: "d = Suc d'" by (cases d) auto
  from Cons.prems(1) obtain l where l: "l \<in> set links" "dl_tenant l = t" "near_end f l = x" "far_end f l = z"
    by (auto simp: flow_edges_def)
  have "last (z # xs) \<in> set (reach links t f d' z (z # path))"
    using Cons.prems d by (intro Cons.IH) auto
  moreover have "z \<notin> set path" using Cons.prems by auto
  ultimately show ?case using l by (auto simp: d)
qed

lemma relpow_walk:
  "(x, y) \<in> R ^^ n \<Longrightarrow> \<exists>xs. length xs = n \<and> successively (\<lambda>a b. (a, b) \<in> R) (x # xs) \<and> last (x # xs) = y"
proof (induction n arbitrary: x)
  case 0
  then show ?case by simp
next
  case (Suc n)
  then obtain z where z: "(x, z) \<in> R" "(z, y) \<in> R ^^ n" by (meson relpow_Suc_D2)
  from Suc.IH [OF z(2)] obtain xs where "length xs = n" "successively (\<lambda>a b. (a, b) \<in> R) (z # xs)"
    "last (z # xs) = y" by blast
  with z(1) show ?case by (intro exI [of _ "z # xs"]) auto
qed

text \<open>Cutting the loops out of a walk leaves a shorter walk without repetition.\<close>

lemma simple_walk:
  "successively R (x # xs) \<Longrightarrow>
   \<exists>ys. successively R (x # ys) \<and> distinct (x # ys) \<and> last (x # ys) = last (x # xs) \<and>
     length ys \<le> length xs"
proof (induction xs arbitrary: x rule: length_induct)
  case (1 xs)
  show ?case
  proof (cases "x \<in> set xs")
    case True
    then obtain as bs where xs: "xs = as @ x # bs" by (meson split_list)
    have "successively R (x # bs)" using 1(2) by (simp add: xs successively_append_iff successively_Cons)
    with 1(1) xs obtain ys where "successively R (x # ys)" "distinct (x # ys)"
      "last (x # ys) = last (x # bs)" "length ys \<le> length bs" by force
    with xs show ?thesis by (intro exI [of _ ys]) auto
  next
    case False
    show ?thesis
    proof (cases xs)
      case (Cons z zs)
      then have "successively R (z # zs)" using 1(2) by simp
      with 1(1) Cons obtain ys where ys: "successively R (z # ys)" "distinct (z # ys)"
        "last (z # ys) = last (z # zs)" "length ys \<le> length zs" by force
      show ?thesis
      proof (cases "x \<in> set (z # ys)")
        case True
        then obtain as bs where split: "z # ys = as @ x # bs" by (meson split_list)
        have "successively R (x # bs)" "distinct (x # bs)" "last (x # bs) = last (z # ys)"
          using ys(1,2) unfolding split by (auto simp: successively_append_iff)
        moreover have "length bs \<le> length xs"
          using arg_cong [OF split, of length] ys(4) Cons by simp
        ultimately show ?thesis using ys(3) Cons by (intro exI [of _ bs]) auto
      next
        case False
        with ys 1(2) Cons show ?thesis by (intro exI [of _ "z # ys"]) auto
      qed
    qed (intro exI [of _ "[]"], simp)
  qed
qed

lemma set_reachability_cte:
  "set (reachability_cte links t x f) =
     {y. \<exists>n \<le> MAX_CHAIN_DEPTH. (x, y) \<in> flow_edges links t f ^^ n}"
proof (intro equalityI subsetI)
  fix y assume "y \<in> set (reachability_cte links t x f)"
  then show "y \<in> {y. \<exists>n \<le> MAX_CHAIN_DEPTH. (x, y) \<in> flow_edges links t f ^^ n}"
    unfolding reachability_cte_def by (auto dest: reach_sound)
next
  fix y assume "y \<in> {y. \<exists>n \<le> MAX_CHAIN_DEPTH. (x, y) \<in> flow_edges links t f ^^ n}"
  then obtain n where n: "n \<le> MAX_CHAIN_DEPTH" "(x, y) \<in> flow_edges links t f ^^ n" by blast
  from relpow_walk [OF n(2)] obtain xs where xs: "length xs = n"
    "successively (\<lambda>a b. (a, b) \<in> flow_edges links t f) (x # xs)" "last (x # xs) = y" by blast
  from simple_walk [OF xs(2)] obtain ys where "successively (\<lambda>a b. (a, b) \<in> flow_edges links t f) (x # ys)"
    "distinct (x # ys)" "last (x # ys) = y" "length ys \<le> n" using xs by auto
  with n(1) show "y \<in> set (reachability_cte links t x f)"
    unfolding reachability_cte_def
    using reach_complete_simple [of links t f x ys "[x]" MAX_CHAIN_DEPTH] by auto
qed

text \<open>A link of two registered documents is an edge of the chain around its predecessor.\<close>

lemma linked_in_chain:
  assumes l: "l \<in> set (doc_links db)" "dl_tenant l = t"
    and docs: "\<exists>d \<in> set (documents db). doc_row t (dl_predecessor l) d"
      "\<exists>d \<in> set (documents db). doc_row t (dl_successor l) d"
  shows "\<lparr>ce_predecessor = dl_predecessor l, ce_successor = dl_successor l, ce_link_type = dl_link_type l\<rparr>
    \<in> set (snd (get_document_chain db t (dl_predecessor l)))"
proof -
  let ?x = "dl_predecessor l" and ?y = "dl_successor l"
  have "(?x, ?y) \<in> flow_edges (doc_links db) t False"
    using l by (auto simp: flow_edges_def near_end_def far_end_def)
  then have "(?x, ?y) \<in> flow_edges (doc_links db) t False ^^ 1" by simp
  then have y: "?y \<in> set (reachability_cte (doc_links db) t ?x False)"
    unfolding set_reachability_cte MAX_CHAIN_DEPTH_def by (auto intro!: exI [of _ "1"])
  have x: "?x \<in> set (reachability_cte (doc_links db) t ?x False)"
    unfolding set_reachability_cte by (auto intro!: exI [of _ "0"])
  define rows where "rows = filter (\<lambda>d. doc_tenant d = t \<and>
      (doc_pk d \<in> set (reachability_cte (doc_links db) t ?x False) \<or>
       doc_pk d \<in> set (reachability_cte (doc_links db) t ?x True))) (documents db)"
  have "?x \<in> doc_pk ` set rows" "?y \<in> doc_pk ` set rows"
    using docs x y by (force simp: rows_def doc_row_def)+
  moreover from this have "rows \<noteq> []" by auto
  ultimately show ?thesis
    using l by (simp add: get_document_chain_def rows_def [symmetric] Let_def)
qed

subsection \<open>Properties\<close>


text \<open>
  The flow chain never leaves the tenant: every node of the chain is a document of the tenant
  and every edge is one of its links between two such nodes, whatever id is asked for.
\<close>

theorem chain_stays_in_tenant:
  assumes "get_document_chain db t i = (nodes, edges)"
  shows "(\<forall>n \<in> set nodes. \<exists>d \<in> set (documents db). doc_tenant d = t \<and> doc_pk d = cn_document_id n) \<and>
    (\<forall>e \<in> set edges. (\<exists>l \<in> set (doc_links db). dl_tenant l = t \<and>
        dl_predecessor l = ce_predecessor e \<and> dl_successor l = ce_successor e) \<and>
      ce_predecessor e \<in> cn_document_id ` set nodes \<and> ce_successor e \<in> cn_document_id ` set nodes)"
proof -
  define rows where "rows = filter (\<lambda>d. doc_tenant d = t \<and>
      (doc_pk d \<in> set (reachability_cte (doc_links db) t i False) \<or>
       doc_pk d \<in> set (reachability_cte (doc_links db) t i True))) (documents db)"
  show ?thesis
  proof (cases "rows = []")
    case True
    with assms show ?thesis by (simp add: get_document_chain_def rows_def [symmetric])
  next
    case False
    have st: "set rows \<subseteq> {d \<in> set (documents db). doc_tenant d = t}" by (auto simp: rows_def)
    from False assms have nd: "nodes = map (\<lambda>d. \<lparr>cn_document_id = doc_pk d, cn_doc_type = doc_type d,
           cn_doc_id = doc_id d, cn_doc_number = doc_number d, cn_status = doc_status d\<rparr>) rows"
      and edges: "edges = map (\<lambda>l. \<lparr>ce_predecessor = dl_predecessor l, ce_successor = dl_successor l,
           ce_link_type = dl_link_type l\<rparr>) (filter (\<lambda>l. dl_tenant l = t \<and>
             dl_predecessor l \<in> doc_pk ` set rows \<and> dl_successor l \<in> doc_pk ` set rows) (doc_links db))"
      by (auto simp: get_document_chain_def rows_def [symmetric] Let_def)
    have nodes: "cn_document_id ` set nodes = doc_pk ` set rows" unfolding nd by (simp add: image_image)
    have "\<exists>d \<in> set (documents db). doc_tenant d = t \<and> doc_pk d = cn_document_id n" if "n \<in> set nodes" for n
    proof -
      have "cn_document_id n \<in> doc_pk ` set rows" using that nodes by blast
      with st show ?thesis by auto
    qed
    then show ?thesis unfolding nodes edges by auto
  qed
qed

definition sample_flow :: "nat core_db" where
  "sample_flow = \<lparr>uuid_supply = 9, today = Date 2024 1 1, now = 0, number_sequences = [], number_counters = [],
     documents = [\<lparr>doc_pk = 1, doc_tenant = 1, doc_type = ''a'', doc_id = 5, doc_number = None, doc_status = None\<rparr>,
       \<lparr>doc_pk = 2, doc_tenant = 1, doc_type = ''b'', doc_id = 6, doc_number = None, doc_status = None\<rparr>,
       \<lparr>doc_pk = 3, doc_tenant = 1, doc_type = ''b'', doc_id = 7, doc_number = None, doc_status = None\<rparr>],
     doc_links = [\<lparr>dl_id = 7, dl_tenant = 1, dl_predecessor = 1, dl_successor = 2, dl_link_type = None\<rparr>,
       \<lparr>dl_id = 8, dl_tenant = 1, dl_predecessor = 1, dl_successor = 3, dl_link_type = None\<rparr>],
     pending_events = []\<rparr>"

theorem chain_stays_in_tenant_witness:
  "cn_document_id ` set (fst (get_document_chain sample_flow 1 2)) \<subseteq>
     doc_pk ` {d \<in> set (documents sample_flow). doc_tenant d = 1}"
  using chain_stays_in_tenant [of sample_flow 1 2 "fst (get_document_chain sample_flow 1 2)"
      "snd (get_document_chain sample_flow 1 2)"] by force

text \<open>
  The union of the two directions is not the connected component: two documents with a common
  predecessor do not see each other.
\<close>

lemma chain_misses_siblings:
  "map cn_document_id (fst (get_document_chain sample_flow 1 2)) = [1, 2]"
  by code_simp

end
