(* ===== verification/Journal.thy ===== *)
theory Journal
  imports Journal_Db Numbering Docflow
begin

text \<open>
  Model of the posting engine: \<^verbatim>\<open>finance/service/journal.py\<close>, \<^verbatim>\<open>journal_validate.py\<close> and
  \<^verbatim>\<open>journal_read.py\<close>. \<open>create_draft_entry\<close>, \<open>post_entry\<close> and \<open>reverse_entry\<close> are the whole
  handlers: validation, document registration, translation, number claim, the two flushes,
  document status and links, and the published events.
\<close>

subsection \<open>Payloads and validation\<close>

record journal_line_create =
  jlc_account :: uuid
  jlc_description :: "string option"
  jlc_debit :: decimal
  jlc_credit :: decimal
  jlc_cost_center :: "uuid option"
  jlc_profit_center :: "uuid option"
  jlc_project :: "uuid option"
  jlc_item :: "uuid option"
  jlc_partner_type :: "string option"
  jlc_partner :: "uuid option"

record journal_entry_create =
  jec_posting_date :: date
  jec_currency :: string
  jec_description :: "string option"
  jec_document_type :: document_type
  jec_lines :: "journal_line_create list"

definition assert_line_one_sided :: "journal_line_create \<Rightarrow> unit result" where
  "assert_line_one_sided l =
     (if one_side (jlc_debit l) (jlc_credit l) then Inr ()
      else Inl (ValidationFailedError ''finance.journal_line_not_one_sided''))"

definition require_postable_accounts :: "'m fin_db_scheme \<Rightarrow> uuid \<Rightarrow> uuid list \<Rightarrow> unit result" where
  "require_postable_accounts db tenant account_ids =
     (let rows = filter (\<lambda>a. acc_tenant a = tenant \<and> acc_id a \<in> set account_ids) (accounts db)
      in if \<exists>i \<in> set account_ids. i \<notin> acc_id ` set rows
         then Inl (ValidationFailedError ''finance.journal_account_not_found'')
         else if \<exists>a \<in> set rows. \<not> acc_is_postable a
         then Inl (ValidationFailedError ''finance.journal_account_not_postable'')
         else Inr ())"

definition existing_center_ids :: "center list \<Rightarrow> uuid \<Rightarrow> uuid list \<Rightarrow> uuid list" where
  "existing_center_ids centers tenant ids =
     map fst (filter (\<lambda>(i, t). t = tenant \<and> i \<in> set ids) centers)"

definition require_dimensions :: "'m fin_db_scheme \<Rightarrow> uuid \<Rightarrow> journal_entry_create \<Rightarrow> unit result" where
  "require_dimensions db tenant payload =
     (let cost_center_ids = List.map_filter jlc_cost_center (jec_lines payload);
          profit_center_ids = List.map_filter jlc_profit_center (jec_lines payload)
      in if \<exists>i \<in> set cost_center_ids.
              i \<notin> set (existing_center_ids (cost_centers db) tenant cost_center_ids)
         then Inl (ValidationFailedError ''finance.journal_cost_center_not_found'')
         else if \<exists>i \<in> set profit_center_ids.
              i \<notin> set (existing_center_ids (profit_centers db) tenant profit_center_ids)
         then Inl (ValidationFailedError ''finance.journal_profit_center_not_found'')
         else Inr ())"

subsection \<open>Reads\<close>

definition load_lines :: "'m fin_db_scheme \<Rightarrow> uuid \<Rightarrow> uuid \<Rightarrow> journal_line list" where
  "load_lines db tenant i =
     sort_key jl_number (filter (\<lambda>l. jl_tenant l = tenant \<and> jl_entry l = i) (journal_lines db))"

definition get_entry :: "'m fin_db_scheme \<Rightarrow> uuid \<Rightarrow> uuid \<Rightarrow> journal_entry result" where
  "get_entry db tenant i =
     (case find_row je_id i (journal_entries db) of
        None \<Rightarrow> Inl (NotFoundError ''finance.journal_entry_not_found'')
      | Some e \<Rightarrow>
          if je_tenant e \<noteq> tenant then Inl (NotFoundError ''finance.journal_entry_not_found'')
          else Inr e)"

definition get_entry_with_lines ::
  "'m fin_db_scheme \<Rightarrow> uuid \<Rightarrow> uuid \<Rightarrow> (journal_entry \<times> journal_line list) result" where
  "get_entry_with_lines db tenant i =
     bindr (get_entry db tenant i) (\<lambda>e. Inr (e, load_lines db tenant i))"

definition entry_totals :: "journal_line list \<Rightarrow> decimal \<times> decimal" where
  "entry_totals lines = (sum_list (map jl_fdebit lines), sum_list (map jl_fcredit lines))"

subsection \<open>Draft entries\<close>

definition JOURNAL_ENTRY_DOC_TYPE :: string where "JOURNAL_ENTRY_DOC_TYPE = ''finance.journal_entry''"
definition JOURNAL_SEQUENCE_NAME :: string where "JOURNAL_SEQUENCE_NAME = ''finance.journal''"
definition JOURNAL_NUMBER_PREFIX :: string where "JOURNAL_NUMBER_PREFIX = ''JE''"
definition JOURNAL_NUMBER_PADDING :: int where "JOURNAL_NUMBER_PADDING = 5"
definition REVERSES_LINK :: string where "REVERSES_LINK = ''reverses''"

text \<open>\<open>functional_amounts or [...]\<close>: an empty list counts as absent.\<close>

definition functional_sides ::
  "(decimal \<times> decimal) list option \<Rightarrow> journal_line_create list \<Rightarrow> (decimal \<times> decimal) list" where
  "functional_sides functional_amounts lines =
     (case functional_amounts of
        Some (s # ss) \<Rightarrow> s # ss
      | _ \<Rightarrow> map (\<lambda>l. (jlc_debit l, jlc_credit l)) lines)"

definition draft_line ::
  "uuid \<Rightarrow> uuid \<Rightarrow> string \<Rightarrow> nat \<Rightarrow> journal_line_create \<Rightarrow> decimal \<times> decimal \<Rightarrow> journal_line" where
  "draft_line tenant entry_id cur n l side =
     \<lparr>jl_id = 0, jl_tenant = tenant, jl_entry = entry_id, jl_number = n,
      jl_account = jlc_account l, jl_description = jlc_description l,
      jl_tdebit = jlc_debit l, jl_tcredit = jlc_credit l,
      jl_fdebit = fst side, jl_fcredit = snd side, jl_currency = cur,
      jl_cost_center = jlc_cost_center l, jl_profit_center = jlc_profit_center l,
      jl_project = jlc_project l, jl_item = jlc_item l,
      jl_partner_type = jlc_partner_type l, jl_partner = jlc_partner l,
      jl_is_posted = False, jl_posting_date = None, jl_period = None\<rparr>"

definition create_draft_entry ::
  "'m fin_db_scheme \<Rightarrow> uuid \<Rightarrow> journal_entry_create \<Rightarrow> (decimal \<times> decimal) list option \<Rightarrow>
   (journal_entry \<times> 'm fin_db_scheme) result" where
  "create_draft_entry db tenant payload functional_amounts =
     (if length (jec_lines payload) < 2
      then Inl (ValidationFailedError ''finance.journal_too_few_lines'')
      else bindr (fold_result (\<lambda>l _. assert_line_one_sided l) (jec_lines payload) ()) (\<lambda>_.
      let sides = functional_sides functional_amounts (jec_lines payload)
      in if sum_list (map fst sides) \<noteq> sum_list (map snd sides)
      then Inl (ValidationFailedError ''finance.journal_unbalanced'')
      else bindr (require_postable_accounts db tenant (map jlc_account (jec_lines payload))) (\<lambda>_.
      bindr (require_dimensions db tenant payload) (\<lambda>_.
      case uuid4 db of (entry_id, db1) \<Rightarrow>
      bindr (register_document db1 tenant JOURNAL_ENTRY_DOC_TYPE entry_id None
               (Some (entry_status_str DRAFT))) (\<lambda>(document, db2).
      let entry = \<lparr>je_id = entry_id, je_tenant = tenant, je_document = doc_pk document,
            je_number = None, je_posting_date = jec_posting_date payload, je_period = None,
            je_document_type = jec_document_type payload, je_currency = jec_currency payload,
            je_description = jec_description payload, je_status = DRAFT, je_reverses = None,
            je_reversed_by = None, je_posted_at = None\<rparr>
      in if length sides < length (jec_lines payload) then Inl (PyError ''IndexError'')
      else bindr (insert_entry entry db2) (\<lambda>db3.
      bindr (fold_result insert_line
               (map (\<lambda>(n, l, s). draft_line tenant entry_id (jec_currency payload) n l s)
                  (zip [1..<Suc (length (jec_lines payload))] (zip (jec_lines payload) sides))) db3)
        (\<lambda>db4. Inr (entry, db4))))))))"

subsection \<open>Posting\<close>

definition denormalize :: "journal_entry \<Rightarrow> fiscal_period \<Rightarrow> journal_line \<Rightarrow> journal_line" where
  "denormalize entry p l =
     l\<lparr>jl_is_posted := True, jl_posting_date := Some (je_posting_date entry),
       jl_period := Some (fp_id p)\<rparr>"

definition promote :: "string \<Rightarrow> fiscal_period \<Rightarrow> nat \<Rightarrow> journal_entry \<Rightarrow> journal_entry" where
  "promote number p posted_at entry =
     entry\<lparr>je_number := Some number, je_period := Some (fp_id p), je_status := POSTED,
           je_posted_at := Some posted_at\<rparr>"

definition post_entry ::
  "'m fin_db_scheme \<Rightarrow> uuid \<Rightarrow> uuid \<Rightarrow> decimal option \<Rightarrow> bool \<Rightarrow>
   (journal_entry \<times> 'm fin_db_scheme) result" where
  "post_entry db tenant entry_id rate_override skip_translation =
     bindr (get_entry db tenant entry_id) (\<lambda>entry.
     if je_status entry \<noteq> DRAFT then Inl (ConflictError ''finance.journal_not_draft'')
     else if length (load_lines db tenant entry_id) < 2
     then Inl (ValidationFailedError ''finance.journal_too_few_lines'')
     else bindr (if skip_translation then Inr (load_lines db tenant entry_id)
                 else translate_entry_lines db tenant entry (load_lines db tenant entry_id)
                        rate_override) (\<lambda>lines.
     case entry_totals lines of (debit, credit) \<Rightarrow>
     if debit \<noteq> credit \<or> debit \<le> 0 then Inl (ValidationFailedError ''finance.journal_unbalanced'')
     else bindr (find_period_for_date db tenant (je_posting_date entry)) (\<lambda>period.
     case period of
       None \<Rightarrow> Inl (ValidationFailedError ''finance.period_closed'')
     | Some p \<Rightarrow>
         if fp_status p \<noteq> OPEN then Inl (ValidationFailedError ''finance.period_closed'')
         else bindr (ensure_sequence db tenant JOURNAL_SEQUENCE_NAME JOURNAL_NUMBER_PREFIX
                       JOURNAL_NUMBER_PADDING True) (\<lambda>(_, db1).
         bindr (claim_number db1 tenant JOURNAL_SEQUENCE_NAME (je_posting_date entry))
           (\<lambda>(entry_number, db2).
         bindr (fold_result update_line (map (denormalize entry p) lines) db2) (\<lambda>db3.
         bindr (update_entry entry_id (promote entry_number p (now db)) db3) (\<lambda>db4.
         bindr (set_document_status db4 tenant (je_document entry)
                  (Some (entry_status_str POSTED)) (Some entry_number)) (\<lambda>db5.
         Inr (promote entry_number p (now db) entry,
              publish (JournalEntryPosted tenant entry_id entry_number (je_document_type entry)
                 (je_posting_date entry) (je_currency entry) debit (map jl_account lines)) db5)))))))))"

subsection \<open>Reversal\<close>

definition reversal_description :: "string option \<Rightarrow> journal_entry \<Rightarrow> string" where
  "reversal_description description original =
     (case description of
        Some (c # cs) \<Rightarrow> c # cs
      | _ \<Rightarrow> ''Reversal of '' @
           (case je_number original of Some (c # cs) \<Rightarrow> c # cs | _ \<Rightarrow> nat_str (je_id original)))"

definition swap_line :: "uuid \<Rightarrow> uuid \<Rightarrow> journal_line \<Rightarrow> journal_line" where
  "swap_line tenant reversal_id l =
     l\<lparr>jl_id := 0, jl_tenant := tenant, jl_entry := reversal_id,
       jl_tdebit := jl_tcredit l, jl_tcredit := jl_tdebit l,
       jl_fdebit := jl_fcredit l, jl_fcredit := jl_fdebit l,
       jl_is_posted := False, jl_posting_date := None, jl_period := None\<rparr>"

definition mark_reversed :: "uuid \<Rightarrow> journal_entry \<Rightarrow> journal_entry" where
  "mark_reversed reversal_id e = e\<lparr>je_reversed_by := Some reversal_id, je_status := REVERSED\<rparr>"

definition reverse_entry ::
  "'m fin_db_scheme \<Rightarrow> uuid \<Rightarrow> uuid \<Rightarrow> date \<Rightarrow> string option \<Rightarrow>
   (journal_entry \<times> 'm fin_db_scheme) result" where
  "reverse_entry db tenant entry_id reversal_date description =
     bindr (get_entry db tenant entry_id) (\<lambda>original.
     if je_status original \<noteq> POSTED then Inl (ConflictError ''finance.journal_not_posted'')
     else if je_reversed_by original \<noteq> None
     then Inl (ConflictError ''finance.journal_already_reversed'')
     else case uuid4 db of (reversal_id, db1) \<Rightarrow>
     bindr (register_document db1 tenant JOURNAL_ENTRY_DOC_TYPE reversal_id None
              (Some (entry_status_str DRAFT))) (\<lambda>(document, db2).
     let reversal = \<lparr>je_id = reversal_id, je_tenant = tenant, je_document = doc_pk document,
           je_number = None, je_posting_date = reversal_date, je_period = None,
           je_document_type = je_document_type original, je_currency = je_currency original,
           je_description = Some (reversal_description description original), je_status = DRAFT,
           je_reverses = Some entry_id, je_reversed_by = None, je_posted_at = None\<rparr>
     in bindr (insert_entry reversal db2) (\<lambda>db3.
     bindr (fold_result insert_line
              (map (swap_line tenant reversal_id) (load_lines db tenant entry_id)) db3) (\<lambda>db4.
     bindr (post_entry db4 tenant reversal_id None False) (\<lambda>(posted, db5).
     bindr (update_entry entry_id (mark_reversed reversal_id) db5) (\<lambda>db6.
     bindr (set_document_status db6 tenant (je_document original)
              (Some (entry_status_str REVERSED)) None) (\<lambda>db7.
     bindr (link_documents db7 tenant (je_document original) (je_document reversal)
              (Some REVERSES_LINK)) (\<lambda>(_, db8).
     Inr (posted,
          publish (JournalEntryReversed tenant entry_id reversal_id
             (case je_number posted of None \<Rightarrow> '''' | Some n \<Rightarrow> n)
             (je_document_type original) reversal_date) db8)))))))))"

end
