(* ===== verification/Journal_Wf.thy ===== *)
theory Journal_Wf
  imports Journal
begin

text \<open>
  Correctness of the posting engine. \<open>books_wf\<close> is the invariant of the two journal tables: every
  posted entry balances with a positive total, carries a number and a period, and all its lines
  and no line of a draft are flagged posted. It is kept by every operation; from it follow that
  the service never trips a database guard, that a reversal cancels its original account by
  account, and that nothing posted is ever edited.
\<close>

subsection \<open>The invariant\<close>

definition line_ok :: "journal_line \<Rightarrow> bool" where
  "line_ok l \<longleftrightarrow> stored_line l = l \<and> one_side (jl_tdebit l) (jl_tcredit l)"

definition entry_balanced :: "journal_line list \<Rightarrow> bool" where
  "entry_balanced ls \<longleftrightarrow>
     sum_list (map jl_fdebit ls) = sum_list (map jl_fcredit ls) \<and> 0 < sum_list (map jl_fdebit ls)"

definition entry_ok :: "journal_line list \<Rightarrow> journal_entry \<Rightarrow> bool" where
  "entry_ok ls e \<longleftrightarrow>
     (\<forall>l \<in> set ls. jl_tenant l = je_tenant e \<and> (jl_is_posted l \<longleftrightarrow> je_status e \<noteq> DRAFT)) \<and>
     (je_status e \<noteq> DRAFT \<longrightarrow> entry_balanced ls \<and> je_number e \<noteq> None \<and> je_period e \<noteq> None) \<and>
     (je_status e = REVERSED \<longleftrightarrow> je_reversed_by e \<noteq> None)"

definition books_wf :: "'m fin_db_scheme \<Rightarrow> bool" where
  "books_wf db \<longleftrightarrow>
     distinct (map je_id (journal_entries db)) \<and> distinct (map jl_id (journal_lines db)) \<and>
     (\<forall>e \<in> set (journal_entries db). je_id e < uuid_supply db) \<and>
     (\<forall>l \<in> set (journal_lines db). jl_id l < uuid_supply db) \<and>
     (\<forall>l \<in> set (journal_lines db). line_ok l \<and> jl_entry l \<in> je_id ` set (journal_entries db)) \<and>
     (\<forall>e \<in> set (journal_entries db). entry_ok (entry_lines db (je_id e)) e)"

lemma books_wfD:
  assumes "books_wf db"
  shows "distinct (map je_id (journal_entries db))" "distinct (map jl_id (journal_lines db))"
    "\<And>e. e \<in> set (journal_entries db) \<Longrightarrow> je_id e < uuid_supply db"
    "\<And>l. l \<in> set (journal_lines db) \<Longrightarrow> jl_id l < uuid_supply db"
    "\<And>l. l \<in> set (journal_lines db) \<Longrightarrow> line_ok l"
    "\<And>l. l \<in> set (journal_lines db) \<Longrightarrow> jl_entry l \<in> je_id ` set (journal_entries db)"
    "\<And>e. e \<in> set (journal_entries db) \<Longrightarrow> entry_ok (entry_lines db (je_id e)) e"
  using assms unfolding books_wf_def by blast+

subsection \<open>Frames\<close>

text \<open>An operation of the core leaves the finance tables alone.\<close>

lemma fin_frame:
  assumes "core_db.more db' = core_db.more (db :: 'm fin_db_scheme)"
  shows "accounts db' = accounts db" "fiscal_years db' = fiscal_years db"
    "fiscal_periods db' = fiscal_periods db" "currencies db' = currencies db"
    "exchange_rates db' = exchange_rates db" "journal_entries db' = journal_entries db"
    "journal_lines db' = journal_lines db" "fin_db.more db' = fin_db.more db"
  using assms by (cases db; cases db'; simp)+

lemma ensure_sequence_frame:
  assumes "ensure_sequence db t n p w y = Inr (s, db')"
  shows "core_db.more db' = core_db.more db" "uuid_supply db \<le> uuid_supply db'"
    "documents db' = documents db" "doc_links db' = doc_links db"
    "pending_events db' = pending_events db" "today db' = today db" "now db' = now db"
  using assms by (auto simp: ensure_sequence_def create_counter_def uuid4_def result_simps Let_def
      split: option.splits if_splits)

lemma register_document_Inr:
  assumes "register_document db t ty i n st = Inr (d, db')"
  shows "d = \<lparr>doc_pk = uuid_supply db, doc_tenant = t, doc_type = ty, doc_id = i, doc_number = n, doc_status = st\<rparr>"
    "db' = db\<lparr>uuid_supply := Suc (uuid_supply db), documents := documents db @ [d]\<rparr>"
  using assms by (auto simp: register_document_def uuid4_def Let_def split: if_splits)

lemma set_document_status_frame:
  assumes "set_document_status db t i st n = Inr db'"
  shows "core_db.more db' = core_db.more db" "uuid_supply db' = uuid_supply db"
    "pending_events db' = pending_events db" "number_counters db' = number_counters db"
    "number_sequences db' = number_sequences db"
  using assms by (auto simp: set_document_status_def Let_def split: if_splits option.splits)

lemma link_documents_frame:
  assumes "link_documents db t a b ty = Inr (l, db')"
  shows "core_db.more db' = core_db.more db" "uuid_supply db \<le> uuid_supply db'"
    "pending_events db' = pending_events db" "number_counters db' = number_counters db"
    "number_sequences db' = number_sequences db" "documents db' = documents db"
  using assms by (auto simp: link_documents_def uuid4_def Let_def split: if_splits)

lemma link_documents_Inr:
  assumes "link_documents db t a b ty = Inr (l, db')"
  shows "l \<in> set (doc_links db')" "dl_tenant l = t" "dl_predecessor l = a" "dl_successor l = b" "dl_link_type l = ty"
    "\<exists>d \<in> set (documents db'). doc_row t a d" "\<exists>d \<in> set (documents db'). doc_row t b d"
  using assms by (auto simp: link_documents_def uuid4_def Let_def split: if_splits)

lemma fin_more_update:
  assumes "fin_db.more db' = fin_db.more (db :: 'm fin_db_scheme)"
  shows "db' = db\<lparr>uuid_supply := uuid_supply db', today := today db', now := now db',
    number_sequences := number_sequences db', number_counters := number_counters db',
    documents := documents db', doc_links := doc_links db', pending_events := pending_events db',
    accounts := accounts db', fiscal_years := fiscal_years db', fiscal_periods := fiscal_periods db',
    currencies := currencies db', exchange_rates := exchange_rates db', cost_centers := cost_centers db',
    profit_centers := profit_centers db', journal_entries := journal_entries db',
    journal_lines := journal_lines db'\<rparr>"
  by (rule fin_db.equality) (simp_all add: assms)

lemma publish_frame [simp]:
  "core_db.more (publish ev db) = core_db.more db" "uuid_supply (publish ev db) = uuid_supply db"
  "documents (publish ev db) = documents db" "number_counters (publish ev db) = number_counters db"
  by (simp_all add: publish_def)

lemma books_wf_core:
  assumes "books_wf db" and "core_db.more db' = core_db.more db" and "uuid_supply db \<le> uuid_supply db'"
  shows "books_wf db'"
  using assms(1,3) unfolding books_wf_def entry_lines_def fin_frame [OF assms(2)]
  by (meson less_le_trans)

subsection \<open>Row writes\<close>

lemma stored_line_simps [simp]:
  "jl_id (stored_line l) = jl_id l" "jl_tenant (stored_line l) = jl_tenant l"
  "jl_entry (stored_line l) = jl_entry l" "jl_number (stored_line l) = jl_number l"
  "jl_is_posted (stored_line l) = jl_is_posted l" "jl_account (stored_line l) = jl_account l"
  "stored_line (stored_line l) = stored_line l"
  by (simp_all add: stored_line_def)

lemma stored_line_fix:
  "stored_line l = l \<longleftrightarrow> store_money (jl_tdebit l) = jl_tdebit l \<and> store_money (jl_tcredit l) = jl_tcredit l \<and>
     store_money (jl_fdebit l) = jl_fdebit l \<and> store_money (jl_fcredit l) = jl_fcredit l"
  by (cases l) (simp add: stored_line_def)

lemma books_wf_insert_entry:
  assumes wf: "books_wf db" and ins: "insert_entry e db = Inr db'"
    and e: "je_status e = DRAFT" "je_reversed_by e = None" "je_id e < uuid_supply db"
      "je_id e \<notin> je_id ` set (journal_entries db)"
  shows "books_wf db' \<and> db' = db\<lparr>journal_entries := journal_entries db @ [e]\<rparr>"
proof -
  from ins have db': "db' = db\<lparr>journal_entries := journal_entries db @ [e]\<rparr>"
    by (auto simp: insert_entry_def result_simps split: if_splits)
  note W = books_wfD [OF wf]
  have "jl_entry l \<noteq> je_id e" if "l \<in> set (journal_lines db)" for l using W(6) [OF that] e(4) by metis
  then have "entry_lines db (je_id e) = []" by (simp add: entry_lines_def filter_empty_conv)
  then have "entry_ok (entry_lines db (je_id e)) e" using e by (simp add: entry_ok_def)
  with wf e(3,4) show ?thesis by (auto simp: books_wf_def db' entry_lines_def)
qed

lemma insert_line_Inr:
  assumes "insert_line l db = Inr db'"
  shows "db' = db\<lparr>uuid_supply := Suc (uuid_supply db),
      journal_lines := journal_lines db @ [stored_line (l\<lparr>jl_id := uuid_supply db\<rparr>)]\<rparr>"
    and "one_side (store_money (jl_tdebit l)) (store_money (jl_tcredit l))"
  using assms by (auto simp: insert_line_def uuid4_def Let_def stored_line_def split: if_splits)

lemma books_wf_insert_line:
  assumes wf: "books_wf db" and ins: "insert_line l db = Inr db'"
    and e: "e \<in> set (journal_entries db)" "je_id e = jl_entry l" "je_status e = DRAFT"
      "jl_tenant l = je_tenant e" "\<not> jl_is_posted l"
  shows "books_wf db'"
proof -
  let ?l = "stored_line (l\<lparr>jl_id := uuid_supply db\<rparr>)"
  note db' = insert_line_Inr(1) [OF ins] and W = books_wfD [OF wf]
  have "line_ok ?l" using insert_line_Inr(2) [OF ins] by (simp add: line_ok_def stored_line_def)
  moreover have "entry_ok (entry_lines db' (je_id f)) f" if f: "f \<in> set (journal_entries db)" for f
  proof (cases "je_id f = je_id e")
    case True
    then have "f = e" using W(1) e(1) f by (metis distinct_map inj_onD)
    with W(7) [OF e(1)] e show ?thesis by (simp add: db' entry_lines_def entry_ok_def)
  next
    case False
    with W(7) [OF f] e(2) show ?thesis by (simp add: db' entry_lines_def)
  qed
  moreover have "uuid_supply db \<notin> jl_id ` set (journal_lines db)" using W(4) by fastforce
  moreover have "jl_entry l \<in> je_id ` set (journal_entries db)" using e(1,2) by (metis image_eqI)
  ultimately show ?thesis
    using wf by (auto simp: books_wf_def db' less_Suc_eq)
qed

lemma fold_insert_line:
  assumes "fold_result insert_line ls db = Inr db'"
  shows "db' = db\<lparr>uuid_supply := uuid_supply db + length ls,
     journal_lines := journal_lines db @
       map (\<lambda>(k, l). stored_line (l\<lparr>jl_id := k\<rparr>)) (zip [uuid_supply db..<uuid_supply db + length ls] ls)\<rparr>"
  using assms
proof (induction ls arbitrary: db)
  case (Cons l ls)
  then obtain d where d: "insert_line l db = Inr d" "fold_result insert_line ls d = Inr db'" by auto
  have upt: "[uuid_supply db..<uuid_supply db + length (l # ls)] =
      uuid_supply db # [Suc (uuid_supply db)..<Suc (uuid_supply db) + length ls]"
    by (simp add: upt_conv_Cons del: upt_Suc)
  show ?case using Cons.IH [OF d(2)] insert_line_Inr(1) [OF d(1)] unfolding upt by simp
qed simp

lemma books_wf_insert_lines:
  assumes "fold_result insert_line ls db = Inr db'" and "books_wf db"
    and "e \<in> set (journal_entries db)" and "je_status e = DRAFT"
    and "\<And>l. l \<in> set ls \<Longrightarrow> jl_entry l = je_id e \<and> jl_tenant l = je_tenant e \<and> \<not> jl_is_posted l"
  shows "books_wf db'"
proof -
  have step: "books_wf d' \<and> journal_entries d' = journal_entries db"
    if "l \<in> set ls" "books_wf d \<and> journal_entries d = journal_entries db" "insert_line l d = Inr d'" for l d d'
  proof -
    have "books_wf d'"
      by (rule books_wf_insert_line [OF _ that(3), of e]) (use that assms(3,4,5) in simp_all)
    with that insert_line_Inr(1) [OF that(3)] show ?thesis by simp
  qed
  have "books_wf db' \<and> journal_entries db' = journal_entries db"
    by (rule fold_result_inv [OF assms(1) _ step]) (use assms(2) in simp_all)
  then show ?thesis ..
qed

lemma update_line_Inr:
  assumes "update_line l db = Inr db'"
  shows "db' = db\<lparr>journal_lines :=
    upd_rows (\<lambda>r. jl_id r = jl_id (stored_line l)) (\<lambda>_. stored_line l) (journal_lines db)\<rparr>"
  using assms by (auto simp: update_line_def Let_def result_simps split: option.splits if_splits)

lemma fold_update_line:
  "fold_result update_line ls db = Inr db' \<Longrightarrow>
   db' = db\<lparr>journal_lines :=
     fold (\<lambda>l. upd_rows (\<lambda>r. jl_id r = jl_id l) (\<lambda>_. l)) (map stored_line ls) (journal_lines db)\<rparr>"
proof (induction ls arbitrary: db)
  case (Cons l ls)
  then obtain d where "update_line l db = Inr d" "fold_result update_line ls d = Inr db'" by auto
  with Cons.IH [of d] update_line_Inr [of l db d] show ?case by simp
qed simp

lemma fold_update_line_no_guard:
  assumes "distinct (map jl_id ls)"
    and "\<And>l r. l \<in> set ls \<Longrightarrow> r \<in> set (journal_lines db) \<Longrightarrow> jl_id r = jl_id l \<Longrightarrow> \<not> jl_is_posted r"
  shows "fold_result update_line ls db \<noteq> Inl (DbGuard tok)"
  using assms
proof (induction ls arbitrary: db)
  case (Cons l ls)
  show ?case
  proof (cases "update_line l db")
    case (Inl e)
    have "line_guard old = Inr ()" if "find_row jl_id (jl_id l) (journal_lines db) = Some old" for old
      using Cons.prems(2) [of l old] find_row_Some_iff [OF that] by (simp add: line_guard_def)
    with Inl have "e \<noteq> DbGuard tok"
      by (auto simp: update_line_def Let_def split: option.splits if_splits)
    with Inl show ?thesis by simp
  next
    case (Inr d)
    have "\<not> jl_is_posted r" if "m \<in> set ls" "r \<in> set (journal_lines d)" "jl_id r = jl_id m" for m r
    proof -
      have "jl_id m \<noteq> jl_id l" using Cons.prems(1) that(1) by (metis distinct.simps(2) image_eqI list.simps(9) set_map)
      with that show ?thesis using Cons.prems(2) [of m r] update_line_Inr [OF Inr]
        by (auto simp: set_upd_rows)
    qed
    with Cons.IH [of d] Cons.prems(1) Inr show ?thesis by auto
  qed
qed simp

subsection \<open>Drafts\<close>

lemma create_draft_entry_Inr:
  assumes "create_draft_entry db t c fa = Inr (e, db')"
  obtains d ls db1 db2 where
    "db1 = db\<lparr>uuid_supply := Suc (Suc (uuid_supply db)), documents := documents db @ [d]\<rparr>"
    "doc_pk d = Suc (uuid_supply db)" "je_id e = uuid_supply db" "je_tenant e = t" "je_status e = DRAFT"
    "je_reversed_by e = None" "je_number e = None" "je_posting_date e = jec_posting_date c"
    "je_document e = doc_pk d" "insert_entry e db1 = Inr db2" "fold_result insert_line ls db2 = Inr db'"
    "ls = map (\<lambda>(n, l, s). draft_line t (uuid_supply db) (jec_currency c) n l s)
       (zip [1..<Suc (length (jec_lines c))] (zip (jec_lines c) (functional_sides fa (jec_lines c))))"
    "sum_list (map fst (functional_sides fa (jec_lines c))) = sum_list (map snd (functional_sides fa (jec_lines c)))"
    "length (jec_lines c) \<le> length (functional_sides fa (jec_lines c))" "2 \<le> length (jec_lines c)"
proof -
  from assms obtain d db1 where reg: "register_document (db\<lparr>uuid_supply := Suc (uuid_supply db)\<rparr>) t
       JOURNAL_ENTRY_DOC_TYPE (uuid_supply db) None (Some (entry_status_str DRAFT)) = Inr (d, db1)"
    by (auto simp: create_draft_entry_def uuid4_def Let_def result_simps split: if_splits)
  note R = register_document_Inr [OF reg]
  from assms reg obtain db2 where "e = \<lparr>je_id = uuid_supply db, je_tenant = t, je_document = doc_pk d,
       je_number = None, je_posting_date = jec_posting_date c, je_period = None,
       je_document_type = jec_document_type c, je_currency = jec_currency c,
       je_description = jec_description c, je_status = DRAFT, je_reverses = None,
       je_reversed_by = None, je_posted_at = None\<rparr>"
    "insert_entry e db1 = Inr db2"
    "fold_result insert_line (map (\<lambda>(n, l, s). draft_line t (uuid_supply db) (jec_currency c) n l s)
       (zip [1..<Suc (length (jec_lines c))] (zip (jec_lines c) (functional_sides fa (jec_lines c))))) db2 = Inr db'"
    "sum_list (map fst (functional_sides fa (jec_lines c))) = sum_list (map snd (functional_sides fa (jec_lines c)))"
    "length (jec_lines c) \<le> length (functional_sides fa (jec_lines c))" "2 \<le> length (jec_lines c)"
    by (auto simp: create_draft_entry_def uuid4_def Let_def result_simps simp del: upt_Suc split: if_splits)
  with R show ?thesis by (intro that [of db1 d db2]) simp_all
qed

text \<open>The shared step of a draft and of a reversal: a fresh header, then its lines.\<close>

lemma books_wf_new_entry:
  assumes wf: "books_wf db" and db1: "core_db.more db1 = core_db.more db" "uuid_supply db \<le> uuid_supply db1"
    and e: "je_id e = uuid_supply db" "je_id e < uuid_supply db1" "je_status e = DRAFT" "je_reversed_by e = None"
    and ins: "insert_entry e db1 = Inr db2" and lines: "fold_result insert_line ls db2 = Inr db3"
    and ls: "\<And>l. l \<in> set ls \<Longrightarrow> jl_entry l = je_id e \<and> jl_tenant l = je_tenant e \<and> \<not> jl_is_posted l"
  shows "books_wf db3" and "journal_entries db3 = journal_entries db @ [e]"
    and "core_db.more db3 = fin_db_ext (accounts db) (fiscal_years db) (fiscal_periods db) (currencies db)
       (exchange_rates db) (cost_centers db) (profit_centers db) (journal_entries db @ [e])
       (journal_lines db3) (fin_db.more db)"
proof -
  note W = books_wfD [OF wf]
  have wf1: "books_wf db1" by (rule books_wf_core [OF wf db1])
  have "je_id e \<notin> je_id ` set (journal_entries db1)"
    using W(3) e(1) unfolding fin_frame [OF db1(1)] by fastforce
  from books_wf_insert_entry [OF wf1 ins e(3,4) e(2) this]
  have wf2: "books_wf db2" and db2: "db2 = db1\<lparr>journal_entries := journal_entries db @ [e]\<rparr>"
    unfolding fin_frame [OF db1(1)] by blast+
  then have mem: "e \<in> set (journal_entries db2)" by simp
  show "books_wf db3" by (rule books_wf_insert_lines [OF lines wf2 mem e(3) ls])
  show "journal_entries db3 = journal_entries db @ [e]"
    using fold_insert_line [OF lines] db2 by simp
  show "core_db.more db3 = fin_db_ext (accounts db) (fiscal_years db) (fiscal_periods db) (currencies db)
       (exchange_rates db) (cost_centers db) (profit_centers db) (journal_entries db @ [e])
       (journal_lines db3) (fin_db.more db)"
    using fold_insert_line [OF lines] db2 db1(1) by (cases db; cases db1; cases db2; cases db3) simp
qed

lemma create_draft_entry_wf:
  assumes "books_wf db" and "create_draft_entry db t c fa = Inr (e, db')"
  shows "books_wf db'"
proof (rule create_draft_entry_Inr [OF assms(2)])
  fix d ls db1 db2
  assume *: "db1 = db\<lparr>uuid_supply := Suc (Suc (uuid_supply db)), documents := documents db @ [d]\<rparr>"
    "je_id e = uuid_supply db" "je_tenant e = t" "je_status e = DRAFT" "je_reversed_by e = None"
    "insert_entry e db1 = Inr db2" "fold_result insert_line ls db2 = Inr db'"
    "ls = map (\<lambda>(n, l, s). draft_line t (uuid_supply db) (jec_currency c) n l s)
       (zip [1..<Suc (length (jec_lines c))] (zip (jec_lines c) (functional_sides fa (jec_lines c))))"
  show "books_wf db'"
    by (rule books_wf_new_entry(1) [OF assms(1) _ _ _ _ _ _ *(6,7)])
      (use * in \<open>auto simp: draft_line_def simp del: upt_Suc\<close>)
qed

subsection \<open>Posting\<close>

lemma get_entry_Inr:
  "get_entry db t i = Inr e \<Longrightarrow>
   e \<in> set (journal_entries db) \<and> je_id e = i \<and> je_tenant e = t \<and> find_row je_id i (journal_entries db) = Some e"
  by (auto simp: get_entry_def dest: find_row_Some_iff split: option.splits if_splits)

lemma mset_load_lines:
  assumes "books_wf db" and "get_entry db t i = Inr e"
  shows "mset (load_lines db t i) = mset (entry_lines db i)"
proof -
  note E = get_entry_Inr [OF assms(2)]
  have "entry_ok (entry_lines db i) e" using books_wfD(7) [OF assms(1)] E by metis
  then have "filter (\<lambda>l. jl_tenant l = t \<and> jl_entry l = i) (journal_lines db) = entry_lines db i"
    unfolding entry_lines_def using E by (intro filter_cong) (auto simp: entry_ok_def)
  then show ?thesis by (simp add: load_lines_def)
qed

text \<open>What a posting writes: the loaded lines back to their rows, then the header.\<close>

definition write_back :: "journal_line list \<Rightarrow> journal_line list \<Rightarrow> journal_line list" where
  "write_back ls rows = map (\<lambda>r. case find_row jl_id (jl_id r) ls of None \<Rightarrow> r | Some l \<Rightarrow> l) rows"

definition posting_lines :: "'m fin_db_scheme \<Rightarrow> uuid \<Rightarrow> journal_entry \<Rightarrow> decimal option \<Rightarrow> bool \<Rightarrow> journal_line list result" where
  "posting_lines db t e ro skip =
     (if skip then Inr (load_lines db t (je_id e))
      else translate_entry_lines db t e (load_lines db t (je_id e)) ro)"

lemma posting_lines_frame:
  assumes "posting_lines db t e ro skip = Inr ls"
    and "\<And>l d c. g (l\<lparr>jl_fdebit := d, jl_fcredit := c\<rparr>) = g l"
  shows "map g ls = map g (load_lines db t (je_id e))"
  using assms translate_entry_lines_frame [of db t e _ ro ls g] by (auto simp: posting_lines_def split: if_splits)

lemma posting_lines_ok:
  assumes wf: "books_wf db" and pl: "posting_lines db t e ro skip = Inr ls" and l: "l \<in> set ls"
  shows "line_ok l"
proof -
  let ?ls = "load_lines db t (je_id e)"
  have ok: "line_ok m" if "m \<in> set ?ls" for m
    using that books_wfD(5) [OF wf] by (auto simp: load_lines_def)
  have grid: "on_grid MONEY_SCALE (jl_fdebit l) \<and> on_grid MONEY_SCALE (jl_fcredit l)"
  proof -
    have "on_grid MONEY_SCALE (jl_fdebit m) \<and> on_grid MONEY_SCALE (jl_fcredit m)" if "m \<in> set ?ls" for m
    proof -
      have "stored_line m = m" using ok [OF that] by (simp add: line_ok_def)
      then have "jl_fdebit m = store_money (jl_fdebit m)" "jl_fcredit m = store_money (jl_fcredit m)"
        unfolding stored_line_fix by simp_all
      then show ?thesis by (metis store_money_on_grid)
    qed
    then show ?thesis
      using pl l translate_entry_lines_grid [of db t e ?ls ro ls l] by (auto simp: posting_lines_def split: if_splits)
  qed
  let ?g = "\<lambda>l. (jl_tdebit l, jl_tcredit l)"
  have "map ?g ls = map ?g ?ls" by (rule posting_lines_frame [OF pl]) simp
  then have "?g ` set ls = ?g ` set ?ls" by (metis set_map)
  then have "?g l \<in> ?g ` set ?ls" using l by blast
  then obtain m where m: "m \<in> set ?ls" "jl_tdebit l = jl_tdebit m" "jl_tcredit l = jl_tcredit m" by auto
  have "stored_line m = m" "one_side (jl_tdebit m) (jl_tcredit m)" using ok [OF m(1)] by (simp_all add: line_ok_def)
  then show ?thesis
    using grid m(2,3) by (simp add: line_ok_def stored_line_fix store_money_grid)
qed

text \<open>
  The part of \<open>post_entry\<close> behind the checks: the number claim, and then the two flushes, the
  document status and the event (\<open>post_flush\<close>).
\<close>

definition post_flush ::
  "nat \<Rightarrow> uuid \<Rightarrow> journal_entry \<Rightarrow> fiscal_period \<Rightarrow> journal_line list \<Rightarrow> string \<Rightarrow> 'm fin_db_scheme \<Rightarrow>
   (journal_entry \<times> 'm fin_db_scheme) result" where
  "post_flush k t e p ls n db2 =
     bindr (fold_result update_line (map (denormalize e p) ls) db2) (\<lambda>db3.
     bindr (update_entry (je_id e) (promote n p k) db3) (\<lambda>db4.
     bindr (set_document_status db4 t (je_document e) (Some (entry_status_str POSTED)) (Some n)) (\<lambda>db5.
     Inr (promote n p k e,
          publish (JournalEntryPosted t (je_id e) n (je_document_type e) (je_posting_date e)
            (je_currency e) (sum_list (map jl_fdebit ls)) (map jl_account ls)) db5))))"

definition post_writes ::
  "'m fin_db_scheme \<Rightarrow> uuid \<Rightarrow> journal_entry \<Rightarrow> fiscal_period \<Rightarrow> journal_line list \<Rightarrow>
   (journal_entry \<times> 'm fin_db_scheme) result" where
  "post_writes db t e p ls =
     bindr (ensure_sequence db t JOURNAL_SEQUENCE_NAME JOURNAL_NUMBER_PREFIX JOURNAL_NUMBER_PADDING True)
       (\<lambda>(_, db1).
     bindr (claim_number db1 t JOURNAL_SEQUENCE_NAME (je_posting_date e)) (\<lambda>(n, db2).
     post_flush (now db) t e p ls n db2))"

lemma post_entry_eq:
  "post_entry db t i ro skip =
     bindr (get_entry db t i) (\<lambda>e.
     if je_status e \<noteq> DRAFT then Inl (ConflictError ''finance.journal_not_draft'')
     else if length (load_lines db t i) < 2
     then Inl (ValidationFailedError ''finance.journal_too_few_lines'')
     else bindr (posting_lines db t e ro skip) (\<lambda>ls.
     if \<not> entry_balanced ls then Inl (ValidationFailedError ''finance.journal_unbalanced'')
     else bindr (find_period_for_date db t (je_posting_date e)) (\<lambda>po.
     case po of
       None \<Rightarrow> Inl (ValidationFailedError ''finance.period_closed'')
     | Some p \<Rightarrow>
         if fp_status p \<noteq> OPEN then Inl (ValidationFailedError ''finance.period_closed'')
         else post_writes db t e p ls)))"
proof (cases "get_entry db t i")
  case (Inr e)
  then have "je_id e = i" using get_entry_Inr by blast
  then show ?thesis
    by (simp only: post_entry_def post_writes_def post_flush_def posting_lines_def Inr bindr_simps entry_totals_def
        prod.case entry_balanced_def de_Morgan_conj not_less)
qed (simp add: post_entry_def)

lemma post_entry_Inr:
  assumes "post_entry db t i ro skip = Inr (e', db')"
  obtains e ls p where "get_entry db t i = Inr e" and "je_status e = DRAFT"
    and "posting_lines db t e ro skip = Inr ls" and "entry_balanced ls"
    and "find_period_for_date db t (je_posting_date e) = Inr (Some p)" and "fp_status p = OPEN"
    and "post_writes db t e p ls = Inr (e', db')"
  using assms that unfolding post_entry_eq by (auto simp: result_simps split: if_splits option.splits)

lemma post_writes_Inr:
  assumes "post_writes db t e p ls = Inr (e', db')"
  obtains s db1 n db2 db3 db4 db5 where
    "ensure_sequence db t JOURNAL_SEQUENCE_NAME JOURNAL_NUMBER_PREFIX JOURNAL_NUMBER_PADDING True = Inr (s, db1)"
    and "claim_number db1 t JOURNAL_SEQUENCE_NAME (je_posting_date e) = Inr (n, db2)"
    and "fold_result update_line (map (denormalize e p) ls) db2 = Inr db3"
    and "update_entry (je_id e) (promote n p (now db)) db3 = Inr db4"
    and "set_document_status db4 t (je_document e) (Some (entry_status_str POSTED)) (Some n) = Inr db5"
    and "e' = promote n p (now db) e"
    and "db' = publish (JournalEntryPosted t (je_id e) n (je_document_type e) (je_posting_date e)
            (je_currency e) (sum_list (map jl_fdebit ls)) (map jl_account ls)) db5"
  using assms that unfolding post_writes_def post_flush_def by (auto simp: result_simps)

lemma denormalize_simps [simp]:
  "jl_id (denormalize e p l) = jl_id l" "jl_tenant (denormalize e p l) = jl_tenant l"
  "jl_entry (denormalize e p l) = jl_entry l" "jl_is_posted (denormalize e p l)"
  "jl_fdebit (denormalize e p l) = jl_fdebit l" "jl_fcredit (denormalize e p l) = jl_fcredit l"
  "jl_account (denormalize e p l) = jl_account l" "line_ok (denormalize e p l) = line_ok l"
  "jl_posting_date (denormalize e p l) = Some (je_posting_date e)"
  "jl_period (denormalize e p l) = Some (fp_id p)"
  by (simp_all add: denormalize_def line_ok_def stored_line_fix)

lemma promote_simps [simp]:
  "je_id (promote n p k e) = je_id e" "je_tenant (promote n p k e) = je_tenant e"
  "je_status (promote n p k e) = POSTED" "je_number (promote n p k e) = Some n"
  "je_period (promote n p k e) = Some (fp_id p)" "je_reversed_by (promote n p k e) = je_reversed_by e"
  "je_posting_date (promote n p k e) = je_posting_date e" "je_document (promote n p k e) = je_document e"
  "je_reverses (promote n p k e) = je_reverses e"
  by (simp_all add: promote_def)

lemma update_entry_Inr:
  assumes "update_entry i f db = Inr db'"
  obtains old where "find_row je_id i (journal_entries db) = Some old"
    and "db' = db\<lparr>journal_entries := upd_rows (\<lambda>e. je_id e = i) f (journal_entries db)\<rparr>"
    and "header_update_guard db old (f old) = Inr ()"
  using assms that by (auto simp: update_entry_def result_simps split: option.splits if_splits)

lemma write_back_props:
  assumes ids: "mset (map jl_id ls) = mset (map jl_id (filter (\<lambda>l. jl_entry l = i) rows))"
    and d: "distinct (map jl_id rows)" and ent: "\<forall>l \<in> set ls. jl_entry l = i"
  shows "map jl_id (write_back ls rows) = map jl_id rows"
    and "map jl_entry (write_back ls rows) = map jl_entry rows"
    and "mset (filter (\<lambda>l. jl_entry l = i) (write_back ls rows)) = mset ls"
    and "\<not> Q i \<Longrightarrow> filter (\<lambda>l. Q (jl_entry l)) (write_back ls rows) = filter (\<lambda>l. Q (jl_entry l)) rows"
    and "set (write_back ls rows) \<subseteq> set ls \<union> {l \<in> set rows. jl_entry l \<noteq> i}"
proof -
  let ?f = "\<lambda>r. case find_row jl_id (jl_id r) ls of None \<Rightarrow> r | Some l \<Rightarrow> l"
  have dls: "distinct (map jl_id ls)"
    using d ids by (metis distinct_map_filter mset_eq_imp_distinct_iff)
  have hit: "find_row jl_id (jl_id r) ls \<noteq> None \<longleftrightarrow> jl_entry r = i" if r: "r \<in> set rows" for r
  proof -
    have "set (map jl_id ls) = set (map jl_id (filter (\<lambda>l. jl_entry l = i) rows))"
      using ids by (metis set_mset_mset)
    then have "jl_id r \<in> jl_id ` set ls \<longleftrightarrow> jl_id r \<in> jl_id ` {l \<in> set rows. jl_entry l = i}" by simp
    also have "\<dots> \<longleftrightarrow> jl_entry r = i" using d r by (auto simp: distinct_map inj_on_def)
    finally show ?thesis unfolding find_row_None_image by simp
  qed
  have f: "jl_id (?f r) = jl_id r \<and> jl_entry (?f r) = jl_entry r \<and>
      (jl_entry r = i \<longrightarrow> ?f r \<in> set ls) \<and> (jl_entry r \<noteq> i \<longrightarrow> ?f r = r)" if r: "r \<in> set rows" for r
  proof (cases "find_row jl_id (jl_id r) ls")
    case None
    with hit [OF r] show ?thesis by simp
  next
    case (Some l)
    with hit [OF r] find_row_Some_iff [OF Some] ent show ?thesis by simp
  qed
  have filt: "filter (\<lambda>l. Q (jl_entry l)) (write_back ls rows) = map ?f (filter (\<lambda>l. Q (jl_entry l)) rows)" for Q
    unfolding write_back_def filter_map o_def using f by (intro arg_cong [where f = "map ?f"] filter_cong) auto
  show "map jl_id (write_back ls rows) = map jl_id rows" "map jl_entry (write_back ls rows) = map jl_entry rows"
    unfolding write_back_def using f by simp_all
  show "mset (filter (\<lambda>l. jl_entry l = i) (write_back ls rows)) = mset ls"
    unfolding filt [of "\<lambda>k. k = i"] by (rule mset_write_back [OF dls ids])
  show "filter (\<lambda>l. Q (jl_entry l)) (write_back ls rows) = filter (\<lambda>l. Q (jl_entry l)) rows" if "\<not> Q i"
    unfolding filt
  proof (rule map_idI)
    fix r assume "r \<in> set (filter (\<lambda>l. Q (jl_entry l)) rows)"
    then have "r \<in> set rows" "jl_entry r \<noteq> i" using that by auto
    then show "?f r = r" using f by blast
  qed
  show "set (write_back ls rows) \<subseteq> set ls \<union> {l \<in> set rows. jl_entry l \<noteq> i}"
  proof
    fix x assume "x \<in> set (write_back ls rows)"
    then obtain r where r: "r \<in> set rows" "x = ?f r" by (auto simp: write_back_def)
    show "x \<in> set ls \<union> {l \<in> set rows. jl_entry l \<noteq> i}"
      using f [OF r(1)] r by (cases "jl_entry r = i") simp_all
  qed
qed

lemma post_writes_tables:
  assumes pw: "post_writes db t e p ls = Inr (e', db')" and d: "distinct (map jl_id ls)"
    and ok: "\<And>l. l \<in> set ls \<Longrightarrow> line_ok l"
  obtains n where "e' = promote n p (now db) e"
    and "core_db.more db' = core_db.more (db\<lparr>
       journal_lines := write_back (map (denormalize e p) ls) (journal_lines db),
       journal_entries := upd_rows (\<lambda>x. je_id x = je_id e) (promote n p (now db)) (journal_entries db)\<rparr>)"
    and "uuid_supply db \<le> uuid_supply db'"
proof (rule post_writes_Inr [OF pw])
  fix s db1 n db2 db3 db4 db5
  assume es: "ensure_sequence db t JOURNAL_SEQUENCE_NAME JOURNAL_NUMBER_PREFIX JOURNAL_NUMBER_PADDING True = Inr (s, db1)"
    and cn: "claim_number db1 t JOURNAL_SEQUENCE_NAME (je_posting_date e) = Inr (n, db2)"
    and ul: "fold_result update_line (map (denormalize e p) ls) db2 = Inr db3"
    and ue: "update_entry (je_id e) (promote n p (now db)) db3 = Inr db4"
    and sd: "set_document_status db4 t (je_document e) (Some (entry_status_str POSTED)) (Some n) = Inr db5"
    and e': "e' = promote n p (now db) e"
    and db': "db' = publish (JournalEntryPosted t (je_id e) n (je_document_type e) (je_posting_date e)
            (je_currency e) (sum_list (map jl_fdebit ls)) (map jl_account ls)) db5"
  have m2: "core_db.more db2 = core_db.more db" "uuid_supply db \<le> uuid_supply db2"
    using ensure_sequence_frame [OF es] claim_number_frame [OF cn] by simp_all
  have st: "map stored_line (map (denormalize e p) ls) = map (denormalize e p) ls"
    using ok denormalize_simps(8) [of e p] by (auto simp: line_ok_def)
  have "distinct (map jl_id (map (denormalize e p) ls))" using d by (simp add: o_def)
  with fold_update_line [OF ul] have db3: "db3 = db2\<lparr>journal_lines :=
      write_back (map (denormalize e p) ls) (journal_lines db2)\<rparr>"
    unfolding st by (simp add: fold_upd_rows_key write_back_def)
  from ue have db4: "db4 = db3\<lparr>journal_entries :=
      upd_rows (\<lambda>x. je_id x = je_id e) (promote n p (now db)) (journal_entries db3)\<rparr>"
    by (elim update_entry_Inr)
  have "core_db.more db' = core_db.more db4" "uuid_supply db' = uuid_supply db4"
    using set_document_status_frame [OF sd] by (simp_all add: db')
  then show thesis
    using m2 fin_frame [OF m2(1)] e' db3 db4 by (intro that) (cases db; cases db2; simp)+
qed

text \<open>Everything a successful posting does to the finance tables.\<close>

lemma post_entry_effect:
  assumes wf: "books_wf db" and post: "post_entry db t i ro skip = Inr (e', db')"
  obtains e ls p n where "get_entry db t i = Inr e" and "je_status e = DRAFT"
    and "posting_lines db t e ro skip = Inr ls" and "entry_balanced ls"
    and "find_period_for_date db t (je_posting_date e) = Inr (Some p)" and "fp_status p = OPEN"
    and "e' = promote n p (now db) e"
    and "core_db.more db' = core_db.more (db\<lparr>
       journal_lines := write_back (map (denormalize e p) ls) (journal_lines db),
       journal_entries := upd_rows (\<lambda>x. je_id x = i) (promote n p (now db)) (journal_entries db)\<rparr>)"
    and "uuid_supply db \<le> uuid_supply db'"
    and "mset (map jl_id (map (denormalize e p) ls)) = mset (map jl_id (entry_lines db i))"
    and "\<And>l. l \<in> set ls \<Longrightarrow> line_ok l \<and> jl_entry l = i \<and> jl_tenant l = t"
proof (rule post_entry_Inr [OF post])
  fix e ls p
  assume e: "get_entry db t i = Inr e" "je_status e = DRAFT" and pl: "posting_lines db t e ro skip = Inr ls"
    and rest: "entry_balanced ls" "find_period_for_date db t (je_posting_date e) = Inr (Some p)" "fp_status p = OPEN"
    and pw: "post_writes db t e p ls = Inr (e', db')"
  have i: "je_id e = i" using get_entry_Inr [OF e(1)] by simp
  have "map jl_id ls = map jl_id (load_lines db t i)"
    unfolding i [symmetric] by (rule posting_lines_frame [OF pl]) simp
  then have ids: "mset (map jl_id ls) = mset (map jl_id (entry_lines db i))"
    using mset_load_lines [OF wf e(1)] by (metis mset_map)
  have "distinct (map jl_id (entry_lines db i))"
    using books_wfD(2) [OF wf] by (simp add: entry_lines_def distinct_map_filter)
  with ids have d: "distinct (map jl_id ls)" by (metis mset_eq_imp_distinct_iff)
  let ?g = "\<lambda>l. (jl_entry l, jl_tenant l)"
  have "map ?g ls = map ?g (load_lines db t i)"
    unfolding i [symmetric] by (rule posting_lines_frame [OF pl]) simp
  then have "?g ` set ls = ?g ` set (load_lines db t i)" by (metis set_map)
  then have g: "?g l = (i, t)" if "l \<in> set ls" for l using that by (force simp: load_lines_def)
  have lok: "line_ok l \<and> jl_entry l = i \<and> jl_tenant l = t" if "l \<in> set ls" for l
    using posting_lines_ok [OF wf pl that] g [OF that] by simp
  show thesis
    by (rule post_writes_tables [OF pw d]) (use lok e pl rest ids i in \<open>auto intro!: that [of e ls p] simp: o_def\<close>)
qed

lemma entry_balanced_mset: "mset xs = mset ys \<Longrightarrow> entry_balanced xs = entry_balanced ys"
  using sum_list_mset [of xs ys jl_fdebit] sum_list_mset [of xs ys jl_fcredit]
  by (simp add: entry_balanced_def)

lemma entry_balanced_denormalize [simp]: "entry_balanced (map (denormalize e p) ls) = entry_balanced ls"
  by (simp add: entry_balanced_def o_def)

lemma post_entry_lines:
  assumes wf: "books_wf db"
    and m: "core_db.more db' = core_db.more (db\<lparr>
       journal_lines := write_back (map (denormalize e p) ls) (journal_lines db),
       journal_entries := es\<rparr>)"
    and ids: "mset (map jl_id (map (denormalize e p) ls)) = mset (map jl_id (entry_lines db i))"
    and ent: "\<forall>l \<in> set ls. jl_entry l = i"
  shows "mset (entry_lines db' i) = mset (map (denormalize e p) ls)"
    and "\<not> Q i \<Longrightarrow> filter (\<lambda>l. Q (jl_entry l)) (journal_lines db') = filter (\<lambda>l. Q (jl_entry l)) (journal_lines db)"
    and "map jl_id (journal_lines db') = map jl_id (journal_lines db)"
    and "map jl_entry (journal_lines db') = map jl_entry (journal_lines db)"
    and "set (journal_lines db') \<subseteq> denormalize e p ` set ls \<union> {l \<in> set (journal_lines db). jl_entry l \<noteq> i}"
proof -
  have L: "journal_lines db' = write_back (map (denormalize e p) ls) (journal_lines db)"
    using fin_frame(7) [OF m] by simp
  have "\<forall>l \<in> set (map (denormalize e p) ls). jl_entry l = i" using ent by auto
  note wb = write_back_props [OF ids [unfolded entry_lines_def] books_wfD(2) [OF wf] this]
  show "mset (entry_lines db' i) = mset (map (denormalize e p) ls)"
    unfolding entry_lines_def L by (rule wb(3))
  show "\<not> Q i \<Longrightarrow> filter (\<lambda>l. Q (jl_entry l)) (journal_lines db') = filter (\<lambda>l. Q (jl_entry l)) (journal_lines db)"
    unfolding L by (rule wb(4))
  show "map jl_id (journal_lines db') = map jl_id (journal_lines db)"
    "map jl_entry (journal_lines db') = map jl_entry (journal_lines db)"
    unfolding L using wb(1,2) by simp_all
  show "set (journal_lines db') \<subseteq> denormalize e p ` set ls \<union> {l \<in> set (journal_lines db). jl_entry l \<noteq> i}"
    using wb(5) unfolding L by simp
qed

lemma post_entry_wf:
  assumes wf: "books_wf db" and post: "post_entry db t i ro skip = Inr (e', db')"
  shows "books_wf db'"
proof (rule post_entry_effect [OF wf post])
  fix e ls p n
  assume e: "get_entry db t i = Inr e" "je_status e = DRAFT" and bal: "entry_balanced ls"
    and m: "core_db.more db' = core_db.more (db\<lparr>
       journal_lines := write_back (map (denormalize e p) ls) (journal_lines db),
       journal_entries := upd_rows (\<lambda>x. je_id x = i) (promote n p (now db)) (journal_entries db)\<rparr>)"
    and u: "uuid_supply db \<le> uuid_supply db'"
    and ids: "mset (map jl_id (map (denormalize e p) ls)) = mset (map jl_id (entry_lines db i))"
    and ls: "\<And>l. l \<in> set ls \<Longrightarrow> line_ok l \<and> jl_entry l = i \<and> jl_tenant l = t"
  note W = books_wfD [OF wf] and E = get_entry_Inr [OF e(1)]
  have ent: "\<forall>l \<in> set ls. jl_entry l = i" using ls by simp
  note P = post_entry_lines [OF wf m ids ent]
  have es: "journal_entries db' = upd_rows (\<lambda>x. je_id x = i) (promote n p (now db)) (journal_entries db)"
    using fin_frame(6) [OF m] by simp
  have ids_e: "map je_id (journal_entries db') = map je_id (journal_entries db)"
    unfolding es by (simp add: map_upd_rows)
  have id_set: "je_id ` set (journal_entries db') = je_id ` set (journal_entries db)"
    using ids_e by (metis set_map)
  have line: "line_ok l \<and> jl_id l < uuid_supply db' \<and> jl_entry l \<in> je_id ` set (journal_entries db')"
    if l: "l \<in> set (journal_lines db')" for l
  proof -
    have "jl_id l \<in> jl_id ` set (journal_lines db)" "jl_entry l \<in> jl_entry ` set (journal_lines db)"
      using l P(3,4) by (metis image_eqI set_map)+
    moreover have "line_ok l" using P(5) l ls W(5) by auto
    ultimately show ?thesis using W(4,6) u unfolding id_set by fastforce
  qed
  have other: "entry_ok (entry_lines db' (je_id f)) f" if "f \<in> set (journal_entries db)" "je_id f \<noteq> i" for f
    using W(7) [OF that(1)] P(2) [of "\<lambda>k. k = je_id f"] that(2) by (simp add: entry_lines_def)
  have st: "set (entry_lines db' i) = denormalize e p ` set ls"
    using P(1) by (metis list.set_map set_mset_mset)
  have "entry_ok (entry_lines db i) e" using W(7) E by metis
  then have "je_reversed_by e = None" using e(2) by (simp add: entry_ok_def)
  then have this_ok: "entry_ok (entry_lines db' i) (promote n p (now db) e)"
    using bal ls E entry_balanced_mset [OF P(1)] unfolding entry_ok_def st by auto
  have all_ok: "entry_ok (entry_lines db' (je_id f)) f" if f: "f \<in> set (journal_entries db')" for f
  proof -
    from f obtain g where g: "g \<in> set (journal_entries db)"
      "f = (if je_id g = i then promote n p (now db) g else g)" unfolding es upd_rows_def by auto
    show ?thesis
    proof (cases "je_id g = i")
      case True
      then have "g = e" using W(1) g(1) E by (metis distinct_map inj_onD)
      with this_ok True g(2) show ?thesis by simp
    qed (use other g in simp)
  qed
  have "je_id f < uuid_supply db'" if "f \<in> set (journal_entries db')" for f
  proof -
    have "je_id f \<in> je_id ` set (journal_entries db)" using that id_set by blast
    then show ?thesis using W(3) u by fastforce
  qed
  with line all_ok show "books_wf db'"
    using W(1,2) ids_e P(3) unfolding books_wf_def by metis
qed

subsection \<open>The service never trips a database guard\<close>

definition no_guard :: "'a result \<Rightarrow> bool" where
  "no_guard r \<longleftrightarrow> (\<forall>tok. r \<noteq> Inl (DbGuard tok))"

lemma no_guard_simps [simp]:
  "no_guard (Inr x)" "no_guard (Inl e) \<longleftrightarrow> (\<forall>tok. e \<noteq> DbGuard tok)"
  by (auto simp: no_guard_def)

lemma no_guard_bindr:
  "no_guard r \<Longrightarrow> (\<And>x. r = Inr x \<Longrightarrow> no_guard (f x)) \<Longrightarrow> no_guard (bindr r f)"
  by (cases r) simp_all

lemma no_guard_one_or_none [simp]: "no_guard (one_or_none xs)"
  by (cases xs rule: one_or_none.cases) simp_all

lemma no_guard_core:
  "no_guard (ensure_sequence db t n p w y)" "no_guard (claim_number db t n d)"
  "no_guard (register_document db t ty i num st)" "no_guard (set_document_status db t i st num)"
  "no_guard (link_documents db t a b lt)" "no_guard (find_period_for_date fdb t d)"
  "no_guard (get_entry fdb t i)" "no_guard (functional_currency_or_none fdb t)" "no_guard (get_rate fdb t cf ct d k)"
  by (auto simp: ensure_sequence_def claim_number_def register_document_def set_document_status_def
      link_documents_def find_period_for_date_def get_entry_def functional_currency_or_none_def get_rate_def
      Let_def intro!: no_guard_bindr split: option.splits prod.splits)

lemma no_guard_posting_lines: "no_guard (posting_lines db t e ro skip)"
  by (auto simp: posting_lines_def translate_entry_lines_def no_guard_core
      intro!: no_guard_bindr split: option.splits)

lemma find_period_for_date_Some:
  "find_period_for_date db t d = Inr (Some p) \<Longrightarrow> p \<in> set (fiscal_periods db) \<and> covers t d p"
  by (auto simp: find_period_for_date_def result_simps dest: filter_ConsD)

lemma post_writes_no_guard:
  assumes wf: "books_wf db" and e: "get_entry db t i = Inr e" "je_status e = DRAFT"
    and pl: "posting_lines db t e ro skip = Inr ls" and bal: "entry_balanced ls"
    and p: "find_period_for_date db t (je_posting_date e) = Inr (Some p)" "fp_status p = OPEN"
  shows "no_guard (post_writes db t e p ls)"
proof -
  note E = get_entry_Inr [OF e(1)] and W = books_wfD [OF wf]
  have i: "je_id e = i" using E by simp
  have "map jl_id ls = map jl_id (load_lines db t i)"
    unfolding i [symmetric] by (rule posting_lines_frame [OF pl]) simp
  then have ids: "mset (map jl_id (map (denormalize e p) ls)) = mset (map jl_id (entry_lines db i))"
    using mset_load_lines [OF wf e(1)] by (simp add: o_def)
  have "distinct (map jl_id (entry_lines db i))"
    using W(2) by (simp add: entry_lines_def distinct_map_filter)
  with ids have d: "distinct (map jl_id (map (denormalize e p) ls))" by (metis mset_eq_imp_distinct_iff)
  have "map jl_entry ls = map jl_entry (load_lines db t i)"
    unfolding i [symmetric] by (rule posting_lines_frame [OF pl]) simp
  then have "jl_entry ` set ls = jl_entry ` set (load_lines db t i)" by (metis set_map)
  then have ent: "\<forall>l \<in> set ls. jl_entry l = i" by (force simp: load_lines_def)
  have st: "map stored_line (map (denormalize e p) ls) = map (denormalize e p) ls"
    using posting_lines_ok [OF wf pl] denormalize_simps(8) [of e p] by (auto simp: line_ok_def)
  have unposted: "\<not> jl_is_posted r"
    if "l \<in> set (map (denormalize e p) ls)" "r \<in> set (journal_lines db)" "jl_id r = jl_id l" for l r
  proof -
    have "set (map jl_id (map (denormalize e p) ls)) = set (map jl_id (entry_lines db i))"
      using ids by (metis set_mset_mset)
    then have "jl_id r \<in> jl_id ` set (entry_lines db i)" using that(1,3) by (metis image_eqI set_map)
    then obtain r' where r': "r' \<in> set (journal_lines db)" "jl_id r' = jl_id r" "jl_entry r' = i"
      by (auto simp: entry_lines_def)
    then have "r' = r" using W(2) that(2) by (metis distinct_map inj_onD)
    moreover have "entry_ok (entry_lines db i) e" using W(7) E by metis
    ultimately show ?thesis using r' that(2) e(2) by (auto simp: entry_ok_def entry_lines_def)
  qed
  have step: "no_guard (update_entry (je_id e) (promote n p (now db)) db3)"
    if m: "core_db.more db2 = core_db.more db"
      and ul: "fold_result update_line (map (denormalize e p) ls) db2 = Inr db3" for n db2 db3
  proof -
    have db3: "db3 = db2\<lparr>journal_lines := write_back (map (denormalize e p) ls) (journal_lines db)\<rparr>"
      using fold_update_line [OF ul] d unfolding st fin_frame [OF m]
      by (simp add: fold_upd_rows_key write_back_def)
    then have m3: "core_db.more db3 = core_db.more (db\<lparr>
       journal_lines := write_back (map (denormalize e p) ls) (journal_lines db),
       journal_entries := journal_entries db\<rparr>)"
      using m by (cases db; cases db2) simp
    note L = post_entry_lines(1) [OF wf m3 ids ent]
    have "entry_balanced (entry_lines db3 i)" using entry_balanced_mset [OF L] bal by simp
    moreover have "fiscal_periods db3 = fiscal_periods db" "journal_entries db3 = journal_entries db"
      using fin_frame(3,6) [OF m3] by simp_all
    moreover have "p \<in> set (fiscal_periods db)" "covers t (je_posting_date e) p"
      using find_period_for_date_Some [OF p(1)] by simp_all
    ultimately have "header_update_guard db3 e (promote n p (now db) e) = Inr ()"
      using E e(2) p(2)
      by (auto simp: header_update_guard_def unbalanced_def no_open_period_def entry_balanced_def
          covers_def Let_def)
    with E \<open>journal_entries db3 = journal_entries db\<close> show ?thesis
      unfolding i by (auto simp: update_entry_def)
  qed
  have tail: "no_guard (post_flush (now db) t e p ls n db2)"
    if s1: "ensure_sequence db t JOURNAL_SEQUENCE_NAME JOURNAL_NUMBER_PREFIX JOURNAL_NUMBER_PADDING True = Inr (s, db1)"
      "claim_number db1 t JOURNAL_SEQUENCE_NAME (je_posting_date e) = Inr (n, db2)" for s db1 n db2
  proof -
    have m: "core_db.more db2 = core_db.more db"
      using ensure_sequence_frame [OF s1(1)] claim_number_frame [OF s1(2)] by simp
    have "no_guard (fold_result update_line (map (denormalize e p) ls) db2)"
      unfolding no_guard_def using fold_update_line_no_guard [OF d, of db2] unposted fin_frame(7) [OF m] by auto
    then show ?thesis unfolding post_flush_def
      using step [OF m] by (intro no_guard_bindr no_guard_core) simp_all
  qed
  have claim: "no_guard (bindr (claim_number db1 t JOURNAL_SEQUENCE_NAME (je_posting_date e))
      (\<lambda>(n, db2). post_flush (now db) t e p ls n db2))"
    if "ensure_sequence db t JOURNAL_SEQUENCE_NAME JOURNAL_NUMBER_PREFIX JOURNAL_NUMBER_PADDING True = Inr (s, db1)" for s db1
    by (rule no_guard_bindr [OF no_guard_core(2)]) (use tail [OF that] in \<open>auto split: prod.splits\<close>)
  show ?thesis
    unfolding post_writes_def
    by (rule no_guard_bindr [OF no_guard_core(1)]) (use claim in \<open>auto split: prod.splits\<close>)
qed

lemma post_entry_no_guard:
  assumes "books_wf db" shows "no_guard (post_entry db t i ro skip)"
  unfolding post_entry_eq
  using post_writes_no_guard [OF assms]
  by (auto intro!: no_guard_bindr simp: no_guard_core no_guard_posting_lines split: option.splits)

subsection \<open>Reversal\<close>

definition reversal_header :: "uuid \<Rightarrow> uuid \<Rightarrow> uuid \<Rightarrow> journal_entry \<Rightarrow> date \<Rightarrow> string option \<Rightarrow> journal_entry" where
  "reversal_header t rid did original rdate descr =
     \<lparr>je_id = rid, je_tenant = t, je_document = did, je_number = None, je_posting_date = rdate,
      je_period = None, je_document_type = je_document_type original, je_currency = je_currency original,
      je_description = Some (reversal_description descr original), je_status = DRAFT,
      je_reverses = Some (je_id original), je_reversed_by = None, je_posted_at = None\<rparr>"

lemma hdr_status [simp]: "je_status (reversal_header t rid did original rdate descr) = DRAFT"
  by (simp add: reversal_header_def)

lemma reverse_entry_Inr:
  assumes "reverse_entry db t i rdate descr = Inr (r, db')"
  obtains original d db2 db3 db4 db5 db6 db7 lk db8 where
    "get_entry db t i = Inr original" and "je_status original = POSTED" and "je_reversed_by original = None"
    and "doc_pk d = Suc (uuid_supply db)"
    and "db2 = db\<lparr>uuid_supply := Suc (Suc (uuid_supply db)), documents := documents db @ [d]\<rparr>"
    and "insert_entry (reversal_header t (uuid_supply db) (doc_pk d) original rdate descr) db2 = Inr db3"
    and "fold_result insert_line (map (swap_line t (uuid_supply db)) (load_lines db t i)) db3 = Inr db4"
    and "post_entry db4 t (uuid_supply db) None False = Inr (r, db5)"
    and "update_entry i (mark_reversed (uuid_supply db)) db5 = Inr db6"
    and "set_document_status db6 t (je_document original) (Some (entry_status_str REVERSED)) None = Inr db7"
    and "link_documents db7 t (je_document original) (doc_pk d) (Some REVERSES_LINK) = Inr (lk, db8)"
    and "db' = publish (JournalEntryReversed t i (uuid_supply db)
           (case je_number r of None \<Rightarrow> '''' | Some n \<Rightarrow> n) (je_document_type original) rdate) db8"
proof -
  from assms obtain original where o: "get_entry db t i = Inr original"
    by (auto simp: reverse_entry_def)
  then have i: "je_id original = i" using get_entry_Inr by blast
  from assms o obtain d db2 where reg: "register_document (db\<lparr>uuid_supply := Suc (uuid_supply db)\<rparr>) t
      JOURNAL_ENTRY_DOC_TYPE (uuid_supply db) None (Some (entry_status_str DRAFT)) = Inr (d, db2)"
    by (auto simp: reverse_entry_def uuid4_def result_simps split: if_splits)
  note R = register_document_Inr [OF reg]
  from assms o reg have "je_status original = POSTED" "je_reversed_by original = None"
    by (auto simp: reverse_entry_def split: if_splits)
  moreover from assms o reg calculation obtain db3 db4 db5 db6 db7 lk db8 where
    "insert_entry (reversal_header t (uuid_supply db) (doc_pk d) original rdate descr) db2 = Inr db3"
    "fold_result insert_line (map (swap_line t (uuid_supply db)) (load_lines db t i)) db3 = Inr db4"
    "post_entry db4 t (uuid_supply db) None False = Inr (r, db5)"
    "update_entry i (mark_reversed (uuid_supply db)) db5 = Inr db6"
    "set_document_status db6 t (je_document original) (Some (entry_status_str REVERSED)) None = Inr db7"
    "link_documents db7 t (je_document original) (doc_pk d) (Some REVERSES_LINK) = Inr (lk, db8)"
    "db' = publish (JournalEntryReversed t i (uuid_supply db)
           (case je_number r of None \<Rightarrow> '''' | Some n \<Rightarrow> n) (je_document_type original) rdate) db8"
    by (auto simp: reverse_entry_def uuid4_def result_simps reversal_header_def i Let_def)
  ultimately show ?thesis using R o by (intro that [of original d db2]) simp_all
qed

lemma mark_reversed_simps [simp]:
  "je_id (mark_reversed r e) = je_id e" "je_tenant (mark_reversed r e) = je_tenant e"
  "je_number (mark_reversed r e) = je_number e" "je_period (mark_reversed r e) = je_period e"
  "je_status (mark_reversed r e) = REVERSED" "je_reversed_by (mark_reversed r e) = Some r"
  by (simp_all add: mark_reversed_def)

lemma books_wf_mark_reversed:
  assumes wf: "books_wf db" and up: "update_entry i (mark_reversed r) db = Inr db'"
    and st: "\<And>e. find_row je_id i (journal_entries db) = Some e \<Longrightarrow> je_status e = POSTED"
  shows "books_wf db'"
proof (rule update_entry_Inr [OF up])
  fix old assume old: "find_row je_id i (journal_entries db) = Some old"
    and db': "db' = db\<lparr>journal_entries := upd_rows (\<lambda>e. je_id e = i) (mark_reversed r) (journal_entries db)\<rparr>"
  note W = books_wfD [OF wf]
  have ids: "map je_id (journal_entries db') = map je_id (journal_entries db)"
    unfolding db' by (simp add: map_upd_rows)
  then have id_set: "je_id ` set (journal_entries db') = je_id ` set (journal_entries db)" by (metis set_map)
  have "entry_ok (entry_lines db' (je_id f)) f" if f: "f \<in> set (journal_entries db')" for f
  proof -
    from f obtain g where g: "g \<in> set (journal_entries db)"
      "f = (if je_id g = i then mark_reversed r g else g)" unfolding db' upd_rows_def by auto
    have "je_id g = i \<Longrightarrow> je_status g = POSTED" using find_row_distinct [OF W(1) g(1)] st by simp
    then show ?thesis using W(7) [OF g(1)] g(2) by (auto simp: entry_ok_def db' entry_lines_def)
  qed
  moreover have "je_id f < uuid_supply db'" if "f \<in> set (journal_entries db')" for f
  proof -
    have "je_id f \<in> je_id ` set (journal_entries db)" using that id_set by blast
    then show ?thesis using W(3) by (auto simp: db')
  qed
  ultimately show "books_wf db'"
    using wf ids id_set unfolding books_wf_def by (simp add: db')
qed

subsection \<open>The posted ledger\<close>

definition posted_lines :: "'m fin_db_scheme \<Rightarrow> journal_line list" where
  "posted_lines db = filter jl_is_posted (journal_lines db)"

text \<open>The functional balance of an account over some lines.\<close>

definition net :: "uuid \<Rightarrow> journal_line list \<Rightarrow> decimal" where
  "net a ls = sum_list (map (\<lambda>l. if jl_account l = a then jl_fdebit l - jl_fcredit l else 0) ls)"

lemma net_mset: "mset xs = mset ys \<Longrightarrow> net a xs = net a ys"
  unfolding net_def by (rule sum_list_mset)

lemma net_append [simp]: "net a (xs @ ys) = net a xs + net a ys"
  by (simp add: net_def)

lemma net_denormalize [simp]: "net a (map (denormalize e p) ls) = net a ls"
  unfolding net_def map_map o_def denormalize_simps ..

lemma mset_split: "mset (filter P xs) = mset (filter P (filter Q xs)) + mset (filter P (filter (\<lambda>x. \<not> Q x) xs))"
proof (induction xs)
  case (Cons x xs)
  then show ?case by (cases "P x"; cases "Q x") (simp_all del: mset_filter)
qed simp

text \<open>Posting moves the entry's lines into the posted ledger and touches no other line of it.\<close>

lemma post_entry_ledger:
  assumes wf: "books_wf db" and post: "post_entry db t i ro skip = Inr (e', db')"
  shows "mset (posted_lines db') = mset (posted_lines db) + mset (entry_lines db' i)"
    and "\<not> Q i \<Longrightarrow> filter (\<lambda>l. Q (jl_entry l)) (journal_lines db') = filter (\<lambda>l. Q (jl_entry l)) (journal_lines db)"
proof -
  obtain e ls p n where e: "get_entry db t i = Inr e" "je_status e = DRAFT"
    and m: "core_db.more db' = core_db.more (db\<lparr>
       journal_lines := write_back (map (denormalize e p) ls) (journal_lines db),
       journal_entries := upd_rows (\<lambda>x. je_id x = i) (promote n p (now db)) (journal_entries db)\<rparr>)"
    and ids: "mset (map jl_id (map (denormalize e p) ls)) = mset (map jl_id (entry_lines db i))"
    and ls: "\<And>l. l \<in> set ls \<Longrightarrow> line_ok l \<and> jl_entry l = i \<and> jl_tenant l = t"
    by (rule post_entry_effect [OF wf post]) blast
  have ent: "\<forall>l \<in> set ls. jl_entry l = i" using ls by simp
  note P = post_entry_lines [OF wf m ids ent]
  show "\<not> Q i \<Longrightarrow> filter (\<lambda>l. Q (jl_entry l)) (journal_lines db') = filter (\<lambda>l. Q (jl_entry l)) (journal_lines db)"
    by (rule P(2))
  have "set (entry_lines db' i) = denormalize e p ` set ls"
    using P(1) by (metis list.set_map set_mset_mset)
  then have new: "filter jl_is_posted (filter (\<lambda>l. jl_entry l = i) (journal_lines db')) = entry_lines db' i"
    unfolding entry_lines_def [symmetric] by (intro filter_True) auto
  have "entry_ok (entry_lines db i) e" using books_wfD(7) [OF wf] get_entry_Inr [OF e(1)] by metis
  then have old: "filter jl_is_posted (filter (\<lambda>l. jl_entry l = i) (journal_lines db)) = []"
    unfolding entry_lines_def [symmetric] using e(2) by (auto simp: filter_empty_conv entry_ok_def)
  have rest: "filter (\<lambda>l. \<not> jl_entry l = i) (journal_lines db') = filter (\<lambda>l. \<not> jl_entry l = i) (journal_lines db)"
    using P(2) [of "\<lambda>k. \<not> k = i"] by blast
  show "mset (posted_lines db') = mset (posted_lines db) + mset (entry_lines db' i)"
    unfolding posted_lines_def
      mset_split [of jl_is_posted "journal_lines db'" "\<lambda>l. jl_entry l = i"]
      mset_split [of jl_is_posted "journal_lines db" "\<lambda>l. jl_entry l = i"] new old rest
    by (simp add: add.commute del: mset_filter)
qed

lemma net_swapped:
  assumes "\<forall>l \<in> set ls. stored_line l = l" and "length ks = length ls"
  shows "net a (map (\<lambda>(k, l). stored_line (l\<lparr>jl_id := k\<rparr>)) (zip ks (map (swap_line t rid) ls))) = - net a ls"
  using assms
proof (induction ls arbitrary: ks)
  case (Cons l ls)
  then obtain k ks' where ks: "ks = k # ks'" by (cases ks) auto
  have "stored_line l = l" using Cons.prems(1) by simp
  then have "store_money (jl_fdebit l) = jl_fdebit l" "store_money (jl_fcredit l) = jl_fcredit l"
    unfolding stored_line_fix by simp_all
  with Cons.IH [of ks'] Cons.prems ks show ?case by (simp add: net_def stored_line_def swap_line_def)
qed (simp add: net_def)

text \<open>Everything a successful reversal does to the finance tables.\<close>

lemma reverse_entry_effect:
  assumes wf: "books_wf db" and rev: "reverse_entry db t i rdate descr = Inr (r, db')"
  obtains original hdr new db4 db5 where "get_entry db t i = Inr original" and "je_status original = POSTED"
    and "je_id hdr = uuid_supply db" and "je_status hdr = DRAFT" and "je_reverses hdr = Some i"
    and "je_tenant hdr = t" and "je_posting_date hdr = rdate"
    and "books_wf db4" and "journal_entries db4 = journal_entries db @ [hdr]"
    and "journal_lines db4 = journal_lines db @ new"
    and "\<And>l. l \<in> set new \<Longrightarrow> jl_entry l = uuid_supply db \<and> \<not> jl_is_posted l"
    and "\<And>a. net a new = - net a (entry_lines db i)"
    and "fiscal_periods db4 = fiscal_periods db"
    and "post_entry db4 t (uuid_supply db) None False = Inr (r, db5)"
    and "core_db.more db' = core_db.more (db5\<lparr>journal_entries :=
           upd_rows (\<lambda>e. je_id e = i) (mark_reversed (uuid_supply db)) (journal_entries db5)\<rparr>)"
    and "update_entry i (mark_reversed (uuid_supply db)) db5 =
         Inr (db5\<lparr>journal_entries := upd_rows (\<lambda>e. je_id e = i) (mark_reversed (uuid_supply db)) (journal_entries db5)\<rparr>)"
    and "uuid_supply db5 \<le> uuid_supply db'"
proof (rule reverse_entry_Inr [OF rev])
  fix original d db2 db3 db4 db5 db6 db7 lk db8
  assume o: "get_entry db t i = Inr original" "je_status original = POSTED"
    and db2: "db2 = db\<lparr>uuid_supply := Suc (Suc (uuid_supply db)), documents := documents db @ [d]\<rparr>"
    and ins: "insert_entry (reversal_header t (uuid_supply db) (doc_pk d) original rdate descr) db2 = Inr db3"
    and lines: "fold_result insert_line (map (swap_line t (uuid_supply db)) (load_lines db t i)) db3 = Inr db4"
    and post: "post_entry db4 t (uuid_supply db) None False = Inr (r, db5)"
    and up: "update_entry i (mark_reversed (uuid_supply db)) db5 = Inr db6"
    and sd: "set_document_status db6 t (je_document original) (Some (entry_status_str REVERSED)) None = Inr db7"
    and lk: "link_documents db7 t (je_document original) (doc_pk d) (Some REVERSES_LINK) = Inr (lk, db8)"
    and db': "db' = publish (JournalEntryReversed t i (uuid_supply db)
           (case je_number r of None \<Rightarrow> '''' | Some n \<Rightarrow> n) (je_document_type original) rdate) db8"
  define hdr where "hdr = reversal_header t (uuid_supply db) (doc_pk d) original rdate descr"
  have hdr: "je_id hdr = uuid_supply db" "je_status hdr = DRAFT" "je_reverses hdr = Some i" "je_tenant hdr = t"
    "je_reversed_by hdr = None" "je_posting_date hdr = rdate"
    using get_entry_Inr [OF o(1)] by (simp_all add: hdr_def reversal_header_def)
  define new where "new = map (\<lambda>(k, l). stored_line (l\<lparr>jl_id := k\<rparr>))
     (zip [uuid_supply db3..<uuid_supply db3 + length (load_lines db t i)]
        (map (swap_line t (uuid_supply db)) (load_lines db t i)))"
  have m2: "core_db.more db2 = core_db.more db" "uuid_supply db \<le> uuid_supply db2" by (simp_all add: db2)
  have new_ls: "jl_entry l = je_id hdr \<and> jl_tenant l = je_tenant hdr \<and> \<not> jl_is_posted l"
    if "l \<in> set (map (swap_line t (uuid_supply db)) (load_lines db t i))" for l
    using that hdr by (auto simp: swap_line_def)
  note N = books_wf_new_entry [OF wf m2 hdr(1) _ hdr(2,5) ins [folded hdr_def] lines new_ls]
  have h2: "je_id hdr < uuid_supply db2" by (simp add: hdr db2)
  have L3: "journal_lines db3 = journal_lines db"
    using ins by (auto simp: insert_entry_def result_simps db2 split: if_splits)
  have L4: "journal_lines db4 = journal_lines db @ new"
    using fold_insert_line [OF lines] L3 by (simp add: new_def)
  have new_props: "jl_entry l = uuid_supply db \<and> \<not> jl_is_posted l" if "l \<in> set new" for l
    using that by (auto simp: new_def swap_line_def dest!: set_zip_rightD)
  have "\<forall>l \<in> set (load_lines db t i). stored_line l = l"
    using books_wfD(5) [OF wf] by (auto simp: load_lines_def line_ok_def)
  then have net: "net a new = - net a (entry_lines db i)" for a
    unfolding new_def using net_swapped net_mset [OF mset_load_lines [OF wf o(1)]] by simp
  have db6: "db6 = db5\<lparr>journal_entries :=
      upd_rows (\<lambda>e. je_id e = i) (mark_reversed (uuid_supply db)) (journal_entries db5)\<rparr>"
    using up by (elim update_entry_Inr)
  have "core_db.more db' = core_db.more db6" "uuid_supply db6 \<le> uuid_supply db'"
    using set_document_status_frame [OF sd] link_documents_frame [OF lk] by (simp_all add: db')
  moreover have "fiscal_periods db4 = fiscal_periods db"
    using N(3) [OF h2] by (cases db4) simp
  ultimately show thesis
    using o hdr N(1,2) [OF h2] L4 new_props net post db6 up
    by (intro that [of original hdr db4 new db5]) simp_all
qed

lemma post_entry_entries:
  assumes "books_wf db" and "post_entry db t i ro skip = Inr (e', db')"
  obtains n p where "journal_entries db' = upd_rows (\<lambda>x. je_id x = i) (promote n p (now db)) (journal_entries db)"
    and "uuid_supply db \<le> uuid_supply db'"
proof (rule post_entry_effect [OF assms])
  fix e ls p n
  assume m: "core_db.more db' = core_db.more (db\<lparr>
       journal_lines := write_back (map (denormalize e p) ls) (journal_lines db),
       journal_entries := upd_rows (\<lambda>x. je_id x = i) (promote n p (now db)) (journal_entries db)\<rparr>)"
    and u: "uuid_supply db \<le> uuid_supply db'"
  from fin_frame(6) [OF m] u show thesis by (intro that) simp_all
qed

text \<open>A reversal leaves every header as it was, the original marked and the new entry posted.\<close>

lemma reverse_entry_entries:
  assumes wf: "books_wf db" and rev: "reverse_entry db t i rdate descr = Inr (r, db')"
  obtains n p hdr k where "je_id hdr = uuid_supply db" and "je_reverses hdr = Some i"
    and "journal_entries db' =
      upd_rows (\<lambda>e. je_id e = i) (mark_reversed (uuid_supply db)) (journal_entries db) @ [promote n p k hdr]"
    and "books_wf db'" and "r = promote n p k hdr" and "i \<noteq> uuid_supply db"
proof (rule reverse_entry_effect [OF wf rev])
  fix original hdr new db4 db5
  assume o: "get_entry db t i = Inr original" "je_status original = POSTED"
    and hdr: "je_id hdr = uuid_supply db" "je_reverses hdr = Some i"
    and wf4: "books_wf db4" and e4: "journal_entries db4 = journal_entries db @ [hdr]"
    and post: "post_entry db4 t (uuid_supply db) None False = Inr (r, db5)"
    and m: "core_db.more db' = core_db.more (db5\<lparr>journal_entries :=
           upd_rows (\<lambda>e. je_id e = i) (mark_reversed (uuid_supply db)) (journal_entries db5)\<rparr>)"
    and up: "update_entry i (mark_reversed (uuid_supply db)) db5 =
         Inr (db5\<lparr>journal_entries := upd_rows (\<lambda>e. je_id e = i) (mark_reversed (uuid_supply db)) (journal_entries db5)\<rparr>)"
    and u: "uuid_supply db5 \<le> uuid_supply db'"
  note W = books_wfD [OF wf] and E = get_entry_Inr [OF o(1)]
  have "\<forall>e \<in> set (journal_entries db). je_id e < uuid_supply db" using W(3) by simp
  then have ne: "i \<noteq> uuid_supply db" and fresh: "\<forall>e \<in> set (journal_entries db). je_id e \<noteq> uuid_supply db"
    using E by auto
  from post_entry_effect [OF wf4 post] obtain e p n where
    e: "get_entry db4 t (uuid_supply db) = Inr e" "r = promote n p (now db4) e"
    and m5: "journal_entries db5 = upd_rows (\<lambda>x. je_id x = uuid_supply db) (promote n p (now db4)) (journal_entries db4)"
    by (metis (no_types, lifting) fin_frame(6) fin_db.select_convs(8) fin_db.surjective fin_db.update_convs(8))
  have "e = hdr"
    using get_entry_Inr [OF e(1)] fresh hdr unfolding e4 by (auto simp: find_row_append find_row_None_iff split: option.splits)
  have "upd_rows (\<lambda>x. je_id x = uuid_supply db) (promote n p (now db4)) (journal_entries db) = journal_entries db"
    unfolding upd_rows_def using fresh by (intro map_idI) simp
  then have e5: "journal_entries db5 = journal_entries db @ [promote n p (now db4) hdr]"
    unfolding m5 e4 using hdr by simp
  have "books_wf db5" by (rule post_entry_wf [OF wf4 post])
  then have "books_wf (db5\<lparr>journal_entries :=
      upd_rows (\<lambda>e. je_id e = i) (mark_reversed (uuid_supply db)) (journal_entries db5)\<rparr>)"
    by (rule books_wf_mark_reversed [OF _ up]) (use E o(2) in \<open>auto simp: e5 find_row_append\<close>)
  then have "books_wf db'" by (rule books_wf_core [OF _ m]) (use u in simp)
  with hdr ne fin_frame(6) [OF m] e(2) \<open>e = hdr\<close> show thesis
    by (intro that [of hdr n p "now db4"]) (simp_all add: e5)
qed

lemma reverse_entry_ledger:
  assumes wf: "books_wf db" and rev: "reverse_entry db t i rdate descr = Inr (r, db')"
  shows "mset (posted_lines db') = mset (posted_lines db) + mset (entry_lines db' (uuid_supply db))"
    and "net a (entry_lines db' (uuid_supply db)) = - net a (entry_lines db i)"
    and "Q (uuid_supply db) = False \<Longrightarrow>
      filter (\<lambda>l. Q (jl_entry l)) (journal_lines db') = filter (\<lambda>l. Q (jl_entry l)) (journal_lines db)"
proof -
  obtain hdr new db4 db5 where hdr: "je_id hdr = uuid_supply db" "je_reverses hdr = Some i"
    and wf4: "books_wf db4" and e4: "journal_entries db4 = journal_entries db @ [hdr]"
    and l4: "journal_lines db4 = journal_lines db @ new"
    and new: "\<And>l. l \<in> set new \<Longrightarrow> jl_entry l = uuid_supply db \<and> \<not> jl_is_posted l"
    and net: "\<And>a. net a new = - net a (entry_lines db i)"
    and post: "post_entry db4 t (uuid_supply db) None False = Inr (r, db5)"
    and m: "core_db.more db' = core_db.more (db5\<lparr>journal_entries :=
           upd_rows (\<lambda>e. je_id e = i) (mark_reversed (uuid_supply db)) (journal_entries db5)\<rparr>)"
    by (rule reverse_entry_effect [OF wf rev]) blast
  note W = books_wfD [OF wf]
  have L': "journal_lines db' = journal_lines db5" using fin_frame(7) [OF m] by simp
  have "posted_lines db4 = posted_lines db" using new by (auto simp: posted_lines_def l4 filter_empty_conv)
  with post_entry_ledger(1) [OF wf4 post] L'
  show "mset (posted_lines db') = mset (posted_lines db) + mset (entry_lines db' (uuid_supply db))"
    by (simp add: posted_lines_def entry_lines_def del: mset_filter)
  show "filter (\<lambda>l. Q (jl_entry l)) (journal_lines db') = filter (\<lambda>l. Q (jl_entry l)) (journal_lines db)"
    if "Q (uuid_supply db) = False"
  proof -
    have "filter (\<lambda>l. Q (jl_entry l)) new = []" using new that by (auto simp: filter_empty_conv)
    with post_entry_ledger(2) [OF wf4 post, of Q] that show ?thesis by (simp add: L' l4)
  qed
  have fresh: "\<forall>e \<in> set (journal_entries db). je_id e \<noteq> uuid_supply db"
    using W(3) by (metis less_irrefl)
  have "entry_lines db (uuid_supply db) = []"
    unfolding entry_lines_def filter_empty_conv using W(6) fresh by (metis image_iff)
  then have el4: "entry_lines db4 (uuid_supply db) = new" using new by (simp add: entry_lines_def l4)
  obtain e ls p n where e: "get_entry db4 t (uuid_supply db) = Inr e"
    and pl: "posting_lines db4 t e None False = Inr ls"
    and m5: "core_db.more db5 = core_db.more (db4\<lparr>
       journal_lines := write_back (map (denormalize e p) ls) (journal_lines db4),
       journal_entries := upd_rows (\<lambda>x. je_id x = uuid_supply db) (promote n p (now db4)) (journal_entries db4)\<rparr>)"
    and ids: "mset (map jl_id (map (denormalize e p) ls)) = mset (map jl_id (entry_lines db4 (uuid_supply db)))"
    and ls: "\<And>l. l \<in> set ls \<Longrightarrow> line_ok l \<and> jl_entry l = uuid_supply db \<and> jl_tenant l = t"
    by (rule post_entry_effect [OF wf4 post]) blast
  have ent: "\<forall>l \<in> set ls. jl_entry l = uuid_supply db" using ls by simp
  have "e = hdr"
    using get_entry_Inr [OF e] fresh hdr(1) unfolding e4
    by (auto simp: find_row_append find_row_None_iff split: option.splits)
  with pl hdr have "ls = load_lines db4 t (uuid_supply db)"
    by (simp add: posting_lines_def translate_entry_lines_def)
  with mset_load_lines [OF wf4 e] have "mset ls = mset new" by (simp add: el4)
  moreover have "mset (entry_lines db' (uuid_supply db)) = mset (map (denormalize e p) ls)"
    using post_entry_lines(1) [OF wf4 m5 ids ent] by (simp add: entry_lines_def L')
  ultimately have "net a (entry_lines db' (uuid_supply db)) = net a new"
    using net_mset [of _ "map (denormalize e p) ls" a] net_mset [of ls new a] by simp
  with net show "net a (entry_lines db' (uuid_supply db)) = - net a (entry_lines db i)" by simp
qed

lemma no_guard_inserts:
  "je_status e \<noteq> POSTED \<Longrightarrow> no_guard (insert_entry e db)" "no_guard (insert_line l db)"
  by (auto simp: insert_entry_def header_insert_guard_def insert_line_def Let_def split: prod.splits)

lemma no_guard_fold: "(\<And>x s. no_guard (f x s)) \<Longrightarrow> no_guard (fold_result f xs s)"
  by (induction xs arbitrary: s) (auto intro: no_guard_bindr)

text \<open>Marking a posted original is the one header update the immutability trigger permits.\<close>

lemma no_guard_mark_reversed:
  assumes wf: "books_wf db" and st: "\<And>e. find_row je_id i (journal_entries db) = Some e \<Longrightarrow> je_status e = POSTED"
  shows "no_guard (update_entry i (mark_reversed r) db)"
proof (cases "find_row je_id i (journal_entries db)")
  case (Some old)
  have "old \<in> set (journal_entries db)" using find_row_Some_iff [OF Some] by simp
  then have "je_number old \<noteq> None" "je_period old \<noteq> None"
    using books_wfD(7) [OF wf] st [OF Some] by (auto simp: entry_ok_def)
  then have "sanctioned old (mark_reversed r old) = Some True"
    by (auto simp: sanctioned_def sql_eq_def mark_reversed_def)
  then have "header_update_guard db old (mark_reversed r old) = Inr ()"
    by (simp add: header_update_guard_def sql_not_def)
  with Some show ?thesis by (simp add: update_entry_def)
qed (simp add: update_entry_def)

lemma post_entry_find_other:
  assumes "books_wf db" and "post_entry db t i ro skip = Inr (e', db')" and "k \<noteq> i"
  shows "find_row je_id k (journal_entries db') = find_row je_id k (journal_entries db)"
proof (rule post_entry_entries [OF assms(1,2)])
  fix n p assume "journal_entries db' = upd_rows (\<lambda>x. je_id x = i) (promote n p (now db)) (journal_entries db)"
  then show ?thesis
    using assms(3) find_row_Some_iff [of je_id k "journal_entries db"]
    by (cases "find_row je_id k (journal_entries db)") (auto simp: find_row_upd_rows)
qed

lemma reverse_entry_no_guard:
  assumes wf: "books_wf db" shows "no_guard (reverse_entry db t i rdate descr)"
proof (cases "get_entry db t i")
  case (Inl e)
  with no_guard_core(7) [of db t i] show ?thesis by (simp add: reverse_entry_def)
next
  case (Inr original)
  note E = get_entry_Inr [OF Inr]
  have last: "no_guard (update_entry i (mark_reversed (uuid_supply db)) db5)"
    if st: "je_status original = POSTED" and reg: "register_document (db\<lparr>uuid_supply := Suc (uuid_supply db)\<rparr>) t
        JOURNAL_ENTRY_DOC_TYPE (uuid_supply db) None (Some (entry_status_str DRAFT)) = Inr (d, db2)"
      and ins: "insert_entry (reversal_header t (uuid_supply db) (doc_pk d) original rdate descr) db2 = Inr db3"
      and lines: "fold_result insert_line (map (swap_line t (uuid_supply db)) (load_lines db t i)) db3 = Inr db4"
      and post: "post_entry db4 t (uuid_supply db) None False = Inr (posted, db5)"
    for d db2 db3 db4 posted db5
  proof -
    let ?h = "reversal_header t (uuid_supply db) (doc_pk d) original rdate descr"
    note R = register_document_Inr [OF reg]
    have "jl_entry l = je_id ?h \<and> jl_tenant l = je_tenant ?h \<and> \<not> jl_is_posted l"
      if "l \<in> set (map (swap_line t (uuid_supply db)) (load_lines db t i))" for l
      using that by (auto simp: swap_line_def reversal_header_def)
    note N = books_wf_new_entry [OF wf _ _ _ _ _ _ ins lines this]
    have wf4: "books_wf db4" and e4: "journal_entries db4 = journal_entries db @ [?h]"
      by (rule N; simp add: R(2) reversal_header_def)+
    have ne: "i \<noteq> uuid_supply db" using E books_wfD(3) [OF wf] by (metis less_irrefl)
    have "find_row je_id i (journal_entries db5) = Some original"
      using post_entry_find_other [OF wf4 post ne] E by (simp add: e4 find_row_append)
    then show ?thesis
      by (intro no_guard_mark_reversed [OF post_entry_wf [OF wf4 post]]) (simp add: st)
  qed
  have wf4: "books_wf db4"
    if reg: "register_document (db\<lparr>uuid_supply := Suc (uuid_supply db)\<rparr>) t
        JOURNAL_ENTRY_DOC_TYPE (uuid_supply db) None (Some (entry_status_str DRAFT)) = Inr (d, db2)"
      and ins: "insert_entry (reversal_header t (uuid_supply db) (doc_pk d) original rdate descr) db2 = Inr db3"
      and lines: "fold_result insert_line (map (swap_line t (uuid_supply db)) (load_lines db t i)) db3 = Inr db4"
    for d db2 db3 db4
    by (rule books_wf_new_entry(1) [OF wf _ _ _ _ _ _ ins lines])
      (auto simp: register_document_Inr(2) [OF reg] reversal_header_def swap_line_def)
  have hdr: "\<lparr>je_id = uuid_supply db, je_tenant = t, je_document = did, je_number = None, je_posting_date = rdate,
      je_period = None, je_document_type = je_document_type original, je_currency = je_currency original,
      je_description = Some (reversal_description descr original), je_status = DRAFT,
      je_reverses = Some i, je_reversed_by = None, je_posted_at = None\<rparr> =
      reversal_header t (uuid_supply db) did original rdate descr" for did
    using E by (simp add: reversal_header_def)
  show ?thesis
    unfolding reverse_entry_def Inr bindr_simps uuid4_def prod.case Let_def hdr journal_entry.select_convs
    by (auto intro!: no_guard_bindr no_guard_core no_guard_inserts no_guard_fold post_entry_no_guard
        intro: last wf4 simp: hdr_status simp del: entry_status_str.simps split: prod.splits)
qed

end
