(* ===== verification/Ledger.thy ===== *)
theory Ledger
  imports Journal_Wf
begin

text \<open>
  The life of the books: a step is any committed call of a journal, period, currency or rate
  operation, a run any sequence of them. Rule induction over runs gives the system-level
  properties: the books stay balanced, and what is posted stays as it was posted.
\<close>

subsection \<open>Steps\<close>

inductive ledger_step :: "'m fin_db_scheme \<Rightarrow> 'm fin_db_scheme \<Rightarrow> bool" where
  draft: "create_draft_entry db t c fa = Inr (e, db') \<Longrightarrow> ledger_step db db'"
| post: "post_entry db t i ro skip = Inr (e, db') \<Longrightarrow> ledger_step db db'"
| reverse: "reverse_entry db t i d descr = Inr (e, db') \<Longrightarrow> ledger_step db db'"
| fiscal_year: "create_fiscal_year db t fy = Inr (y, db') \<Longrightarrow> ledger_step db db'"
| close: "close_period db t i = Inr db' \<Longrightarrow> ledger_step db db'"
| reopen: "open_period db t i = Inr db' \<Longrightarrow> ledger_step db db'"
| close_year: "close_fiscal_year db t i = Inr db' \<Longrightarrow> ledger_step db db'"
| currency: "create_currency db t code name dp f = Inr (cur, db') \<Longrightarrow> ledger_step db db'"
| functional: "set_functional_currency db t code = Inr db' \<Longrightarrow> ledger_step db db'"
| rate: "create_exchange_rate db t rd f g r k = Inr (er, db') \<Longrightarrow> ledger_step db db'"

text \<open>The master-data steps leave the journal alone.\<close>

lemma journal_frame:
  "create_fiscal_year db t fy = Inr (y, db') \<Longrightarrow> journal_entries db' = journal_entries db \<and>
     journal_lines db' = journal_lines db \<and> uuid_supply db \<le> uuid_supply db'"
  "close_period db t i = Inr db' \<Longrightarrow> journal_entries db' = journal_entries db \<and>
     journal_lines db' = journal_lines db \<and> uuid_supply db \<le> uuid_supply db'"
  "open_period db t i = Inr db' \<Longrightarrow> journal_entries db' = journal_entries db \<and>
     journal_lines db' = journal_lines db \<and> uuid_supply db \<le> uuid_supply db'"
  "close_fiscal_year db t i = Inr db' \<Longrightarrow> journal_entries db' = journal_entries db \<and>
     journal_lines db' = journal_lines db \<and> uuid_supply db \<le> uuid_supply db'"
  "create_currency db t code name dp fn = Inr (cur, db') \<Longrightarrow> journal_entries db' = journal_entries db \<and>
     journal_lines db' = journal_lines db \<and> uuid_supply db \<le> uuid_supply db'"
  "set_functional_currency db t code = Inr db' \<Longrightarrow> journal_entries db' = journal_entries db \<and>
     journal_lines db' = journal_lines db \<and> uuid_supply db \<le> uuid_supply db'"
  "create_exchange_rate db t rd f g r k = Inr (er, db') \<Longrightarrow> journal_entries db' = journal_entries db \<and>
     journal_lines db' = journal_lines db \<and> uuid_supply db \<le> uuid_supply db'"
proof -
  show "create_fiscal_year db t fy = Inr (y, db') \<Longrightarrow> journal_entries db' = journal_entries db \<and>
     journal_lines db' = journal_lines db \<and> uuid_supply db \<le> uuid_supply db'"
    by (elim create_fiscal_year_Inr) simp
qed (auto simp: close_period_def open_period_def close_fiscal_year_def set_period_status_def
    create_currency_def set_functional_currency_def create_exchange_rate_def uuid4_def Let_def
    result_simps split: option.splits if_splits)

lemma ledger_step_elim:
  assumes "ledger_step db db'"
  obtains (draft) t c fa e where "create_draft_entry db t c fa = Inr (e, db')"
  | (post) t i ro skip e where "post_entry db t i ro skip = Inr (e, db')"
  | (reverse) t i d descr e where "reverse_entry db t i d descr = Inr (e, db')"
  | (frame) "journal_entries db' = journal_entries db \<and> journal_lines db' = journal_lines db \<and>
       uuid_supply db \<le> uuid_supply db'"
  using assms
proof (cases rule: ledger_step.cases)
  case fiscal_year
  then show ?thesis by (intro frame journal_frame(1))
next
  case close
  then show ?thesis by (intro frame journal_frame(2))
next
  case reopen
  then show ?thesis by (intro frame journal_frame(3))
next
  case close_year
  then show ?thesis by (intro frame journal_frame(4))
next
  case currency
  then show ?thesis by (intro frame journal_frame(5))
next
  case functional
  then show ?thesis by (intro frame journal_frame(6))
next
  case rate
  then show ?thesis by (intro frame journal_frame(7))
qed (rule draft post reverse, assumption)+

lemma books_wf_frame:
  "books_wf db \<Longrightarrow> journal_entries db' = journal_entries db \<and> journal_lines db' = journal_lines db \<and>
   uuid_supply db \<le> uuid_supply db' \<Longrightarrow> books_wf db'"
  unfolding books_wf_def entry_lines_def by (metis order_less_le_trans)

lemma reverse_entry_wf: "books_wf db \<Longrightarrow> reverse_entry db t i d descr = Inr (r, db') \<Longrightarrow> books_wf db'"
  by (erule reverse_entry_entries)

lemma ledger_step_wf: "ledger_step db db' \<Longrightarrow> books_wf db \<Longrightarrow> books_wf db'"
  by (erule ledger_step_elim)
    (erule create_draft_entry_wf post_entry_wf reverse_entry_wf books_wf_frame; assumption)+

lemma ledger_run_wf: "ledger_step\<^sup>*\<^sup>* db db' \<Longrightarrow> books_wf db \<Longrightarrow> books_wf db'"
  by (induction rule: rtranclp_induct) (blast intro: ledger_step_wf)+

subsection \<open>Trial balance\<close>

lemma sum_by_key:
  fixes g :: "'a \<Rightarrow> 'b::comm_monoid_add"
  assumes "distinct ks" and "\<forall>x \<in> set xs. key x \<in> set ks"
  shows "sum_list (map g xs) = sum_list (map (\<lambda>k. sum_list (map g (filter (\<lambda>x. key x = k) xs))) ks)"
  using assms(2)
proof (induction xs)
  case (Cons x xs)
  have split: "sum_list (map (\<lambda>k. sum_list (map g (filter (\<lambda>y. key y = k) (x # xs)))) ks) =
      sum_list (map (\<lambda>k. if k = key x then g x else 0) ks) +
      sum_list (map (\<lambda>k. sum_list (map g (filter (\<lambda>y. key y = k) xs))) ks)"
    by (subst sum_list_addf [symmetric]) (intro arg_cong [where f = sum_list] map_cong, auto)
  have "sum_list (map (\<lambda>k. if k = key x then g x else 0) ks) = g x"
    using assms(1) Cons.prems by (simp add: sum_list_distinct_conv_sum_set)
  with Cons split show ?case by simp
qed simp

lemma trial_balance:
  assumes wf: "books_wf db"
  shows "sum_list (map jl_fdebit (filter (\<lambda>l. jl_tenant l = t) (posted_lines db))) =
    sum_list (map jl_fcredit (filter (\<lambda>l. jl_tenant l = t) (posted_lines db)))"
proof -
  let ?g = "\<lambda>l. jl_fdebit l - jl_fcredit l" and ?ks = "map je_id (journal_entries db)"
  define ps where "ps = filter (\<lambda>l. jl_tenant l = t) (posted_lines db)"
  note W = books_wfD [OF wf]
  have each: "sum_list (map ?g (filter (\<lambda>l. jl_entry l = je_id e) ps)) = 0"
    if e: "e \<in> set (journal_entries db)" for e
  proof -
    have ok: "entry_ok (entry_lines db (je_id e)) e" by (rule W(7) [OF e])
    have "filter (\<lambda>l. jl_entry l = je_id e) ps =
        filter (\<lambda>l. jl_tenant l = t \<and> jl_is_posted l) (entry_lines db (je_id e))"
      by (simp add: ps_def posted_lines_def entry_lines_def conj_commute conj_left_commute)
    also have "\<dots> = (if je_tenant e = t \<and> je_status e \<noteq> DRAFT then entry_lines db (je_id e) else [])"
      using ok by (auto simp: entry_ok_def filter_empty_conv intro!: filter_True)
    finally show ?thesis using ok by (auto simp: entry_ok_def entry_balanced_def sum_list_subtractf)
  qed
  have "\<forall>l \<in> set ps. jl_entry l \<in> set ?ks" using W(6) by (auto simp: ps_def posted_lines_def)
  from sum_by_key [OF W(1) this, of ?g]
  have "sum_list (map ?g ps) = sum_list (map (\<lambda>e. sum_list (map ?g (filter (\<lambda>l. jl_entry l = je_id e) ps))) (journal_entries db))"
    by (simp add: o_def)
  also have "\<dots> = 0" using each by (simp add: sum_list_0 cong: map_cong)
  finally show ?thesis by (simp add: ps_def sum_list_subtractf)
qed

subsection \<open>Nothing posted is ever edited\<close>

text \<open>A header after the posting: unchanged, or marked as reversed.\<close>

definition header_kept :: "journal_entry \<Rightarrow> journal_entry \<Rightarrow> bool" where
  "header_kept e e' \<longleftrightarrow> e' = e \<or> (je_status e = POSTED \<and> (\<exists>r. e' = mark_reversed r e))"

definition posted_kept :: "'m fin_db_scheme \<Rightarrow> 'm fin_db_scheme \<Rightarrow> bool" where
  "posted_kept db db' \<longleftrightarrow>
     mset (posted_lines db) \<subseteq># mset (posted_lines db') \<and>
     (\<forall>e \<in> set (journal_entries db). je_status e \<noteq> DRAFT \<longrightarrow>
        (\<exists>e' \<in> set (journal_entries db'). header_kept e e'))"

lemma posted_kept_refl: "posted_kept db db"
  by (auto simp: posted_kept_def header_kept_def)

lemma header_kept_trans: "header_kept a b \<Longrightarrow> header_kept b c \<Longrightarrow> header_kept a c"
  by (auto simp: header_kept_def)

lemma header_kept_status: "header_kept a b \<Longrightarrow> je_status a \<noteq> DRAFT \<Longrightarrow> je_status b \<noteq> DRAFT"
  by (auto simp: header_kept_def)

lemma posted_kept_trans: "posted_kept a b \<Longrightarrow> posted_kept b c \<Longrightarrow> posted_kept a c"
  unfolding posted_kept_def
  by (meson header_kept_status header_kept_trans subset_mset.order_trans)

lemma posted_kept_frame:
  "journal_entries db' = journal_entries db \<and> journal_lines db' = journal_lines db \<and>
   uuid_supply db \<le> uuid_supply db' \<Longrightarrow> posted_kept db db'"
  by (auto simp: posted_kept_def posted_lines_def header_kept_def)

lemma create_draft_entry_kept:
  assumes "books_wf db" and "create_draft_entry db t c fa = Inr (e, db')"
  shows "posted_kept db db'"
proof (rule create_draft_entry_Inr [OF assms(2)])
  fix d ls db1 db2
  assume *: "db1 = db\<lparr>uuid_supply := Suc (Suc (uuid_supply db)), documents := documents db @ [d]\<rparr>"
    "insert_entry e db1 = Inr db2" "fold_result insert_line ls db2 = Inr db'"
  have db2: "db2 = db1\<lparr>journal_entries := journal_entries db1 @ [e]\<rparr>"
    using *(2) by (auto simp: insert_entry_def result_simps split: if_splits)
  show ?thesis
    using fold_insert_line [OF *(3)] by (auto simp: posted_kept_def posted_lines_def header_kept_def db2 *(1))
qed

lemma post_entry_kept:
  assumes wf: "books_wf db" and post: "post_entry db t i ro skip = Inr (e', db')"
  shows "posted_kept db db'"
proof (rule post_entry_effect [OF wf post])
  fix e ls p n
  assume e: "get_entry db t i = Inr e" "je_status e = DRAFT"
    and m: "core_db.more db' = core_db.more (db\<lparr>
       journal_lines := write_back (map (denormalize e p) ls) (journal_lines db),
       journal_entries := upd_rows (\<lambda>x. je_id x = i) (promote n p (now db)) (journal_entries db)\<rparr>)"
  have es: "journal_entries db' = upd_rows (\<lambda>x. je_id x = i) (promote n p (now db)) (journal_entries db)"
    using fin_frame(6) [OF m] by simp
  have "je_id f \<noteq> i" if "f \<in> set (journal_entries db)" "je_status f \<noteq> DRAFT" for f
    using that e get_entry_Inr [OF e(1)] books_wfD(1) [OF wf] by (metis distinct_map inj_onD)
  then have "f \<in> set (journal_entries db')" if "f \<in> set (journal_entries db)" "je_status f \<noteq> DRAFT" for f
    using that unfolding es set_upd_rows by blast
  then show ?thesis
    using post_entry_ledger(1) [OF wf post] by (auto simp: posted_kept_def header_kept_def)
qed

lemma reverse_entry_kept:
  assumes wf: "books_wf db" and rev: "reverse_entry db t i rdate descr = Inr (r, db')"
  shows "posted_kept db db'"
proof -
  obtain original where o: "get_entry db t i = Inr original" "je_status original = POSTED"
    using reverse_entry_Inr [OF rev] by metis
  have i: "\<And>f. f \<in> set (journal_entries db) \<Longrightarrow> je_id f = i \<Longrightarrow> f = original"
    using get_entry_Inr [OF o(1)] books_wfD(1) [OF wf] by (metis distinct_map inj_onD)
  obtain n p k hdr where es: "journal_entries db' =
      upd_rows (\<lambda>e. je_id e = i) (mark_reversed (uuid_supply db)) (journal_entries db) @ [promote n p k hdr]"
    by (rule reverse_entry_entries [OF wf rev])
  have "\<exists>e' \<in> set (journal_entries db'). header_kept f e'"
    if "f \<in> set (journal_entries db)" "je_status f \<noteq> DRAFT" for f
  proof (cases "je_id f = i")
    case True
    then show ?thesis using i [OF that(1)] o(2) that(1)
      unfolding es by (auto simp: set_upd_rows header_kept_def)
  next
    case False
    then show ?thesis using that(1) unfolding es by (auto simp: set_upd_rows header_kept_def)
  qed
  then show ?thesis using reverse_entry_ledger(1) [OF wf rev] by (auto simp: posted_kept_def)
qed

lemma ledger_step_kept: "ledger_step db db' \<Longrightarrow> books_wf db \<Longrightarrow> posted_kept db db'"
  by (erule ledger_step_elim)
    (erule create_draft_entry_kept post_entry_kept reverse_entry_kept posted_kept_frame; assumption?)+

lemma ledger_run_kept: "ledger_step\<^sup>*\<^sup>* db db' \<Longrightarrow> books_wf db \<Longrightarrow> posted_kept db db'"
proof (induction rule: rtranclp_induct)
  case (step d d')
  then show ?case using ledger_step_kept [of d d'] ledger_run_wf [of db d] posted_kept_trans by blast
qed (rule posted_kept_refl)

lemma sql_and_Some: "sql_and (Some a) (Some b) = Some (a \<and> b)"
  by (cases a) simp_all

subsection \<open>A sample ledger\<close>

text \<open>One tenant, one open period and a balanced draft of two lines, for the witnesses.\<close>

definition sample_line :: "uuid \<Rightarrow> nat \<Rightarrow> uuid \<Rightarrow> decimal \<Rightarrow> decimal \<Rightarrow> journal_line" where
  "sample_line i n a d c =
     \<lparr>jl_id = i, jl_tenant = 1, jl_entry = 10, jl_number = n, jl_account = a,
      jl_description = None, jl_tdebit = d, jl_tcredit = c, jl_fdebit = d, jl_fcredit = c,
      jl_currency = ''USD'', jl_cost_center = None, jl_profit_center = None, jl_project = None,
      jl_item = None, jl_partner_type = None, jl_partner = None, jl_is_posted = False,
      jl_posting_date = None, jl_period = None\<rparr>"

definition sample_books :: fin_db where
  "sample_books =
     \<lparr>uuid_supply = 20, today = Date 2024 3 5, now = 7,
      number_sequences = [], number_counters = [],
      documents = [\<lparr>doc_pk = 11, doc_tenant = 1, doc_type = ''finance.journal_entry'', doc_id = 10,
        doc_number = None, doc_status = Some ''DRAFT''\<rparr>],
      doc_links = [], pending_events = [], accounts = [], fiscal_years = [],
      fiscal_periods = [\<lparr>fp_id = 2, fp_tenant = 1, fp_year = 1, fp_number = 1,
        fp_start = Date 2024 3 1, fp_end = Date 2024 3 31, fp_status = OPEN\<rparr>],
      currencies = [], exchange_rates = [], cost_centers = [], profit_centers = [],
      journal_entries = [\<lparr>je_id = 10, je_tenant = 1, je_document = 11, je_number = None,
        je_posting_date = Date 2024 3 5, je_period = None, je_document_type = JOURNAL,
        je_currency = ''USD'', je_description = None, je_status = DRAFT, je_reverses = None,
        je_reversed_by = None, je_posted_at = None\<rparr>],
      journal_lines = [sample_line 12 1 100 50 0, sample_line 13 2 200 0 50]\<rparr>"

definition sample_posted :: fin_db where
  "sample_posted = snd (projr (post_entry sample_books 1 10 None False))"

lemma sample_books_wf: "books_wf sample_books"
  by code_simp

lemma sample_posts: "is_ok (post_entry sample_books 1 10 None False)"
  by code_simp

lemma sample_reverses: "is_ok (reverse_entry sample_posted 1 10 (Date 2024 3 20) None)"
  by code_simp

lemma sample_post_Inr:
  obtains e where "post_entry sample_books 1 10 None False = Inr (e, sample_posted)"
  using is_okE [OF sample_posts] unfolding sample_posted_def by (metis prod.collapse sum.sel(2))

lemma sample_posted_wf: "books_wf sample_posted"
  by (rule sample_post_Inr) (rule post_entry_wf [OF sample_books_wf])

lemma sample_reverse_Inr:
  obtains r db' where "reverse_entry sample_posted 1 10 (Date 2024 3 20) None = Inr (r, db')"
  using is_okE [OF sample_reverses] by (metis surj_pair)

lemma sample_run:
  obtains r db' where "reverse_entry sample_posted 1 10 (Date 2024 3 20) None = Inr (r, db')"
    and "ledger_step\<^sup>*\<^sup>* sample_books db'"
proof (rule sample_reverse_Inr)
  fix r db' assume r: "reverse_entry sample_posted 1 10 (Date 2024 3 20) None = Inr (r, db')"
  obtain e where "post_entry sample_books 1 10 None False = Inr (e, sample_posted)"
    by (rule sample_post_Inr)
  then have "ledger_step sample_books sample_posted" by (rule ledger_step.post)
  moreover have "ledger_step sample_posted db'" using r by (rule ledger_step.reverse)
  ultimately show thesis using that [OF r] by (meson converse_rtranclp_into_rtranclp rtranclp.rtrancl_refl)
qed

subsection \<open>Properties\<close>

text \<open>
  C1. The books always balance: from well-formed books (for instance empty ones), after any
  sequence of committed journal, period, currency and rate operations the books are well formed
  again (every posted or reversed entry has equal functional debits and credits with a positive
  total, a number and a period) and the posted lines of every tenant form a trial balance.
\<close>

theorem books_stay_balanced:
  assumes "books_wf db" and "ledger_step\<^sup>*\<^sup>* db db'"
  shows "books_wf db' \<and>
    sum_list (map jl_fdebit (filter (\<lambda>l. jl_tenant l = t) (posted_lines db'))) =
    sum_list (map jl_fcredit (filter (\<lambda>l. jl_tenant l = t) (posted_lines db')))"
  using ledger_run_wf [OF assms(2,1)] trial_balance by blast

theorem books_stay_balanced_witness:
  "\<exists>db'. ledger_step\<^sup>*\<^sup>* sample_books db' \<and> books_wf db' \<and>
    sum_list (map jl_fdebit (filter (\<lambda>l. jl_tenant l = 1) (posted_lines db'))) =
    sum_list (map jl_fcredit (filter (\<lambda>l. jl_tenant l = 1) (posted_lines db')))"
  by (rule sample_run) (use books_stay_balanced [OF sample_books_wf, of _ 1] in blast)

text \<open>
  C2. Nothing posted is ever edited: over any run, every posted line is still there unchanged
  (as a multiset, so none is lost or duplicated), and every posted header is unchanged or is
  the original with only the status \<open>REVERSED\<close> and the reversing entry's id set; a reversed
  header never changes again.
\<close>

theorem posted_never_edited:
  assumes "books_wf db" and "ledger_step\<^sup>*\<^sup>* db db'"
  shows "mset (posted_lines db) \<subseteq># mset (posted_lines db') \<and>
    (\<forall>e \<in> set (journal_entries db). je_status e \<noteq> DRAFT \<longrightarrow>
       (\<exists>e' \<in> set (journal_entries db').
          e' = e \<or> (je_status e = POSTED \<and>
                    (\<exists>r. e' = e\<lparr>je_reversed_by := Some r, je_status := REVERSED\<rparr>))))"
  using ledger_run_kept [OF assms(2,1)]
  unfolding posted_kept_def header_kept_def mark_reversed_def by blast

theorem posted_never_edited_witness:
  "\<exists>db'. ledger_step\<^sup>*\<^sup>* sample_books db' \<and> mset (posted_lines sample_books) \<subseteq># mset (posted_lines db')"
  by (rule sample_run) (use posted_never_edited [OF sample_books_wf] in blast)



text \<open>
  C17. The service never trips a database guard: on well-formed books neither posting nor reversing
  ever runs into the period, balance or immutability triggers of migration 0009; every refusal is
  one of the service's own errors (or a constraint), and the triggers only stop writes that bypass
  the service.
\<close>

theorem service_never_trips_guard:
  assumes "books_wf db"
  shows "post_entry db t i ro skip \<noteq> Inl (DbGuard tok) \<and> reverse_entry db t i d descr \<noteq> Inl (DbGuard tok)"
  using post_entry_no_guard [OF assms] reverse_entry_no_guard [OF assms] by (simp add: no_guard_def)

theorem service_never_trips_guard_witness:
  "post_entry sample_books 1 10 None False \<noteq> Inl (DbGuard TOKEN_UNBALANCED)"
  using service_never_trips_guard [OF sample_books_wf] by blast

text \<open>
  C15. A reversal cancels its original: after \<open>reverse_entry\<close> the original is \<open>REVERSED\<close> and names
  the reversing entry, the reversing entry is posted and names the original, the lines of the two
  entries net to zero on every account, and the balance of every account over the posted ledger is
  the old balance without the original's contribution.
\<close>

theorem reversal_cancels:
  assumes wf: "books_wf db" and rev: "reverse_entry db t i rdate descr = Inr (r, db')"
  shows "je_status r = POSTED \<and> je_reverses r = Some i \<and> r \<in> set (journal_entries db') \<and>
    (\<exists>o' \<in> set (journal_entries db'). je_id o' = i \<and> je_status o' = REVERSED \<and> je_reversed_by o' = Some (je_id r)) \<and>
    net a (entry_lines db' i) + net a (entry_lines db' (je_id r)) = 0 \<and>
    net a (posted_lines db') = net a (posted_lines db) - net a (entry_lines db i)"
proof (rule reverse_entry_entries [OF wf rev])
  fix n p hdr k
  assume hdr: "je_id hdr = uuid_supply db" "je_reverses hdr = Some i" and r: "r = promote n p k hdr"
    and ne: "i \<noteq> uuid_supply db"
    and es: "journal_entries db' =
      upd_rows (\<lambda>e. je_id e = i) (mark_reversed (uuid_supply db)) (journal_entries db) @ [promote n p k hdr]"
  note L = reverse_entry_ledger [OF wf rev]
  obtain original where "get_entry db t i = Inr original" using reverse_entry_Inr [OF rev] by metis
  note E = get_entry_Inr [OF this]
  have "mark_reversed (uuid_supply db) original \<in> set (journal_entries db')"
    unfolding es using E by (auto simp: set_upd_rows)
  then have 1: "\<exists>o' \<in> set (journal_entries db'). je_id o' = i \<and> je_status o' = REVERSED \<and> je_reversed_by o' = Some (je_id r)"
    using E r hdr by (intro bexI [of _ "mark_reversed (uuid_supply db) original"]) simp_all
  have "entry_lines db' i = entry_lines db i"
    using L(3) [of "\<lambda>k. k = i"] ne by (simp add: entry_lines_def)
  then have 2: "net a (entry_lines db' i) + net a (entry_lines db' (je_id r)) = 0"
    using L(2) r hdr by simp
  have "net a (posted_lines db') = net a (posted_lines db @ entry_lines db' (uuid_supply db))"
    by (rule net_mset) (use L(1) in simp)
  then have 3: "net a (posted_lines db') = net a (posted_lines db) - net a (entry_lines db i)" using L(2) by simp
  from 1 2 3 r hdr es show ?thesis by simp
qed

theorem reversal_cancels_witness:
  "\<exists>r db'. reverse_entry sample_posted 1 10 (Date 2024 3 20) None = Inr (r, db') \<and>
     net 100 (entry_lines db' 10) + net 100 (entry_lines db' (je_id r)) = 0"
  by (rule sample_reverse_Inr) (use reversal_cancels [OF sample_posted_wf] in blast)



text \<open>
  C21. Entry numbers are claimed without gaps: the number of a posted entry is the next free value
  of the journal sequence in the posting date's year, that counter advances by exactly one and no
  other counter of the tenant moves.
\<close>

theorem posting_claims_next_number:
  assumes s: "sequences_named db t JOURNAL_SEQUENCE_NAME = [s]"
    and post: "post_entry db t i ro skip = Inr (e', db')"
  shows "je_number e' = Some (format_number (ns_prefix s) (ns_padding s)
        (next_free db t (ns_id s) (seq_bucket s (je_posting_date e')))
        (if ns_year_reset s then Some (dyear (je_posting_date e')) else None)) \<and>
    next_free db' t q y = (if (q, y) = (ns_id s, seq_bucket s (je_posting_date e'))
      then Suc (next_free db t q y) else next_free db t q y)"
proof -
  obtain e ls p where "post_writes db t e p ls = Inr (e', db')" by (rule post_entry_Inr [OF post])
  then obtain db1 n db2 db3 db4 db5 where es: "ensure_sequence db t JOURNAL_SEQUENCE_NAME JOURNAL_NUMBER_PREFIX
      JOURNAL_NUMBER_PADDING True = Inr (s, db1)" "db1 = db"
    and cn: "claim_number db1 t JOURNAL_SEQUENCE_NAME (je_posting_date e) = Inr (n, db2)"
    and ul: "fold_result update_line (map (denormalize e p) ls) db2 = Inr db3"
    and ue: "update_entry (je_id e) (promote n p (now db)) db3 = Inr db4"
    and sd: "set_document_status db4 t (je_document e) (Some (entry_status_str POSTED)) (Some n) = Inr db5"
    and e': "e' = promote n p (now db) e"
    and db': "db' = publish (JournalEntryPosted t (je_id e) n (je_document_type e) (je_posting_date e)
            (je_currency e) (sum_list (map jl_fdebit ls)) (map jl_account ls)) db5"
    by (rule post_writes_Inr) (use s in \<open>auto simp: ensure_sequence_def\<close>)
  have "number_counters db4 = number_counters db3" using ue by (elim update_entry_Inr) simp
  then have "number_counters db' = number_counters db2"
    using fold_update_line [OF ul] set_document_status_frame [OF sd] by (simp add: db')
  then have nf: "next_free db' t q y = next_free db2 t q y" by (simp add: next_free_def)
  from cn [unfolded es(2)] claim_number_eq [OF s, of "je_posting_date e"]
  have "n = format_number (ns_prefix s) (ns_padding s) (next_free db t (ns_id s) (seq_bucket s (je_posting_date e)))
      (if ns_year_reset s then Some (dyear (je_posting_date e)) else None)"
    and "db2 = snd (claim_value db t (ns_id s) (seq_bucket s (je_posting_date e)))" by simp_all
  with nf e' show ?thesis by (auto simp: claim_value_next)
qed

definition sample_numbered :: fin_db where
  "sample_numbered = sample_books\<lparr>number_sequences :=
     [\<lparr>ns_id = 3, ns_tenant = 1, ns_name = ''finance.journal'', ns_prefix = ''JE'', ns_padding = 5,
       ns_year_reset = True\<rparr>],
     number_counters := [\<lparr>nc_id = 4, nc_tenant = 1, nc_sequence = 3, nc_year = 2024, nc_next_value = 8\<rparr>]\<rparr>"

lemma sample_numbered_posts: "is_ok (post_entry sample_numbered 1 10 None False)"
  by code_simp

theorem posting_claims_next_number_witness:
  "\<exists>e' db'. post_entry sample_numbered 1 10 None False = Inr (e', db') \<and>
     next_free db' 1 3 2023 = next_free sample_numbered 1 3 2023"
proof -
  let ?s = "\<lparr>ns_id = 3, ns_tenant = 1, ns_name = ''finance.journal'', ns_prefix = ''JE'', ns_padding = 5,
       ns_year_reset = True\<rparr>"
  have s: "sequences_named sample_numbered 1 JOURNAL_SEQUENCE_NAME = [?s]" by code_simp
  obtain e' db' where p: "post_entry sample_numbered 1 10 None False = Inr (e', db')"
    by (rule is_okE [OF sample_numbered_posts]) (metis surj_pair)
  have "je_posting_date e' = Date 2024 3 5"
    by (rule post_entry_Inr [OF p]) (auto simp: get_entry_def sample_numbered_def sample_books_def
        elim!: post_writes_Inr)
  with p posting_claims_next_number [OF s p, of 3 2023] show ?thesis by (auto simp: seq_bucket_def)
qed



text \<open>
  The trigger's condition is three-valued: an update that sets the number of a posted header to
  NULL makes it unknown and is let through, and a reversed header is not guarded at all.
\<close>

lemma guard_lets_number_be_erased:
  "header_update_guard db old (old\<lparr>je_status := REVERSED, je_reversed_by := Some r, je_number := None\<rparr>) = Inr ()"
  if "je_status old = POSTED" "je_period old \<noteq> None"
  using that by (auto simp: header_update_guard_def sanctioned_def sql_eq_def sql_not_def)

lemma guard_ignores_reversed_header:
  "je_status old = REVERSED \<Longrightarrow> je_status new \<noteq> POSTED \<Longrightarrow> header_update_guard db old new = Inr ()"
  by (simp add: header_update_guard_def)

end
