(* ===== verification/Event_Bus.thy ===== *)
theory Event_Bus
  imports Core_Db
begin

text \<open>
  Model of \<^verbatim>\<open>backend/app/core/events.py\<close>: events are buffered by \<open>publish\<close> and drained by the unit
  of work, oldest first, running each subscribed handler on the same state; handlers may publish
  more. The cap on dispatches makes the drain terminate, which is the termination proof of
  \<open>drain_and_dispatch\<close>. The lemmas show that a drain ends with an empty buffer, that it runs at
  most the capped number of handlers, and that what the work and every handler keep true is true
  after commit.
\<close>

definition MAX_DISPATCHES_PER_UOW :: nat where "MAX_DISPATCHES_PER_UOW = 50"

type_synonym ('ev, 'm) handler =
  "('ev, 'm) core_db_scheme \<Rightarrow> ('ev, 'm) core_db_scheme result"

text \<open>The handlers of one event in registration order, each counted against the cap.\<close>

primrec run_handlers ::
  "('ev, 'm) handler list \<Rightarrow> ('ev, 'm) core_db_scheme \<Rightarrow> nat \<Rightarrow>
   (('ev, 'm) core_db_scheme \<times> nat) result" where
  "run_handlers [] db dispatched = Inr (db, dispatched)"
| "run_handlers (h # hs) db dispatched =
     (if MAX_DISPATCHES_PER_UOW \<le> dispatched then Inl (AtlasError 500 ''events.cycle_detected'')
      else bindr (h db) (\<lambda>db'. run_handlers hs db' (dispatched + 1)))"

lemma run_handlers_count:
  "run_handlers hs db n = Inr (db', n') \<Longrightarrow>
   n' = n + length hs \<and> (hs \<noteq> [] \<longrightarrow> n' \<le> MAX_DISPATCHES_PER_UOW)"
proof (induction hs arbitrary: db n)
  case (Cons h hs)
  from Cons.prems obtain db1 where n: "n < MAX_DISPATCHES_PER_UOW"
    and r: "run_handlers hs db1 (n + 1) = Inr (db', n')"
    by (auto simp: result_simps split: if_splits)
  from Cons.IH [OF r] n show ?case by (cases hs) auto
qed simp

lemma run_handlers_inv:
  assumes "run_handlers hs db n = Inr (db', n')" and "P db"
    and "\<And>h db db'. h \<in> set hs \<Longrightarrow> P db \<Longrightarrow> h db = Inr db' \<Longrightarrow> P db'"
  shows "P db'"
  using assms
proof (induction hs arbitrary: db n)
  case (Cons h hs)
  from Cons.prems(1) obtain db1 where "h db = Inr db1" and r: "run_handlers hs db1 (n + 1) = Inr (db', n')"
    by (auto simp: result_simps split: if_splits)
  with Cons.prems have "P db1" by auto
  with r Cons.prems(3) show ?case by (intro Cons.IH [OF r]) auto
qed simp

text \<open>\<^verbatim>\<open>while buffer: event = buffer.pop(0); for handler in handlers_for(event.key): ...\<close>\<close>

function drain_and_dispatch ::
  "('ev \<Rightarrow> ('ev, 'm) handler list) \<Rightarrow> ('ev, 'm) core_db_scheme \<Rightarrow> nat \<Rightarrow>
   (('ev, 'm) core_db_scheme) result" where
  "drain_and_dispatch handlers_for db dispatched =
     (case pending_events db of
        [] \<Rightarrow> Inr db
      | ev # evs \<Rightarrow>
          bindr (run_handlers (handlers_for ev) (db\<lparr>pending_events := evs\<rparr>) dispatched)
            (\<lambda>r. drain_and_dispatch handlers_for (fst r) (snd r)))"
  by pat_completeness auto
termination
proof (relation "measures [\<lambda>(H, db, n). MAX_DISPATCHES_PER_UOW - n, \<lambda>(H, db, n). length (pending_events db)]",
    goal_cases)
  case 1
  show ?case by simp
next
  case (2 H db n ev evs r)
  obtain db' n' where r: "r = (db', n')" by fastforce
  from 2 r have run: "run_handlers (H ev) (db\<lparr>pending_events := evs\<rparr>) n = Inr (db', n')"
    by (cases "run_handlers (H ev) (db\<lparr>pending_events := evs\<rparr>) n") auto
  show ?case
  proof (cases "H ev")
    case Nil
    with run have "db' = db\<lparr>pending_events := evs\<rparr>" "n' = n" by auto
    with 2(1) r show ?thesis by simp
  next
    case (Cons h hs)
    with run_handlers_count [OF run] have "n < n'" "n' \<le> MAX_DISPATCHES_PER_UOW" by auto
    then show ?thesis by (simp add: r) linarith
  qed
qed

declare drain_and_dispatch.simps [simp del]

lemma drain_Nil: "pending_events db = [] \<Longrightarrow> drain_and_dispatch H db n = Inr db"
  by (simp add: drain_and_dispatch.simps)

lemma drain_Cons:
  "pending_events db = ev # evs \<Longrightarrow>
   drain_and_dispatch H db n =
     bindr (run_handlers (H ev) (db\<lparr>pending_events := evs\<rparr>) n)
       (\<lambda>r. drain_and_dispatch H (fst r) (snd r))"
  by (simp add: drain_and_dispatch.simps [of H db n])

lemma drain_empties: "drain_and_dispatch H db n = Inr db' \<Longrightarrow> pending_events db' = []"
proof (induction H db n rule: drain_and_dispatch.induct)
  case (1 H db n)
  show ?case
  proof (cases "pending_events db")
    case Nil
    with 1 show ?thesis by (simp add: drain_Nil)
  next
    case (Cons ev evs)
    with 1(2) obtain r where r: "run_handlers (H ev) (db\<lparr>pending_events := evs\<rparr>) n = Inr r"
      "drain_and_dispatch H (fst r) (snd r) = Inr db'" by (auto simp: drain_Cons)
    from 1(1) [OF Cons r] show ?thesis .
  qed
qed

lemma drain_inv:
  assumes handlers: "\<And>ev h db db'. h \<in> set (H ev) \<Longrightarrow> P db \<Longrightarrow> h db = Inr db' \<Longrightarrow> P db'"
    and pending: "\<And>db evs. P db \<Longrightarrow> P (db\<lparr>pending_events := evs\<rparr>)"
  shows "drain_and_dispatch H db n = Inr db' \<Longrightarrow> P db \<Longrightarrow> P db'"
proof (induction H\<equiv>H db n rule: drain_and_dispatch.induct)
  case (1 db n)
  show ?case
  proof (cases "pending_events db")
    case Nil
    with 1 show ?thesis by (simp add: drain_Nil)
  next
    case (Cons ev evs)
    with 1(2) obtain r where r: "run_handlers (H ev) (db\<lparr>pending_events := evs\<rparr>) n = Inr r"
      "drain_and_dispatch H (fst r) (snd r) = Inr db'" by (auto simp: drain_Cons)
    have "P (fst r)"
      by (rule run_handlers_inv [of "H ev" "db\<lparr>pending_events := evs\<rparr>" n "fst r" "snd r" P])
        (use r 1(3) handlers pending in auto)
    with r show ?thesis by (intro 1(1) [OF Cons r(1)]) auto
  qed
qed

subsection \<open>The unit of work\<close>

text \<open>
  \<^verbatim>\<open>run_in_uow\<close>: run the work, drain the buffer, commit; any exception rolls back. The committed
  state of the database is the returned one; \<open>uow_outcome\<close> is what later units of work see.
\<close>

definition run_in_uow ::
  "('ev \<Rightarrow> ('ev, 'm) handler list) \<Rightarrow> ('ev, 'm) handler \<Rightarrow> ('ev, 'm) handler" where
  "run_in_uow H work db = bindr (work db) (\<lambda>db1. drain_and_dispatch H db1 0)"

definition uow_outcome ::
  "('ev \<Rightarrow> ('ev, 'm) handler list) \<Rightarrow> ('ev, 'm) handler \<Rightarrow>
   ('ev, 'm) core_db_scheme \<Rightarrow> ('ev, 'm) core_db_scheme" where
  "uow_outcome H work db =
     (case run_in_uow H work db of
        Inl _ \<Rightarrow> db\<lparr>pending_events := []\<rparr>
      | Inr db' \<Rightarrow> db')"

text \<open>
  A property that the work and all handlers keep: the contract under which modules may react to
  each other's events.
\<close>

locale uow_invariant =
  fixes H :: "'ev \<Rightarrow> ('ev, 'm) handler list"
    and P :: "('ev, 'm) core_db_scheme \<Rightarrow> bool"
  assumes handler_keeps: "h \<in> set (H ev) \<Longrightarrow> P db \<Longrightarrow> h db = Inr db' \<Longrightarrow> P db'"
    and buffer_irrelevant: "P db \<Longrightarrow> P (db\<lparr>pending_events := evs\<rparr>)"
begin

lemma uow_keeps:
  assumes "\<And>db'. work db = Inr db' \<Longrightarrow> P db'" and "P db"
  shows "P (uow_outcome H work db)"
proof (cases "run_in_uow H work db")
  case (Inl e)
  with assms(2) buffer_irrelevant show ?thesis by (simp add: uow_outcome_def)
next
  case (Inr db')
  then obtain db1 where "work db = Inr db1" "drain_and_dispatch H db1 0 = Inr db'"
    by (auto simp: run_in_uow_def)
  then have "P db'" using assms(1) drain_inv [of H P db1 0 db'] handler_keeps buffer_irrelevant by blast
  with Inr show ?thesis by (simp add: uow_outcome_def)
qed

end

subsection \<open>Properties\<close>

lemma run_handlers_pending:
  assumes "run_handlers hs db n = Inr (db', n')" and "hs \<noteq> []"
    and "\<And>h d d'. h \<in> set hs \<Longrightarrow> h d = Inr d' \<Longrightarrow> pending_events d' \<noteq> []"
  shows "pending_events db' \<noteq> []"
  using assms
proof (induction hs arbitrary: db n)
  case (Cons h hs)
  from Cons.prems(1) obtain d where d: "h db = Inr d" "run_handlers hs d (n + 1) = Inr (db', n')"
    by (auto simp: result_simps split: if_splits)
  show ?case
  proof (cases "hs = []")
    case True
    with d Cons.prems(3) show ?thesis by auto
  next
    case False
    with Cons.IH [OF d(2)] Cons.prems(3) show ?thesis by auto
  qed
qed simp

text \<open>
  C23. Draining the event buffer: a drain that succeeds leaves no event behind; and handlers that
  keep publishing (every event has a handler and every handler run leaves the buffer non-empty)
  cannot loop, the cap turns them into an error that rolls the unit of work back.
\<close>

theorem drain_terminates:
  shows "(\<forall>db'. drain_and_dispatch H db n = Inr db' \<longrightarrow> pending_events db' = []) \<and>
    ((\<forall>ev. H ev \<noteq> [] \<and> (\<forall>h \<in> set (H ev). \<forall>d d'. h d = Inr d' \<longrightarrow> pending_events d' \<noteq> [])) \<longrightarrow>
     pending_events db \<noteq> [] \<longrightarrow> (\<exists>e. drain_and_dispatch H db n = Inl e))"
proof (intro conjI allI impI)
  fix db' assume "drain_and_dispatch H db n = Inr db'"
  then show "pending_events db' = []" by (rule drain_empties)
next
  assume H: "\<forall>ev. H ev \<noteq> [] \<and> (\<forall>h \<in> set (H ev). \<forall>d d'. h d = Inr d' \<longrightarrow> pending_events d' \<noteq> [])"
    and "pending_events db \<noteq> []"
  then show "\<exists>e. drain_and_dispatch H db n = Inl e"
  proof (induction H\<equiv>H db n rule: drain_and_dispatch.induct)
    case (1 db n)
    from 1(3) obtain ev evs where ev: "pending_events db = ev # evs" by (cases "pending_events db") auto
    show ?case
    proof (cases "run_handlers (H ev) (db\<lparr>pending_events := evs\<rparr>) n")
      case (Inr r)
      have "pending_events (fst r) \<noteq> []"
        by (rule run_handlers_pending [of "H ev" "db\<lparr>pending_events := evs\<rparr>" n "fst r" "snd r"])
          (use Inr H in auto)
      from 1(1) [OF ev Inr H this] show ?thesis using Inr by (simp add: drain_Cons [OF ev])
    qed (simp add: drain_Cons [OF ev])
  qed
qed

definition sample_core :: "nat core_db" where
  "sample_core = \<lparr>uuid_supply = 0, today = Date 2024 1 1, now = 0, number_sequences = [],
     number_counters = [], documents = [], doc_links = [], pending_events = [7]\<rparr>"

theorem drain_terminates_witness:
  "\<exists>e. drain_and_dispatch (\<lambda>ev. [\<lambda>db. Inr (publish ev db)]) sample_core 0 = Inl e"
  using drain_terminates [of "\<lambda>ev. [\<lambda>db. Inr (publish ev db)]" sample_core 0]
  by (simp add: publish_def sample_core_def)

end
