(* ===== verification/Inv_Db.thy ===== *)
theory Inv_Db
  imports Fin_Db
begin

text \<open>
  The inventory tables (\<^verbatim>\<open>backend/app/modules/inventory/models\<close>) and enums: items and their
  categories, bins, lots and serials, the move ledger, the on-hand projection and the valuation
  tables. \<open>inv_db\<close> extends \<open>fin_db\<close>. A table lists its rows in order of insertion, which is
  their \<open>created_at\<close> order.
\<close>

datatype item_type = STOCKED | NON_STOCKED | SERVICE
datatype costing_method = MOVING_AVERAGE | FIFO
datatype tracking_mode = NO_TRACKING | LOT | SERIAL
datatype move_type = RECEIPT | ISSUE | TRANSFER | ADJUSTMENT

fun move_type_str :: "move_type \<Rightarrow> string" where
  "move_type_str RECEIPT = ''RECEIPT''"
| "move_type_str ISSUE = ''ISSUE''"
| "move_type_str TRANSFER = ''TRANSFER''"
| "move_type_str ADJUSTMENT = ''ADJUSTMENT''"

record item_category =
  ic_id :: uuid
  ic_tenant :: uuid
  ic_inventory_account :: "uuid option"
  ic_cogs_account :: "uuid option"
  ic_price_difference_account :: "uuid option"

record item =
  it_id :: uuid
  it_tenant :: uuid
  it_type :: item_type
  it_category :: uuid
  it_base_uom :: uuid
  it_costing :: costing_method
  it_tracking :: tracking_mode
  it_code :: string
  it_is_active :: bool
  it_reorder_point :: "decimal option"
  it_reorder_quantity :: "decimal option"

record stock_bin =
  bn_id :: uuid
  bn_tenant :: uuid
  bn_warehouse :: uuid
  bn_is_active :: bool
  bn_code :: string
  bn_is_default :: bool

record lot =
  lot_id :: uuid
  lot_tenant :: uuid
  lot_item :: uuid
  lot_code :: string

record serial_number =
  sn_id :: uuid
  sn_tenant :: uuid
  sn_item :: uuid
  sn_code :: string

record stock_move =
  sm_id :: uuid
  sm_tenant :: uuid
  sm_document :: uuid
  sm_number :: string
  sm_type :: move_type
  sm_item :: uuid
  sm_quantity :: decimal
  sm_base_uom :: uuid
  sm_from_bin :: "uuid option"
  sm_to_bin :: "uuid option"
  sm_lot :: "uuid option"
  sm_serial :: "uuid option"
  sm_date :: date
  sm_reference :: "string option"
  sm_unit_cost :: "decimal option"

record stock_quant =
  sq_id :: uuid
  sq_tenant :: uuid
  sq_item :: uuid
  sq_bin :: uuid
  sq_lot :: "uuid option"
  sq_on_hand :: decimal

record item_valuation =
  iv_id :: uuid
  iv_tenant :: uuid
  iv_item :: uuid
  iv_warehouse :: uuid
  iv_on_hand :: decimal
  iv_avg_unit_cost :: decimal
  iv_total_value :: decimal

record cost_layer =
  cl_id :: uuid
  cl_tenant :: uuid
  cl_item :: uuid
  cl_warehouse :: uuid
  cl_receipt_move :: uuid
  cl_received_at :: date
  cl_original :: decimal
  cl_remaining :: decimal
  cl_unit_cost :: decimal

record layer_consumption =
  lc_id :: uuid
  lc_tenant :: uuid
  lc_issue_move :: uuid
  lc_layer :: uuid
  lc_qty :: decimal
  lc_cost :: decimal

record inv_db = fin_db +
  items :: "item list"
  item_categories :: "item_category list"
  stock_bins :: "stock_bin list"
  lots :: "lot list"
  serials :: "serial_number list"
  stock_moves :: "stock_move list"
  stock_quants :: "stock_quant list"
  item_valuations :: "item_valuation list"
  cost_layers :: "cost_layer list"
  layer_consumptions :: "layer_consumption list"

subsection \<open>A sample tenant\<close>

text \<open>
  One tenant with a FIFO item (41) and a moving-average item (40), two warehouses with a bin each,
  two layers of the first item, a valuation of the second and the matching on-hand rows; used by
  the concrete instances of the inventory properties.
\<close>

definition sample_stock :: inv_db where
  "sample_stock =
     \<lparr>uuid_supply = 90, today = Date 2024 3 5, now = 7,
      number_sequences = [], number_counters = [], documents = [], doc_links = [], pending_events = [],
      accounts = [\<lparr>acc_id = 100, acc_tenant = 1, acc_code = ''1300'', acc_type = ASSET, acc_is_postable = True\<rparr>,
        \<lparr>acc_id = 200, acc_tenant = 1, acc_code = ''5000'', acc_type = EXPENSE, acc_is_postable = True\<rparr>,
        \<lparr>acc_id = 300, acc_tenant = 1, acc_code = ''5100'', acc_type = EXPENSE, acc_is_postable = True\<rparr>],
      fiscal_years = [],
      fiscal_periods = [\<lparr>fp_id = 2, fp_tenant = 1, fp_year = 1, fp_number = 1,
        fp_start = Date 2024 3 1, fp_end = Date 2024 3 31, fp_status = OPEN\<rparr>],
      currencies = [], exchange_rates = [], cost_centers = [], profit_centers = [],
      journal_entries = [], journal_lines = [],
      items = [\<lparr>it_id = 40, it_tenant = 1, it_type = STOCKED, it_category = 30, it_base_uom = 20,
          it_costing = MOVING_AVERAGE, it_tracking = NO_TRACKING,
          it_code = ''I'', it_is_active = True, it_reorder_point = None, it_reorder_quantity = None\<rparr>,
        \<lparr>it_id = 41, it_tenant = 1, it_type = STOCKED, it_category = 30, it_base_uom = 20,
          it_costing = FIFO, it_tracking = NO_TRACKING,
          it_code = ''I'', it_is_active = True, it_reorder_point = None, it_reorder_quantity = None\<rparr>],
      item_categories = [\<lparr>ic_id = 30, ic_tenant = 1, ic_inventory_account = Some 100,
        ic_cogs_account = Some 200, ic_price_difference_account = Some 300\<rparr>],
      stock_bins = [\<lparr>bn_id = 60, bn_tenant = 1, bn_warehouse = 50, bn_is_active = True, bn_code = ''B'', bn_is_default = True\<rparr>,
        \<lparr>bn_id = 61, bn_tenant = 1, bn_warehouse = 51, bn_is_active = True, bn_code = ''B'', bn_is_default = True\<rparr>],
      lots = [], serials = [], stock_moves = [],
      stock_quants = [\<lparr>sq_id = 70, sq_tenant = 1, sq_item = 41, sq_bin = 60, sq_lot = None, sq_on_hand = 8\<rparr>,
        \<lparr>sq_id = 71, sq_tenant = 1, sq_item = 40, sq_bin = 60, sq_lot = None, sq_on_hand = 3\<rparr>],
      item_valuations = [\<lparr>iv_id = 72, iv_tenant = 1, iv_item = 40, iv_warehouse = 50, iv_on_hand = 3,
        iv_avg_unit_cost = 333333 / 1000000, iv_total_value = 1\<rparr>],
      cost_layers = [\<lparr>cl_id = 80, cl_tenant = 1, cl_item = 41, cl_warehouse = 50, cl_receipt_move = 82,
          cl_received_at = Date 2024 2 1, cl_original = 5, cl_remaining = 5, cl_unit_cost = 2\<rparr>,
        \<lparr>cl_id = 81, cl_tenant = 1, cl_item = 41, cl_warehouse = 50, cl_receipt_move = 83,
          cl_received_at = Date 2024 1 1, cl_original = 3, cl_remaining = 3, cl_unit_cost = 1\<rparr>],
      layer_consumptions = []\<rparr>"

end
