(* ===== verification/Stock_Quants.thy ===== *)
theory Stock_Quants
  imports Inv_Db
begin

text \<open>
  Model of \<^verbatim>\<open>backend/app/modules/inventory/service/stock_quants.py\<close>: the on-hand row of one
  (item, bin, lot) and the resolution of lots and serials. The lemmas show that \<open>apply_bin_delta\<close>
  changes the on-hand of that key by the delta and of no other key, refuses what would go
  negative and keeps only positive rows.
\<close>

subsection \<open>On-hand rows\<close>

definition quant_match :: "uuid \<Rightarrow> uuid \<Rightarrow> uuid \<Rightarrow> uuid option \<Rightarrow> stock_quant \<Rightarrow> bool" where
  "quant_match tenant item bn lt q \<longleftrightarrow>
     sq_tenant q = tenant \<and> sq_item q = item \<and> sq_bin q = bn \<and> sq_lot q = lt"

definition locked_quant ::
  "'m inv_db_scheme \<Rightarrow> uuid \<Rightarrow> uuid \<Rightarrow> uuid \<Rightarrow> uuid option \<Rightarrow> stock_quant option result" where
  "locked_quant db tenant item bn lt = one_or_none (filter (quant_match tenant item bn lt) (stock_quants db))"

text \<open>
  \<^verbatim>\<open>CHECK (on_hand_qty >= 0)\<close> is not a case of its own: a non-negative quantity is stored as a
  non-negative quantity.
\<close>

definition apply_bin_delta ::
  "uuid \<Rightarrow> uuid \<Rightarrow> uuid option \<Rightarrow> uuid \<times> decimal \<Rightarrow> 'm inv_db_scheme \<Rightarrow> 'm inv_db_scheme result" where
  "apply_bin_delta tenant item lt bd db =
     (case bd of (bn, delta) \<Rightarrow>
      bindr (locked_quant db tenant item bn lt) (\<lambda>quant.
      let current = (case quant of Some q \<Rightarrow> sq_on_hand q | None \<Rightarrow> 0);
          new_qty = current + delta
      in if new_qty < 0 then Inl (ValidationFailedError ''inventory.insufficient_stock'')
         else case quant of
           None \<Rightarrow>
             (case uuid4 db of (i, db1) \<Rightarrow>
              Inr (db1\<lparr>stock_quants := stock_quants db1 @
                [\<lparr>sq_id = i, sq_tenant = tenant, sq_item = item, sq_bin = bn, sq_lot = lt,
                  sq_on_hand = store_quantity new_qty\<rparr>]\<rparr>))
         | Some q \<Rightarrow>
             if new_qty = 0
             then Inr (db\<lparr>stock_quants := filter (\<lambda>r. sq_id r \<noteq> sq_id q) (stock_quants db)\<rparr>)
             else Inr (db\<lparr>stock_quants := upd_rows (\<lambda>r. sq_id r = sq_id q)
                    (\<lambda>r. r\<lparr>sq_on_hand := store_quantity new_qty\<rparr>) (stock_quants db)\<rparr>)))"

subsection \<open>Lots and serials\<close>

definition get_or_create_lot ::
  "'m inv_db_scheme \<Rightarrow> uuid \<Rightarrow> uuid \<Rightarrow> string \<Rightarrow> (uuid \<times> 'm inv_db_scheme) result" where
  "get_or_create_lot db tenant item code =
     bindr (one_or_none (filter (\<lambda>l. lot_tenant l = tenant \<and> lot_item l = item \<and> lot_code l = code) (lots db)))
       (\<lambda>existing. case existing of
          Some l \<Rightarrow> Inr (lot_id l, db)
        | None \<Rightarrow>
            (case uuid4 db of (i, db1) \<Rightarrow>
             Inr (i, db1\<lparr>lots := lots db1 @
               [\<lparr>lot_id = i, lot_tenant = tenant, lot_item = item, lot_code = code\<rparr>]\<rparr>)))"

definition resolve_lot ::
  "'m inv_db_scheme \<Rightarrow> uuid \<Rightarrow> item \<Rightarrow> uuid option \<Rightarrow> string option \<Rightarrow> bool \<Rightarrow>
   (uuid option \<times> 'm inv_db_scheme) result" where
  "resolve_lot db tenant it lot_ref code create_if_missing =
     (if it_tracking it \<noteq> LOT
      then if lot_ref \<noteq> None \<or> code \<noteq> None
           then Inl (ValidationFailedError ''inventory.lot_not_applicable'') else Inr (None, db)
      else case lot_ref of
        Some i \<Rightarrow>
          (case find_row lot_id i (lots db) of
             None \<Rightarrow> Inl (ValidationFailedError ''inventory.lot_not_found'')
           | Some l \<Rightarrow>
               if lot_tenant l \<noteq> tenant \<or> lot_item l \<noteq> it_id it
               then Inl (ValidationFailedError ''inventory.lot_not_found'')
               else Inr (Some (lot_id l), db))
      | None \<Rightarrow>
          (case code of
             Some c \<Rightarrow>
               if create_if_missing
               then bindr (get_or_create_lot db tenant (it_id it) c) (\<lambda>(i, db1). Inr (Some i, db1))
               else Inl (ValidationFailedError ''inventory.lot_required'')
           | None \<Rightarrow> Inl (ValidationFailedError ''inventory.lot_required'')))"

definition get_or_create_serial ::
  "'m inv_db_scheme \<Rightarrow> uuid \<Rightarrow> uuid \<Rightarrow> string \<Rightarrow> (uuid \<times> 'm inv_db_scheme) result" where
  "get_or_create_serial db tenant item code =
     bindr (one_or_none (filter (\<lambda>s. sn_tenant s = tenant \<and> sn_item s = item \<and> sn_code s = code) (serials db)))
       (\<lambda>existing. case existing of
          Some s \<Rightarrow> Inr (sn_id s, db)
        | None \<Rightarrow>
            (case uuid4 db of (i, db1) \<Rightarrow>
             Inr (i, db1\<lparr>serials := serials db1 @
               [\<lparr>sn_id = i, sn_tenant = tenant, sn_item = item, sn_code = code\<rparr>]\<rparr>)))"

definition resolve_serial ::
  "'m inv_db_scheme \<Rightarrow> uuid \<Rightarrow> item \<Rightarrow> uuid option \<Rightarrow> string option \<Rightarrow> bool \<Rightarrow>
   (uuid option \<times> 'm inv_db_scheme) result" where
  "resolve_serial db tenant it serial_ref code create_if_missing =
     (if it_tracking it \<noteq> SERIAL
      then if serial_ref \<noteq> None \<or> code \<noteq> None
           then Inl (ValidationFailedError ''inventory.serial_not_applicable'') else Inr (None, db)
      else case serial_ref of
        Some i \<Rightarrow>
          (case find_row sn_id i (serials db) of
             None \<Rightarrow> Inl (ValidationFailedError ''inventory.serial_not_found'')
           | Some s \<Rightarrow>
               if sn_tenant s \<noteq> tenant \<or> sn_item s \<noteq> it_id it
               then Inl (ValidationFailedError ''inventory.serial_not_found'')
               else Inr (Some (sn_id s), db))
      | None \<Rightarrow>
          (case code of
             Some c \<Rightarrow>
               if create_if_missing
               then bindr (get_or_create_serial db tenant (it_id it) c) (\<lambda>(i, db1). Inr (Some i, db1))
               else Inl (ValidationFailedError ''inventory.serial_required'')
           | None \<Rightarrow> Inl (ValidationFailedError ''inventory.serial_required'')))"

subsection \<open>Balances by key, abstractly\<close>

text \<open>
  The contract of a store of non-negative balances: a step adds a signed amount to the balance of
  one key and returns exactly when the result is not negative. A client that runs a list of
  steps adds to every key the sum of its amounts.
\<close>

locale keyed_balance =
  fixes bal :: "'s \<Rightarrow> 'k \<Rightarrow> decimal"
    and wf :: "'s \<Rightarrow> bool"
    and ok :: "decimal \<Rightarrow> bool"
    and step :: "'k \<Rightarrow> decimal \<Rightarrow> 's \<Rightarrow> 's result"
  assumes step_bal: "wf s \<Longrightarrow> ok d \<Longrightarrow> step k d s = Inr s' \<Longrightarrow> bal s' = (bal s)(k := bal s k + d)"
    and step_wf: "wf s \<Longrightarrow> ok d \<Longrightarrow> step k d s = Inr s' \<Longrightarrow> wf s'"
    and step_returns: "wf s \<Longrightarrow> ok d \<Longrightarrow> is_ok (step k d s) \<longleftrightarrow> 0 \<le> bal s k + d"
    and bal_nonneg: "wf s \<Longrightarrow> 0 \<le> bal s k"
begin

lemma fold_steps:
  assumes "fold_result (\<lambda>(k, d). step k d) kds s = Inr s'" and "wf s" and "\<forall>(k, d) \<in> set kds. ok d"
  shows "wf s' \<and> bal s' k = bal s k + sum_list (map snd (filter (\<lambda>kd. fst kd = k) kds))"
  using assms
proof (induction kds arbitrary: s)
  case (Cons kd kds)
  obtain k' d where kd: "kd = (k', d)" by fastforce
  from Cons.prems(1) obtain s1 where s1: "step k' d s = Inr s1" "fold_result (\<lambda>(k, d). step k d) kds s1 = Inr s'"
    by (auto simp: kd)
  have d: "ok d" "\<forall>(k, d) \<in> set kds. ok d" using Cons.prems(3) by (auto simp: kd)
  from Cons.IH [OF s1(2) step_wf [OF Cons.prems(2) d(1) s1(1)] d(2)] step_bal [OF Cons.prems(2) d(1) s1(1)]
  show ?case by (simp add: kd)
qed simp

lemma fold_steps_returns:
  assumes "wf s" and "\<forall>(k, d) \<in> set kds. ok d" and "distinct (map fst kds)"
    and "\<forall>(k, d) \<in> set kds. 0 \<le> bal s k + d"
  shows "is_ok (fold_result (\<lambda>(k, d). step k d) kds s)"
  using assms
proof (induction kds arbitrary: s)
  case (Cons kd kds)
  obtain k d where kd: "kd = (k, d)" by fastforce
  with Cons.prems have d: "ok d" "0 \<le> bal s k + d" by auto
  then obtain s1 where s1: "step k d s = Inr s1" using step_returns [OF Cons.prems(1)] is_okE by metis
  have other: "bal s1 k' = bal s k'" if "(k', d') \<in> set kds" for k' d'
  proof -
    have "k \<noteq> k'" using Cons.prems(3) that by (force simp: kd)
    with step_bal [OF Cons.prems(1) d(1) s1] show ?thesis by simp
  qed
  have "is_ok (fold_result (\<lambda>(k, d). step k d) kds s1)"
    by (rule Cons.IH [OF step_wf [OF Cons.prems(1) d(1) s1]]) (use Cons.prems other in \<open>auto simp: kd\<close>)
  with s1 show ?case by (simp add: kd)
qed simp

end

subsection \<open>The on-hand projection keeps the contract\<close>

type_synonym quant_key = "uuid \<times> uuid \<times> uuid \<times> uuid option"

definition qkey :: "stock_quant \<Rightarrow> quant_key" where
  "qkey q = (sq_tenant q, sq_item q, sq_bin q, sq_lot q)"

definition on_hand :: "'m inv_db_scheme \<Rightarrow> quant_key \<Rightarrow> decimal" where
  "on_hand db k = sum_list (map sq_on_hand (filter (\<lambda>q. qkey q = k) (stock_quants db)))"

definition quants_wf :: "'m inv_db_scheme \<Rightarrow> bool" where
  "quants_wf db \<longleftrightarrow>
     distinct (map sq_id (stock_quants db)) \<and> distinct (map qkey (stock_quants db)) \<and>
     (\<forall>q \<in> set (stock_quants db). sq_id q < uuid_supply db \<and> 0 < sq_on_hand q \<and>
        on_grid QUANTITY_SCALE (sq_on_hand q))"

lemma quant_match_qkey: "quant_match t i b l = (\<lambda>q. qkey q = (t, i, b, l))"
  by (auto simp: quant_match_def qkey_def fun_eq_iff)

lemma on_grid_store_quantity: "on_grid QUANTITY_SCALE x \<Longrightarrow> store_quantity x = x"
  by (simp add: store_quantity_def quantize_grid)

text \<open>The signed amounts a move applies: non-zero and on the quantity grid.\<close>

definition delta_ok :: "decimal \<Rightarrow> bool" where
  "delta_ok d \<longleftrightarrow> d \<noteq> 0 \<and> on_grid QUANTITY_SCALE d"

definition apply_delta :: "quant_key \<Rightarrow> decimal \<Rightarrow> 'm inv_db_scheme \<Rightarrow> 'm inv_db_scheme result" where
  "apply_delta k d = (case k of (t, i, b, l) \<Rightarrow> apply_bin_delta t i l (b, d))"

lemma apply_delta_cases:
  assumes wf: "quants_wf db"
  obtains (new) "filter (\<lambda>q. qkey q = k) (stock_quants db) = []" "on_hand db k = 0"
      "apply_delta k d db = (if d < 0 then Inl (ValidationFailedError ''inventory.insufficient_stock'')
         else Inr (db\<lparr>uuid_supply := Suc (uuid_supply db), stock_quants := stock_quants db @
           [\<lparr>sq_id = uuid_supply db, sq_tenant = fst k, sq_item = fst (snd k), sq_bin = fst (snd (snd k)),
             sq_lot = snd (snd (snd k)), sq_on_hand = store_quantity d\<rparr>]\<rparr>))"
  | (old) q where "q \<in> set (stock_quants db)" "qkey q = k"
      "filter (\<lambda>q. qkey q = k) (stock_quants db) = [q]" "on_hand db k = sq_on_hand q"
      "apply_delta k d db =
         (if sq_on_hand q + d < 0 then Inl (ValidationFailedError ''inventory.insufficient_stock'')
          else if sq_on_hand q + d = 0
          then Inr (db\<lparr>stock_quants := filter (\<lambda>r. sq_id r \<noteq> sq_id q) (stock_quants db)\<rparr>)
          else Inr (db\<lparr>stock_quants := upd_rows (\<lambda>r. sq_id r = sq_id q)
                    (\<lambda>r. r\<lparr>sq_on_hand := store_quantity (sq_on_hand q + d)\<rparr>) (stock_quants db)\<rparr>))"
proof -
  obtain t i b l where k: "k = (t, i, b, l)" by (cases k)
  have "distinct (map qkey (stock_quants db))" using wf by (simp add: quants_wf_def)
  then show thesis
  proof (cases rule: filter_key_cases [where k = k])
    case 1
    then show ?thesis
      using new by (simp add: on_hand_def k apply_delta_def apply_bin_delta_def locked_quant_def
          quant_match_qkey uuid4_def Let_def)
  next
    case (2 q)
    then show ?thesis
      using old [of q] by (simp add: on_hand_def k apply_delta_def apply_bin_delta_def locked_quant_def
          quant_match_qkey Let_def)
  qed
qed

lemma filter_id_key:
  assumes wf: "quants_wf db" and q: "q \<in> set (stock_quants db)"
  shows "r \<in> set (stock_quants db) \<Longrightarrow> sq_id r = sq_id q \<longleftrightarrow> qkey r = qkey q"
  using assms by (auto simp: quants_wf_def distinct_map inj_on_def)

lemma apply_delta_bal:
  assumes wf: "quants_wf db" and d: "delta_ok d" and ap: "apply_delta k d db = Inr db'"
  shows "on_hand db' = (on_hand db)(k := on_hand db k + d) \<and> quants_wf db'"
  using wf
proof (cases rule: apply_delta_cases [where k = k and d = d])
  case new
  let ?q = "\<lparr>sq_id = uuid_supply db, sq_tenant = fst k, sq_item = fst (snd k), sq_bin = fst (snd (snd k)),
             sq_lot = snd (snd (snd k)), sq_on_hand = store_quantity d\<rparr>"
  have pos: "0 < d" using new(3) ap d by (auto simp: delta_ok_def split: if_splits)
  have db': "db' = db\<lparr>uuid_supply := Suc (uuid_supply db), stock_quants := stock_quants db @ [?q]\<rparr>"
    using new(3) ap pos by simp
  have key: "qkey \<lparr>sq_id = j, sq_tenant = fst k, sq_item = fst (snd k), sq_bin = fst (snd (snd k)),
             sq_lot = snd (snd (snd k)), sq_on_hand = x\<rparr> = k" for j x by (simp add: qkey_def)
  have st: "store_quantity d = d" using d by (simp add: on_grid_store_quantity delta_ok_def)
  have "on_hand db' = (on_hand db)(k := on_hand db k + d)"
    using key by (simp add: on_hand_def db' fun_eq_iff st del: split_paired_All)
  moreover have "k \<notin> qkey ` set (stock_quants db)" using new(1) by (auto simp: filter_empty_conv)
  then have "quants_wf db'"
    using wf pos d by (auto simp: quants_wf_def db' key st delta_ok_def less_Suc_eq)
  ultimately show ?thesis ..
next
  case (old q)
  note same = filter_id_key [OF wf old(1)]
  have grid: "on_grid QUANTITY_SCALE (sq_on_hand q + d)"
    using wf d old(1) by (intro on_grid_add) (auto simp: quants_wf_def delta_ok_def)
  then have st: "store_quantity (sq_on_hand q + d) = sq_on_hand q + d" by (rule on_grid_store_quantity)
  show ?thesis
  proof (cases "sq_on_hand q + d = 0")
    case True
    with old(5) ap have db': "db' = db\<lparr>stock_quants := filter (\<lambda>r. sq_id r \<noteq> sq_id q) (stock_quants db)\<rparr>" by simp
    have "filter (\<lambda>r. sq_id r \<noteq> sq_id q) (stock_quants db) = filter (\<lambda>r. qkey r \<noteq> k) (stock_quants db)"
      using same old(2) by (intro filter_cong) auto
    then have "on_hand db' k' = (if k' = k then 0 else on_hand db k')" for k'
      by (auto simp: on_hand_def db' intro!: arg_cong [where f = sum_list] arg_cong [where f = "map sq_on_hand"] filter_cong)
    with True old(4) have "on_hand db' = (on_hand db)(k := on_hand db k + d)" by (auto simp: fun_eq_iff)
    moreover have "quants_wf db'" using wf by (auto simp: quants_wf_def db' distinct_map_filter)
    ultimately show ?thesis ..
  next
    case False
    let ?f = "\<lambda>r. r\<lparr>sq_on_hand := sq_on_hand q + d\<rparr>"
    from False old(5) ap have pos: "0 < sq_on_hand q + d"
      and db': "db' = db\<lparr>stock_quants := upd_rows (\<lambda>r. sq_id r = sq_id q) ?f (stock_quants db)\<rparr>"
      by (auto simp: st split: if_splits)
    have kq: "qkey (?f r) = qkey r" for r by (simp add: qkey_def)
    have fl: "filter (\<lambda>r. qkey r = k') (stock_quants db') = upd_rows (\<lambda>r. sq_id r = sq_id q) ?f (filter (\<lambda>r. qkey r = k') (stock_quants db))" for k'
      unfolding db' by (simp add: filter_upd_rows kq)
    have "upd_rows (\<lambda>r. sq_id r = sq_id q) ?f (filter (\<lambda>r. qkey r = k') (stock_quants db)) =
        filter (\<lambda>r. qkey r = k') (stock_quants db)" if "k' \<noteq> k" for k'
      unfolding upd_rows_def using same old(2) that by (intro map_idI) auto
    then have "on_hand db' k' = (if k' = k then sq_on_hand q + d else on_hand db k')" for k'
      using old(3) by (auto simp: on_hand_def fl)
    with old(4) have "on_hand db' = (on_hand db)(k := on_hand db k + d)" by (auto simp: fun_eq_iff)
    moreover have "map sq_id (stock_quants db') = map sq_id (stock_quants db)"
      "map qkey (stock_quants db') = map qkey (stock_quants db)"
      unfolding db' by (simp_all add: map_upd_rows kq)
    moreover have "sq_id r < uuid_supply db' \<and> 0 < sq_on_hand r \<and> on_grid QUANTITY_SCALE (sq_on_hand r)"
      if "r \<in> set (stock_quants db')" for r
      using that wf pos grid by (auto simp: db' set_upd_rows quants_wf_def)
    ultimately show ?thesis using wf by (auto simp: quants_wf_def)
  qed
qed

lemma on_hand_nonneg: "quants_wf db \<Longrightarrow> 0 \<le> on_hand db k"
  unfolding on_hand_def quants_wf_def by (intro sum_list_map_nonneg) (auto intro: less_imp_le)

lemma apply_delta_returns:
  assumes wf: "quants_wf db" shows "is_ok (apply_delta k d db) \<longleftrightarrow> 0 \<le> on_hand db k + d"
  by (cases rule: apply_delta_cases [OF wf, where k = k and d = d]) auto

interpretation quants: keyed_balance on_hand quants_wf delta_ok apply_delta
  by unfold_locales (use apply_delta_bal apply_delta_returns on_hand_nonneg in blast)+

subsection \<open>Properties\<close>

text \<open>
  C36. On-hand never goes negative and moves exactly: on well-formed on-hand rows a signed delta on
  the quantity grid is applied if and only if the result is not negative (otherwise the
  insufficient-stock error is returned), it then changes the on-hand of its own (tenant, item,
  bin, lot) by the delta and of no other, and the rows stay well formed: one row per key, each
  positive and on the grid.
\<close>

theorem bin_delta_exact:
  assumes "quants_wf db" and "delta_ok d"
  shows "(0 \<le> on_hand db (t, i, b, l) + d \<longleftrightarrow> (\<exists>db'. apply_bin_delta t i l (b, d) db = Inr db')) \<and>
    (on_hand db (t, i, b, l) + d < 0 \<longrightarrow>
       apply_bin_delta t i l (b, d) db = Inl (ValidationFailedError ''inventory.insufficient_stock'')) \<and>
    (\<forall>db'. apply_bin_delta t i l (b, d) db = Inr db' \<longrightarrow>
       on_hand db' = (on_hand db)((t, i, b, l) := on_hand db (t, i, b, l) + d) \<and> quants_wf db')"
proof -
  let ?k = "(t, i, b, l)"
  have eq: "apply_bin_delta t i l (b, d) db = apply_delta ?k d db" by (simp add: apply_delta_def)
  have "apply_delta ?k d db = Inl (ValidationFailedError ''inventory.insufficient_stock'')"
    if "on_hand db ?k + d < 0"
    by (cases rule: apply_delta_cases [OF assms(1), where k = ?k and d = d]) (use that in auto)
  moreover have "0 \<le> on_hand db ?k + d \<longleftrightarrow> (\<exists>db'. apply_delta ?k d db = Inr db')"
    using quants.step_returns [OF assms, of ?k] by (metis is_ok.simps is_okE)
  ultimately show ?thesis unfolding eq using quants.step_bal [OF assms] quants.step_wf [OF assms] by blast
qed

lemma sample_quants_wf: "quants_wf sample_stock"
  by code_simp

theorem bin_delta_exact_witness:
  "apply_bin_delta 1 41 None (60, - 9) sample_stock = Inl (ValidationFailedError ''inventory.insufficient_stock'') \<and>
   (\<exists>db'. apply_bin_delta 1 41 None (60, - 3) sample_stock = Inr db' \<and> on_hand db' (1, 41, 60, None) = 5)"
proof -
  have d: "delta_ok (- 9)" "delta_ok (- 3)" "on_hand sample_stock (1, 41, 60, None) = 8" by code_simp+
  note A = bin_delta_exact [OF sample_quants_wf d(1), of 1 41 60 None, unfolded d(3)]
    and B = bin_delta_exact [OF sample_quants_wf d(2), of 1 41 60 None, unfolded d(3)]
  have "apply_bin_delta 1 41 None (60, - 9) sample_stock = Inl (ValidationFailedError ''inventory.insufficient_stock'')"
    by (rule A [THEN conjunct2, THEN conjunct1, THEN mp]) simp
  moreover have "\<exists>db'. apply_bin_delta 1 41 None (60, - 3) sample_stock = Inr db'"
    by (rule B [THEN conjunct1, THEN iffD1]) simp
  then obtain db' where db': "apply_bin_delta 1 41 None (60, - 3) sample_stock = Inr db'" ..
  have "on_hand db' = (on_hand sample_stock)((1, 41, 60, None) := 8 + - 3)"
    using B [THEN conjunct2, THEN conjunct2] db' by blast
  then have "on_hand db' (1, 41, 60, None) = 5" by simp
  ultimately show ?thesis using db' by blast
qed

end
