(* ===== verification/Costing_Mav.thy ===== *)
theory Costing_Mav
  imports Inv_Db
begin

text \<open>
  Model of \<^verbatim>\<open>backend/app/modules/inventory/service/costing_mav.py\<close>: the moving-average row of an
  (item, warehouse). A read sees the stored columns (six places), as a fresh session does.
\<close>

definition valuation_match :: "uuid \<Rightarrow> uuid \<Rightarrow> uuid \<Rightarrow> item_valuation \<Rightarrow> bool" where
  "valuation_match tenant item warehouse v \<longleftrightarrow>
     iv_tenant v = tenant \<and> iv_item v = item \<and> iv_warehouse v = warehouse"

definition locked_valuation ::
  "'m inv_db_scheme \<Rightarrow> uuid \<Rightarrow> uuid \<Rightarrow> uuid \<Rightarrow> item_valuation option result" where
  "locked_valuation db tenant item warehouse =
     one_or_none (filter (valuation_match tenant item warehouse) (item_valuations db))"

definition mav_receive ::
  "'m inv_db_scheme \<Rightarrow> uuid \<Rightarrow> uuid \<Rightarrow> uuid \<Rightarrow> decimal \<Rightarrow> decimal \<Rightarrow> decimal \<Rightarrow> 'm inv_db_scheme result" where
  "mav_receive db tenant item warehouse qty unit_cost extra_value =
     bindr (locked_valuation db tenant item warehouse) (\<lambda>valuation.
     let receipt_value = dadd (dmul qty unit_cost) extra_value
     in case valuation of
          None \<Rightarrow>
            (case uuid4 db of (i, db1) \<Rightarrow>
             Inr (db1\<lparr>item_valuations := item_valuations db1 @
               [\<lparr>iv_id = i, iv_tenant = tenant, iv_item = item, iv_warehouse = warehouse,
                 iv_on_hand = store_quantity qty,
                 iv_avg_unit_cost = store_money (if 0 < qty then ddiv receipt_value qty else unit_cost),
                 iv_total_value = store_money receipt_value\<rparr>]\<rparr>))
        | Some v \<Rightarrow>
            let new_qty = iv_on_hand v + qty;
                new_value = dadd (iv_total_value v) receipt_value
            in Inr (db\<lparr>item_valuations := upd_rows (\<lambda>r. iv_id r = iv_id v)
                 (\<lambda>r. r\<lparr>iv_on_hand := store_quantity new_qty, iv_total_value := store_money new_value,
                        iv_avg_unit_cost := store_money (if 0 < new_qty then ddiv new_value new_qty else 0)\<rparr>)
                 (item_valuations db)\<rparr>))"

definition mav_issue ::
  "'m inv_db_scheme \<Rightarrow> uuid \<Rightarrow> uuid \<Rightarrow> uuid \<Rightarrow> decimal \<Rightarrow> string \<Rightarrow>
   ((decimal \<times> decimal) \<times> 'm inv_db_scheme) result" where
  "mav_issue db tenant item warehouse qty currency_code =
     bindr (locked_valuation db tenant item warehouse) (\<lambda>valuation.
     case valuation of
       None \<Rightarrow> Inl (ValidationFailedError ''inventory.costing_valuation_missing'')
     | Some v \<Rightarrow>
         let cogs = quantize_for_currency (dmul qty (iv_avg_unit_cost v)) currency_code;
             new_qty = iv_on_hand v - qty
         in if new_qty \<le> 0
            then Inr ((cogs, iv_total_value v - cogs),
                   db\<lparr>item_valuations := upd_rows (\<lambda>r. iv_id r = iv_id v)
                        (\<lambda>r. r\<lparr>iv_on_hand := 0, iv_total_value := 0\<rparr>) (item_valuations db)\<rparr>)
            else Inr ((cogs, 0),
                   db\<lparr>item_valuations := upd_rows (\<lambda>r. iv_id r = iv_id v)
                        (\<lambda>r. r\<lparr>iv_on_hand := store_quantity new_qty,
                               iv_total_value := store_money (iv_total_value v - cogs)\<rparr>)
                        (item_valuations db)\<rparr>))"

definition mav_avg_cost :: "'m inv_db_scheme \<Rightarrow> uuid \<Rightarrow> uuid \<Rightarrow> uuid \<Rightarrow> decimal result" where
  "mav_avg_cost db tenant item warehouse =
     bindr (locked_valuation db tenant item warehouse) (\<lambda>valuation.
     Inr (case valuation of Some v \<Rightarrow> iv_avg_unit_cost v | None \<Rightarrow> 0))"

definition fifo_weighted_cost :: "'m inv_db_scheme \<Rightarrow> uuid \<Rightarrow> uuid \<Rightarrow> uuid \<Rightarrow> decimal" where
  "fifo_weighted_cost db tenant item warehouse =
     (let rows = filter (\<lambda>l. cl_tenant l = tenant \<and> cl_item l = item \<and> cl_warehouse l = warehouse \<and>
                   0 < cl_remaining l) (cost_layers db);
          total_qty = sum_list (map cl_remaining rows);
          total_value = foldl (\<lambda>acc l. dadd acc (dmul (cl_remaining l) (cl_unit_cost l))) 0 rows
      in if 0 < total_qty then ddiv total_value total_qty else 0)"

subsection \<open>Quantities and values\<close>

definition vkey :: "item_valuation \<Rightarrow> uuid \<times> uuid \<times> uuid" where
  "vkey v = (iv_tenant v, iv_item v, iv_warehouse v)"

definition mav_qty :: "'m inv_db_scheme \<Rightarrow> uuid \<times> uuid \<times> uuid \<Rightarrow> decimal" where
  "mav_qty db k = sum_list (map iv_on_hand (filter (\<lambda>v. vkey v = k) (item_valuations db)))"

definition mav_value :: "'m inv_db_scheme \<Rightarrow> uuid \<times> uuid \<times> uuid \<Rightarrow> decimal" where
  "mav_value db k = sum_list (map iv_total_value (filter (\<lambda>v. vkey v = k) (item_valuations db)))"

definition valuations_wf :: "'m inv_db_scheme \<Rightarrow> bool" where
  "valuations_wf db \<longleftrightarrow> distinct (map iv_id (item_valuations db)) \<and> distinct (map vkey (item_valuations db)) \<and>
     (\<forall>v \<in> set (item_valuations db). iv_id v < uuid_supply db \<and>
        on_grid MONEY_SCALE (iv_total_value v) \<and> on_grid QUANTITY_SCALE (iv_on_hand v))"

lemma valuation_match_vkey: "valuation_match t i w = (\<lambda>v. vkey v = (t, i, w))"
  by (auto simp: valuation_match_def vkey_def fun_eq_iff)

lemma locked_valuation_cases:
  assumes wf: "valuations_wf db"
  obtains (none) "locked_valuation db t i w = Inr None" "mav_qty db (t, i, w) = 0" "mav_value db (t, i, w) = 0"
      "filter (\<lambda>v. vkey v = (t, i, w)) (item_valuations db) = []"
  | (some) v where "locked_valuation db t i w = Inr (Some v)" "v \<in> set (item_valuations db)" "vkey v = (t, i, w)"
      "mav_qty db (t, i, w) = iv_on_hand v" "mav_value db (t, i, w) = iv_total_value v"
proof -
  have "distinct (map vkey (item_valuations db))" using wf by (simp add: valuations_wf_def)
  then show thesis
  proof (cases rule: filter_key_cases [where k = "(t, i, w)"])
    case 1
    then show thesis using none by (simp add: locked_valuation_def valuation_match_vkey mav_qty_def mav_value_def)
  next
    case (2 v)
    then show thesis using some by (simp add: locked_valuation_def valuation_match_vkey mav_qty_def mav_value_def)
  qed
qed

text \<open>Rewriting the quantity, value and average of one row.\<close>

lemma valuation_update:
  assumes wf: "valuations_wf db" and v: "v \<in> set (item_valuations db)"
    and db': "db' = db\<lparr>item_valuations := upd_rows (\<lambda>r. iv_id r = iv_id v) f (item_valuations db)\<rparr>"
    and f: "\<And>r. iv_id (f r) = iv_id r \<and> vkey (f r) = vkey r"
    and grid: "on_grid MONEY_SCALE (iv_total_value (f v))" "on_grid QUANTITY_SCALE (iv_on_hand (f v))"
  shows "mav_qty db' = (mav_qty db)(vkey v := mav_qty db (vkey v) - iv_on_hand v + iv_on_hand (f v))"
    and "mav_value db' = (mav_value db)(vkey v := mav_value db (vkey v) - iv_total_value v + iv_total_value (f v))"
    and "valuations_wf db'"
proof -
  have d: "distinct (map iv_id (item_valuations db))" using wf by (simp add: valuations_wf_def)
  note S = sum_filter_upd_row [OF d v, of _ "\<lambda>r. vkey r = k" f for k]
  show "mav_qty db' = (mav_qty db)(vkey v := mav_qty db (vkey v) - iv_on_hand v + iv_on_hand (f v))"
    "mav_value db' = (mav_value db)(vkey v := mav_value db (vkey v) - iv_total_value v + iv_total_value (f v))"
    using f by (auto simp: fun_eq_iff mav_qty_def mav_value_def db' S)
  have "iv_id r < uuid_supply db \<and> on_grid MONEY_SCALE (iv_total_value r) \<and> on_grid QUANTITY_SCALE (iv_on_hand r)"
    if r: "r \<in> set (upd_rows (\<lambda>r. iv_id r = iv_id v) f (item_valuations db))" for r
  proof -
    from r obtain x where x: "x \<in> set (item_valuations db)" "r = (if iv_id x = iv_id v then f x else x)"
      by (auto simp: upd_rows_def)
    have "x = v" if "iv_id x = iv_id v" using that d x(1) v by (auto simp: distinct_map inj_on_def)
    with x wf v grid f show ?thesis by (auto simp: valuations_wf_def)
  qed
  then show "valuations_wf db'" using wf f unfolding valuations_wf_def db' by (simp add: map_upd_rows)
qed

lemma store_quantity_0 [simp]: "store_quantity 0 = 0"
  by (simp add: store_quantity_def)

lemma store_quantity_on_grid [simp]: "on_grid QUANTITY_SCALE (store_quantity x)"
  by (simp add: store_quantity_def)

lemma mav_issue_effect:
  assumes wf: "valuations_wf db" and q: "on_grid QUANTITY_SCALE q"
    and iss: "mav_issue db t i w q cur = Inr ((cogs, residual), db')"
  shows "mav_value db' = (mav_value db)((t, i, w) := mav_value db (t, i, w) - cogs - residual)"
    and "mav_qty db' = (mav_qty db)((t, i, w) := max 0 (mav_qty db (t, i, w) - q))"
    and "mav_qty db (t, i, w) \<le> q \<Longrightarrow> mav_value db' (t, i, w) = 0"
    and "q < mav_qty db (t, i, w) \<Longrightarrow> residual = 0"
    and "valuations_wf db'" and "on_grid MONEY_SCALE cogs" and "on_grid MONEY_SCALE residual"
proof -
  obtain v where v: "locked_valuation db t i w = Inr (Some v)" "v \<in> set (item_valuations db)" "vkey v = (t, i, w)"
    "mav_qty db (t, i, w) = iv_on_hand v" "mav_value db (t, i, w) = iv_total_value v"
    by (cases rule: locked_valuation_cases [OF wf, where t = t and i = i and w = w])
      (use iss in \<open>auto simp: mav_issue_def\<close>)
  have gv: "on_grid MONEY_SCALE (iv_total_value v)" "on_grid QUANTITY_SCALE (iv_on_hand v)"
    using wf v(2) by (auto simp: valuations_wf_def)
  have c: "cogs = quantize_for_currency (dmul q (iv_avg_unit_cost v)) cur" and
    cases: "(iv_on_hand v \<le> q \<and> residual = iv_total_value v - cogs \<and>
        db' = db\<lparr>item_valuations := upd_rows (\<lambda>r. iv_id r = iv_id v)
           (\<lambda>r. r\<lparr>iv_on_hand := 0, iv_total_value := 0\<rparr>) (item_valuations db)\<rparr>) \<or>
      (q < iv_on_hand v \<and> residual = 0 \<and>
        db' = db\<lparr>item_valuations := upd_rows (\<lambda>r. iv_id r = iv_id v)
           (\<lambda>r. r\<lparr>iv_on_hand := store_quantity (iv_on_hand v - q),
                 iv_total_value := store_money (iv_total_value v - cogs)\<rparr>) (item_valuations db)\<rparr>)"
    using iss v(1) by (auto simp: mav_issue_def Let_def split: if_splits)
  show gc: "on_grid MONEY_SCALE cogs" by (simp add: c)
  have sm: "store_money (iv_total_value v - cogs) = iv_total_value v - cogs"
    by (rule store_money_grid) (rule on_grid_diff [OF gv(1) gc])
  have sq: "store_quantity (iv_on_hand v - q) = iv_on_hand v - q"
    by (simp add: store_quantity_def quantize_grid on_grid_diff [OF gv(2) q])
  show "on_grid MONEY_SCALE residual" using cases gv(1) gc on_grid_diff by auto
  show "q < mav_qty db (t, i, w) \<Longrightarrow> residual = 0" using cases by (auto simp: v(4))
  have "mav_value db' = (mav_value db)((t, i, w) := mav_value db (t, i, w) - cogs - residual) \<and>
    mav_qty db' = (mav_qty db)((t, i, w) := max 0 (mav_qty db (t, i, w) - q)) \<and>
    (mav_qty db (t, i, w) \<le> q \<longrightarrow> mav_value db' (t, i, w) = 0) \<and> valuations_wf db'"
    using cases
  proof (elim disjE conjE)
    assume a: "iv_on_hand v \<le> q" "residual = iv_total_value v - cogs" and
      db': "db' = db\<lparr>item_valuations := upd_rows (\<lambda>r. iv_id r = iv_id v)
           (\<lambda>r. r\<lparr>iv_on_hand := 0, iv_total_value := 0\<rparr>) (item_valuations db)\<rparr>"
    note U = valuation_update [OF wf v(2) db']
    from a show ?thesis using U unfolding v(3) by (simp add: vkey_def v(4,5) max_def)
  next
    assume a: "q < iv_on_hand v" "residual = 0" and
      db': "db' = db\<lparr>item_valuations := upd_rows (\<lambda>r. iv_id r = iv_id v)
           (\<lambda>r. r\<lparr>iv_on_hand := store_quantity (iv_on_hand v - q),
                 iv_total_value := store_money (iv_total_value v - cogs)\<rparr>) (item_valuations db)\<rparr>"
    note U = valuation_update [OF wf v(2) db']
    from a show ?thesis
      using U on_grid_diff [OF gv(1) gc] on_grid_diff [OF gv(2) q] unfolding v(3) by (simp add: vkey_def v(4,5) sm sq)
  qed
  then show "mav_value db' = (mav_value db)((t, i, w) := mav_value db (t, i, w) - cogs - residual)"
    and "mav_qty db' = (mav_qty db)((t, i, w) := max 0 (mav_qty db (t, i, w) - q))"
    and "mav_qty db (t, i, w) \<le> q \<Longrightarrow> mav_value db' (t, i, w) = 0" and "valuations_wf db'" by blast+
qed

text \<open>
  Sums in the arithmetic context stay so close to the exact sum that the six-place column holds
  the exact one, for amounts the column can hold (twelve digits before the point).
\<close>

abbreviation money_bound :: decimal where "money_bound \<equiv> 10 ^ 12"

lemma dadd_err:
  assumes "\<bar>a + b\<bar> \<le> 10 ^ 13" shows "\<bar>dadd a b - (a + b)\<bar> \<le> 1 / 10 ^ 14"
proof -
  have "\<bar>dadd a b - (a + b)\<bar> \<le> \<bar>a + b\<bar> / (2 * 10 ^ 27)" unfolding dadd_def by (rule ctx_err)
  with assms show ?thesis by simp
qed

lemma stored_sum_exact:
  assumes near: "\<bar>d - a\<bar> \<le> \<bar>a\<bar> / 10 ^ 26"
    and grid: "on_grid MONEY_SCALE a" "on_grid MONEY_SCALE x" "on_grid MONEY_SCALE old"
    and small: "\<bar>a\<bar> \<le> money_bound" "\<bar>x\<bar> \<le> money_bound" "\<bar>old\<bar> \<le> money_bound"
  shows "store_money (dadd d x) = a + x" and "store_money (dadd old (dadd d x)) = old + (a + x)"
proof -
  have d: "\<bar>d - a\<bar> \<le> 1 / 10 ^ 14" using near small(1) by simp
  then have b1: "\<bar>d + x\<bar> \<le> 10 ^ 13" using small unfolding abs_le_iff by simp
  have e1: "\<bar>dadd d x - (a + x)\<bar> \<le> 2 / 10 ^ 14" using dadd_err [OF b1] d unfolding abs_le_iff by simp
  have b2: "\<bar>old + dadd d x\<bar> \<le> 10 ^ 13" using e1 small unfolding abs_le_iff by simp
  have e2: "\<bar>dadd old (dadd d x) - (old + (a + x))\<bar> \<le> 3 / 10 ^ 14"
    using dadd_err [OF b2] e1 unfolding abs_le_iff by simp
  show "store_money (dadd d x) = a + x"
    unfolding store_money_def
    by (rule quantize_half_up_near) (use grid on_grid_add e1 in \<open>auto simp: MONEY_SCALE_def\<close>)
  show "store_money (dadd old (dadd d x)) = old + (a + x)"
    unfolding store_money_def
    by (rule quantize_half_up_near) (use grid on_grid_add e2 in \<open>auto simp: MONEY_SCALE_def\<close>)
qed

lemma mav_receive_effect:
  assumes wf: "valuations_wf db" and q: "on_grid QUANTITY_SCALE q"
    and near: "\<bar>dmul q c - a\<bar> \<le> \<bar>a\<bar> / 10 ^ 26"
    and grid: "on_grid MONEY_SCALE a" "on_grid MONEY_SCALE x"
    and small: "\<bar>a\<bar> \<le> money_bound" "\<bar>x\<bar> \<le> money_bound" "\<bar>mav_value db (t, i, w)\<bar> \<le> money_bound"
  obtains db' where "mav_receive db t i w q c x = Inr db'" and "valuations_wf db'"
    and "mav_value db' = (mav_value db)((t, i, w) := mav_value db (t, i, w) + a + x)"
    and "mav_qty db' = (mav_qty db)((t, i, w) := mav_qty db (t, i, w) + q)"
  using wf
proof (cases rule: locked_valuation_cases [where t = t and i = i and w = w])
  case none
  define v where "v = \<lparr>iv_id = uuid_supply db, iv_tenant = t, iv_item = i, iv_warehouse = w,
     iv_on_hand = store_quantity q,
     iv_avg_unit_cost = store_money (if 0 < q then ddiv (dadd (dmul q c) x) q else c),
     iv_total_value = store_money (dadd (dmul q c) x)\<rparr>"
  define db' where "db' = db\<lparr>uuid_supply := Suc (uuid_supply db), item_valuations := item_valuations db @ [v]\<rparr>"
  have "mav_receive db t i w q c x = Inr db'"
    using none(1) by (simp add: mav_receive_def uuid4_def Let_def v_def db'_def)
  moreover have tv: "iv_total_value v = a + x" "iv_on_hand v = q" "vkey v = (t, i, w)" "iv_id v = uuid_supply db"
    using stored_sum_exact(1) [OF near grid on_grid_0 small(1,2)] q
    by (simp_all add: v_def vkey_def store_quantity_def quantize_grid)
  moreover have "(t, i, w) \<notin> vkey ` set (item_valuations db)" using none(4) by (auto simp: filter_empty_conv)
  then have "valuations_wf db'"
    using wf tv grid q on_grid_add by (auto simp: valuations_wf_def db'_def less_Suc_eq)
  ultimately show thesis
    using none(2,3) by (intro that [of db']) (auto simp: mav_qty_def mav_value_def db'_def fun_eq_iff)
next
  case (some v)
  have gv: "on_grid MONEY_SCALE (iv_total_value v)" "on_grid QUANTITY_SCALE (iv_on_hand v)"
    using wf some(2) by (auto simp: valuations_wf_def)
  let ?f = "\<lambda>r. r\<lparr>iv_on_hand := store_quantity (iv_on_hand v + q),
      iv_total_value := store_money (dadd (iv_total_value v) (dadd (dmul q c) x)),
      iv_avg_unit_cost := store_money (if 0 < iv_on_hand v + q
        then ddiv (dadd (iv_total_value v) (dadd (dmul q c) x)) (iv_on_hand v + q) else 0)\<rparr>"
  define db' where "db' = db\<lparr>item_valuations := upd_rows (\<lambda>r. iv_id r = iv_id v) ?f (item_valuations db)\<rparr>"
  have ret: "mav_receive db t i w q c x = Inr db'"
    using some(1) by (simp add: mav_receive_def Let_def db'_def)
  have tv: "store_money (dadd (iv_total_value v) (dadd (dmul q c) x)) = iv_total_value v + (a + x)"
    by (rule stored_sum_exact(2) [OF near grid gv(1)]) (use small some(5) in simp_all)
  have qv: "store_quantity (iv_on_hand v + q) = iv_on_hand v + q"
    by (simp add: store_quantity_def quantize_grid on_grid_add [OF gv(2) q])
  note U = valuation_update [OF wf some(2) db'_def]
  have "mav_qty db' = (mav_qty db)(vkey v := mav_qty db (vkey v) - iv_on_hand v + iv_on_hand (?f v)) \<and>
      mav_value db' = (mav_value db)(vkey v := mav_value db (vkey v) - iv_total_value v + iv_total_value (?f v)) \<and>
      valuations_wf db'"
    by (intro conjI U) (simp_all add: vkey_def)
  then show thesis
    using ret unfolding some(3) by (intro that [of db']) (simp_all add: some(4,5) tv qv add.assoc)
qed

subsection \<open>Properties\<close>

text \<open>
  C35. Moving-average issues conserve value: what an issue books as cost of goods sold, plus the
  residual it flushes to price difference, is exactly what the valuation of that (item, warehouse)
  loses; no other valuation moves. The residual is zero unless the issue empties the warehouse,
  and then quantity and value both end at zero.
\<close>

theorem mav_issue_conserves:
  assumes "valuations_wf db" and "on_grid QUANTITY_SCALE q"
    and "mav_issue db t i w q cur = Inr ((cogs, residual), db')"
  shows "mav_value db' = (mav_value db)((t, i, w) := mav_value db (t, i, w) - cogs - residual) \<and>
    mav_qty db' = (mav_qty db)((t, i, w) := max 0 (mav_qty db (t, i, w) - q)) \<and>
    (q < mav_qty db (t, i, w) \<longrightarrow> residual = 0) \<and>
    (mav_qty db (t, i, w) \<le> q \<longrightarrow> mav_qty db' (t, i, w) = 0 \<and> mav_value db' (t, i, w) = 0) \<and> valuations_wf db'"
  using mav_issue_effect [OF assms] by auto

lemma sample_valuations_wf: "valuations_wf sample_stock"
  by code_simp

theorem mav_issue_conserves_witness:
  "\<exists>cogs residual db'. mav_issue sample_stock 1 40 50 3 ''USD'' = Inr ((cogs, residual), db') \<and>
     cogs + residual = 1 \<and> mav_value db' (1, 40, 50) = 0"
proof -
  have "on_grid QUANTITY_SCALE 3" "is_ok (mav_issue sample_stock 1 40 50 3 ''USD'')"
    "mav_qty sample_stock (1, 40, 50) = 3" "mav_value sample_stock (1, 40, 50) = 1" by code_simp+
  note F = this
  from F(2) obtain cogs residual db' where i: "mav_issue sample_stock 1 40 50 3 ''USD'' = Inr ((cogs, residual), db')"
    by (metis is_okE surj_pair)
  note M = mav_issue_conserves [OF sample_valuations_wf F(1) i]
  have "mav_value db' (1, 40, 50) = 1 - cogs - residual"
    using M [THEN conjunct1] unfolding F(4) by (metis fun_upd_same)
  moreover have "mav_value db' (1, 40, 50) = 0" using M F(3) by (metis order_refl)
  ultimately show ?thesis using i by (intro exI [of _ cogs] exI [of _ residual] exI [of _ db']) linarith
qed

end
