(* ===== verification/Costing_Fifo.thy ===== *)
theory Costing_Fifo
  imports Inv_Db
begin

text \<open>
  Model of \<^verbatim>\<open>backend/app/modules/inventory/service/costing_fifo.py\<close>: the cost layers of an
  (item, warehouse), consumed oldest first, and the replay of an issue's consumptions. The layer
  table's check (\<open>remaining_within_original\<close>) and the consumptions' foreign key to the layer are
  the checks of the writes.
\<close>

subsection \<open>Layers\<close>

definition create_layer ::
  "'m inv_db_scheme \<Rightarrow> uuid \<Rightarrow> uuid \<Rightarrow> uuid \<Rightarrow> uuid \<Rightarrow> date \<Rightarrow> decimal \<Rightarrow> decimal \<Rightarrow> 'm inv_db_scheme" where
  "create_layer db tenant item warehouse receipt_move received_at qty unit_cost =
     (case uuid4 db of (i, db1) \<Rightarrow>
      db1\<lparr>cost_layers := cost_layers db1 @
        [\<lparr>cl_id = i, cl_tenant = tenant, cl_item = item, cl_warehouse = warehouse,
          cl_receipt_move = receipt_move, cl_received_at = received_at,
          cl_original = store_quantity qty, cl_remaining = store_quantity qty,
          cl_unit_cost = store_money unit_cost\<rparr>]\<rparr>)"

text \<open>The layers with stock of an (item, warehouse), by receipt date and then insertion.\<close>

definition layer_scan :: "'m inv_db_scheme \<Rightarrow> uuid \<Rightarrow> uuid \<Rightarrow> uuid \<Rightarrow> cost_layer list" where
  "layer_scan db tenant item warehouse =
     sort_key cl_received_at
       (filter (\<lambda>l. cl_tenant l = tenant \<and> cl_item l = item \<and> cl_warehouse l = warehouse \<and>
                    0 < cl_remaining l) (cost_layers db))"

definition set_remaining :: "uuid \<Rightarrow> decimal \<Rightarrow> 'm inv_db_scheme \<Rightarrow> 'm inv_db_scheme" where
  "set_remaining i r db =
     db\<lparr>cost_layers := upd_rows (\<lambda>l. cl_id l = i) (\<lambda>l. l\<lparr>cl_remaining := store_quantity r\<rparr>) (cost_layers db)\<rparr>"

text \<open>One turn of the loop over the layers; after the break the state no longer changes.\<close>

definition consume_step ::
  "uuid \<Rightarrow> uuid \<Rightarrow> string \<Rightarrow> cost_layer \<Rightarrow> 'm inv_db_scheme \<times> decimal \<times> decimal \<Rightarrow>
   'm inv_db_scheme \<times> decimal \<times> decimal" where
  "consume_step tenant issue_move currency_code layer st =
     (case st of (db, remaining_to_consume, cogs) \<Rightarrow>
      if remaining_to_consume \<le> 0 then st
      else
        let taken = min (cl_remaining layer) remaining_to_consume;
            line_cost = quantize_for_currency (dmul taken (cl_unit_cost layer)) currency_code
        in case uuid4 db of (i, db1) \<Rightarrow>
           (set_remaining (cl_id layer) (cl_remaining layer - taken)
              (db1\<lparr>layer_consumptions := layer_consumptions db1 @
                [\<lparr>lc_id = i, lc_tenant = tenant, lc_issue_move = issue_move, lc_layer = cl_id layer,
                  lc_qty = store_quantity taken, lc_cost = store_money line_cost\<rparr>]\<rparr>),
            remaining_to_consume - taken, cogs + line_cost))"

definition consume_layers ::
  "'m inv_db_scheme \<Rightarrow> uuid \<Rightarrow> uuid \<Rightarrow> uuid \<Rightarrow> uuid \<Rightarrow> decimal \<Rightarrow> string \<Rightarrow>
   (decimal \<times> 'm inv_db_scheme) result" where
  "consume_layers db tenant item warehouse issue_move qty currency_code =
     (case fold (consume_step tenant issue_move currency_code) (layer_scan db tenant item warehouse)
             (db, qty, 0) of
        (db1, remaining_to_consume, cogs) \<Rightarrow>
          if 0 < remaining_to_consume
          then Inl (ValidationFailedError ''inventory.costing_layers_short'')
          else Inr (cogs, db1))"

subsection \<open>Reversal\<close>

definition restore_step ::
  "uuid \<Rightarrow> layer_consumption \<Rightarrow> 'm inv_db_scheme \<times> decimal \<Rightarrow> ('m inv_db_scheme \<times> decimal) result" where
  "restore_step tenant c st =
     (case st of (db, restored) \<Rightarrow>
      case find_row cl_id (lc_layer c) (cost_layers db) of
        None \<Rightarrow> Inl (ConflictError ''inventory.costing_layer_missing'')
      | Some layer \<Rightarrow>
          if cl_tenant layer \<noteq> tenant then Inl (ConflictError ''inventory.costing_layer_missing'')
          else if cl_original layer < cl_remaining layer + lc_qty c
          then Inl (IntegrityError ''ck_inv_cost_layers_remaining_within_original'')
          else Inr (set_remaining (cl_id layer) (cl_remaining layer + lc_qty c) db,
                    restored + lc_cost c))"

definition reverse_issue_consumptions ::
  "'m inv_db_scheme \<Rightarrow> uuid \<Rightarrow> uuid \<Rightarrow> (decimal \<times> 'm inv_db_scheme) result" where
  "reverse_issue_consumptions db tenant original_issue_move =
     bindr (fold_result (restore_step tenant)
              (filter (\<lambda>c. lc_tenant c = tenant \<and> lc_issue_move c = original_issue_move)
                 (layer_consumptions db)) (db, 0))
       (\<lambda>(db1, restored). Inr (restored, db1))"

definition reverse_receipt_layer ::
  "'m inv_db_scheme \<Rightarrow> uuid \<Rightarrow> uuid \<Rightarrow> (decimal \<times> 'm inv_db_scheme) result" where
  "reverse_receipt_layer db tenant original_receipt_move =
     bindr (one_or_none (filter (\<lambda>l. cl_tenant l = tenant \<and> cl_receipt_move l = original_receipt_move)
              (cost_layers db))) (\<lambda>found.
     case found of
       None \<Rightarrow> Inl (ConflictError ''inventory.costing_layer_missing'')
     | Some layer \<Rightarrow>
         if cl_remaining layer \<noteq> cl_original layer
         then Inl (ConflictError ''inventory.receipt_layer_consumed'')
         else if \<exists>c \<in> set (layer_consumptions db). lc_tenant c = tenant \<and> lc_layer c = cl_id layer
         then Inl (IntegrityError ''fk_inv_layer_consumptions_layer_id_inv_cost_layers'')
         else Inr (dmul (cl_original layer) (cl_unit_cost layer),
                db\<lparr>cost_layers := filter (\<lambda>l. cl_id l \<noteq> cl_id layer) (cost_layers db)\<rparr>))"

subsection \<open>The reference: what a first-in-first-out issue takes\<close>

text \<open>
  The amounts taken from a list of layers, each layer with what is taken from it. The loop of
  \<open>consume_layers\<close> is shown to write exactly these amounts.
\<close>

fun fifo_take :: "decimal \<Rightarrow> cost_layer list \<Rightarrow> (cost_layer \<times> decimal) list" where
  "fifo_take q [] = []"
| "fifo_take q (l # ls) =
     (if q \<le> 0 then [] else (l, min (cl_remaining l) q) # fifo_take (q - min (cl_remaining l) q) ls)"

definition taken_cost :: "string \<Rightarrow> cost_layer \<times> decimal \<Rightarrow> decimal" where
  "taken_cost cur p = quantize_for_currency (dmul (snd p) (cl_unit_cost (fst p))) cur"

definition reduced :: "cost_layer \<times> decimal \<Rightarrow> cost_layer \<Rightarrow> cost_layer" where
  "reduced p r = r\<lparr>cl_remaining := store_quantity (cl_remaining (fst p) - snd p)\<rparr>"

definition consumption_row :: "uuid \<Rightarrow> uuid \<Rightarrow> string \<Rightarrow> uuid \<Rightarrow> cost_layer \<times> decimal \<Rightarrow> layer_consumption" where
  "consumption_row t mv cur i p =
     \<lparr>lc_id = i, lc_tenant = t, lc_issue_move = mv, lc_layer = cl_id (fst p),
      lc_qty = store_quantity (snd p), lc_cost = store_money (taken_cost cur p)\<rparr>"

lemma reduced_simps [simp]:
  "cl_id (reduced p r) = cl_id r" "cl_original (reduced p r) = cl_original r"
  "cl_tenant (reduced p r) = cl_tenant r" "cl_item (reduced p r) = cl_item r"
  "cl_warehouse (reduced p r) = cl_warehouse r" "cl_received_at (reduced p r) = cl_received_at r"
  "cl_unit_cost (reduced p r) = cl_unit_cost r" "cl_receipt_move (reduced p r) = cl_receipt_move r"
  "cl_remaining (reduced p r) = store_quantity (cl_remaining (fst p) - snd p)"
  by (simp_all add: reduced_def)

lemma fifo_take_done [simp]: "q \<le> 0 \<Longrightarrow> fifo_take q ls = []"
  by (cases ls) simp_all

lemma consume_fold:
  "fold (consume_step t mv cur) ls (db, q, c) =
     (db\<lparr>uuid_supply := uuid_supply db + length (fifo_take q ls),
         layer_consumptions := layer_consumptions db @
           map2 (consumption_row t mv cur) [uuid_supply db..<uuid_supply db + length (fifo_take q ls)] (fifo_take q ls),
         cost_layers := fold (\<lambda>p. upd_rows (\<lambda>r. cl_id r = cl_id (fst p)) (reduced p)) (fifo_take q ls) (cost_layers db)\<rparr>,
      q - sum_list (map snd (fifo_take q ls)), c + sum_list (map (taken_cost cur) (fifo_take q ls)))"
proof (induction ls arbitrary: db q c)
  case (Cons l ls)
  show ?case
  proof (cases "q \<le> 0")
    case True
    then have "fold (consume_step t mv cur) ls (db, q, c) = (db, q, c)" unfolding Cons.IH by simp
    moreover have "consume_step t mv cur l (db, q, c) = (db, q, c)" using True by (simp add: consume_step_def)
    ultimately show ?thesis using True by simp
  next
    case False
    let ?x = "min (cl_remaining l) q"
    have st: "consume_step t mv cur l (db, q, c) =
      (db\<lparr>uuid_supply := Suc (uuid_supply db),
         layer_consumptions := layer_consumptions db @ [consumption_row t mv cur (uuid_supply db) (l, ?x)],
         cost_layers := upd_rows (\<lambda>r. cl_id r = cl_id l) (reduced (l, ?x)) (cost_layers db)\<rparr>,
       q - ?x, c + taken_cost cur (l, ?x))"
      using False by (simp add: consume_step_def uuid4_def set_remaining_def consumption_row_def
          taken_cost_def reduced_def [abs_def] Let_def)
    have up: "[u..<Suc (u + k)] = u # [Suc u..<Suc (u + k)]" for u k :: nat by (simp add: upt_conv_Cons)
    show ?thesis
      unfolding fold_Cons o_apply st Cons.IH using False by (simp add: up diff_diff_eq add.assoc del: upt_Suc)
  qed
qed simp

lemma fifo_take_props:
  assumes "0 \<le> q" and "\<forall>l \<in> set ls. 0 < cl_remaining l"
  shows "sum_list (map snd (fifo_take q ls)) = min q (sum_list (map cl_remaining ls))"
    and "map fst (fifo_take q ls) = take (length (fifo_take q ls)) ls"
    and "\<forall>p \<in> set (fifo_take q ls). 0 < snd p \<and> snd p \<le> cl_remaining (fst p)"
    and "\<forall>p \<in> set (butlast (fifo_take q ls)). snd p = cl_remaining (fst p)"
  using assms
proof (induction ls arbitrary: q)
  case (Cons l ls)
  {
    case 1
    have nn: "0 \<le> sum_list (map cl_remaining ls)" using 1(2) by (intro sum_list_map_nonneg) (auto intro: less_imp_le)
    have "sum_list (map snd (fifo_take (q - min (cl_remaining l) q) ls)) = min (q - min (cl_remaining l) q) (sum_list (map cl_remaining ls))"
      by (rule Cons.IH(1)) (use 1 in \<open>auto simp: min_def\<close>)
    with 1 nn show ?case by (auto simp: min_def split: if_splits)
  next
    case 2
    then show ?case using Cons.IH(2) [of "q - min (cl_remaining l) q"] by (auto simp: min_def)
  next
    case 3
    then show ?case using Cons.IH(3) [of "q - min (cl_remaining l) q"] by (auto simp: min_def)
  next
    case 4
    show ?case
    proof (cases "q \<le> cl_remaining l")
      case True
      then show ?thesis by simp
    next
      case False
      then show ?thesis using Cons.IH(4) [of "q - min (cl_remaining l) q"] 4 by auto
    qed
  }
qed simp_all

subsection \<open>The layer table after an issue\<close>

definition layers_wf :: "'m inv_db_scheme \<Rightarrow> bool" where
  "layers_wf db \<longleftrightarrow> distinct (map cl_id (cost_layers db)) \<and>
     (\<forall>l \<in> set (cost_layers db). cl_id l < uuid_supply db \<and>
        0 \<le> cl_remaining l \<and> cl_remaining l \<le> cl_original l \<and> on_grid QUANTITY_SCALE (cl_remaining l) \<and>
        on_grid QUANTITY_SCALE (cl_original l) \<and> 0 \<le> cl_unit_cost l)"

text \<open>What a list of takes removes from the layer with an id.\<close>

definition taken_of :: "(cost_layer \<times> decimal) list \<Rightarrow> uuid \<Rightarrow> decimal" where
  "taken_of ps i = (case find_row (cl_id \<circ> fst) i ps of None \<Rightarrow> 0 | Some p \<Rightarrow> snd p)"

definition draw :: "(cost_layer \<times> decimal) list \<Rightarrow> cost_layer list \<Rightarrow> cost_layer list" where
  "draw ps ls = map (\<lambda>r. r\<lparr>cl_remaining := cl_remaining r - taken_of ps (cl_id r)\<rparr>) ls"

lemma store_quantity_grid: "on_grid QUANTITY_SCALE x \<Longrightarrow> store_quantity x = x"
  by (simp add: store_quantity_def quantize_grid)

lemma taken_of_Nil [simp]: "taken_of [] i = 0"
  by (simp add: taken_of_def)

lemma taken_of_Cons [simp]: "taken_of (p # ps) i = (if cl_id (fst p) = i then snd p else taken_of ps i)"
  by (simp add: taken_of_def)

lemma taken_of_fresh: "i \<notin> set (map (cl_id \<circ> fst) ps) \<Longrightarrow> taken_of ps i = 0"
  by (induction ps) auto

lemma taken_of_mem: "distinct (map (cl_id \<circ> fst) ps) \<Longrightarrow> p \<in> set ps \<Longrightarrow> taken_of ps (cl_id (fst p)) = snd p"
  by (induction ps) (auto simp: image_iff)

lemma draw_Nil [simp]: "draw [] ls = ls"
  by (simp add: draw_def)

lemma draw_map [simp]:
  "(\<And>r x. g (r\<lparr>cl_remaining := x\<rparr>) = g r) \<Longrightarrow> map g (draw ps ls) = map g ls"
  by (simp add: draw_def)

lemma sum_taken_of:
  assumes "distinct (map cl_id rows)" and "distinct (map (cl_id \<circ> fst) ps)"
    and "\<forall>p \<in> set ps. fst p \<in> set rows"
  shows "sum_list (map (\<lambda>r. taken_of ps (cl_id r)) rows) = sum_list (map snd ps)"
  using assms(2,3)
proof (induction ps)
  case (Cons p ps)
  have zero: "taken_of ps (cl_id (fst p)) = 0" using Cons.prems(1) by (intro taken_of_fresh) auto
  have one: "sum_list (map (\<lambda>r. if cl_id (fst p) = cl_id r then x else 0) rs) = x"
    if "distinct (map cl_id rs)" "fst p \<in> set rs" for x :: decimal and rs
    using that
  proof (induction rs)
    case (Cons r rs)
    show ?case
    proof (cases "cl_id (fst p) = cl_id r")
      case True
      then have "\<forall>s \<in> set rs. cl_id (fst p) \<noteq> cl_id s" using Cons.prems(1) by (auto simp: image_iff)
      then have "sum_list (map (\<lambda>r. if cl_id (fst p) = cl_id r then x else 0) rs) = 0"
        by (induction rs) auto
      then show ?thesis using True by simp
    next
      case False
      then have "fst p \<in> set rs" using Cons.prems(2) by auto
      then show ?thesis using Cons False by simp
    qed
  qed simp
  have split: "(\<lambda>r. taken_of (p # ps) (cl_id r)) =
      (\<lambda>r. (if cl_id (fst p) = cl_id r then snd p else 0) + taken_of ps (cl_id r))"
    using zero by (intro ext) auto
  have "fst p \<in> set rows" using Cons.prems(2) by simp
  note one [OF assms(1) this, of "snd p"]
  then have "sum_list (map (\<lambda>r. taken_of (p # ps) (cl_id r)) rows) =
      snd p + sum_list (map (\<lambda>r. taken_of ps (cl_id r)) rows)"
    unfolding split sum_list_addf by simp
  with Cons show ?case by simp
qed simp

lemma fifo_take_on_grid:
  assumes "on_grid QUANTITY_SCALE q" and "\<forall>l \<in> set ls. on_grid QUANTITY_SCALE (cl_remaining l)"
  shows "\<forall>p \<in> set (fifo_take q ls). on_grid QUANTITY_SCALE (snd p)"
  using assms
proof (induction ls arbitrary: q)
  case (Cons l ls)
  have x: "on_grid QUANTITY_SCALE (min (cl_remaining l) q)" using Cons.prems by (simp add: min_def)
  then have "on_grid QUANTITY_SCALE (q - min (cl_remaining l) q)" using Cons.prems on_grid_diff by blast
  with Cons x show ?case by auto
qed simp

lemma layer_scan_props:
  assumes "layers_wf db"
  shows "\<forall>l \<in> set (layer_scan db t i w). l \<in> set (cost_layers db) \<and> cl_tenant l = t \<and> cl_item l = i \<and>
      cl_warehouse l = w \<and> 0 < cl_remaining l \<and> on_grid QUANTITY_SCALE (cl_remaining l)"
    and "distinct (map cl_id (layer_scan db t i w))"
    and "sorted (map cl_received_at (layer_scan db t i w))"
proof -
  let ?f = "filter (\<lambda>l. cl_tenant l = t \<and> cl_item l = i \<and> cl_warehouse l = w \<and> 0 < cl_remaining l) (cost_layers db)"
  show "\<forall>l \<in> set (layer_scan db t i w). l \<in> set (cost_layers db) \<and> cl_tenant l = t \<and> cl_item l = i \<and>
      cl_warehouse l = w \<and> 0 < cl_remaining l \<and> on_grid QUANTITY_SCALE (cl_remaining l)"
    using assms by (auto simp: layer_scan_def layers_wf_def)
  have "mset (layer_scan db t i w) = mset ?f" unfolding layer_scan_def by (rule mset_sort)
  then have "mset (map cl_id (layer_scan db t i w)) = mset (map cl_id ?f)" by (simp only: mset_map)
  moreover have "distinct (map cl_id ?f)" using assms by (simp add: layers_wf_def distinct_map_filter)
  ultimately show "distinct (map cl_id (layer_scan db t i w))" using mset_eq_imp_distinct_iff by blast
  show "sorted (map cl_received_at (layer_scan db t i w))" by (simp add: layer_scan_def)
qed

lemma scan_takes:
  fixes t i w :: uuid
  assumes wf: "layers_wf db" and q: "0 \<le> q" "on_grid QUANTITY_SCALE q"
  defines "ps \<equiv> fifo_take q (layer_scan db t i w)"
  shows "distinct (map (cl_id \<circ> fst) ps)"
    and "\<forall>p \<in> set ps. fst p \<in> set (layer_scan db t i w) \<and> 0 < snd p \<and> snd p \<le> cl_remaining (fst p) \<and>
      on_grid QUANTITY_SCALE (snd p)"
proof -
  note S = layer_scan_props [OF wf, of t i w]
  have pos: "\<forall>l \<in> set (layer_scan db t i w). 0 < cl_remaining l" using S(1) by blast
  note T = fifo_take_props [OF q(1) pos, folded ps_def]
  have "map (cl_id \<circ> fst) ps = take (length ps) (map cl_id (layer_scan db t i w))"
    by (metis T(2) list.map_comp take_map)
  then show "distinct (map (cl_id \<circ> fst) ps)" using S(2) by simp
  have "on_grid QUANTITY_SCALE (snd p)" if "p \<in> set ps" for p
    using fifo_take_on_grid [OF q(2), of "layer_scan db t i w"] S(1) that ps_def by blast
  moreover have "fst p \<in> set (layer_scan db t i w)" if "p \<in> set ps" for p
  proof -
    have "fst p \<in> set (map fst ps)" using that by simp
    then show ?thesis unfolding T(2) by (rule in_set_takeD)
  qed
  ultimately show "\<forall>p \<in> set ps. fst p \<in> set (layer_scan db t i w) \<and> 0 < snd p \<and> snd p \<le> cl_remaining (fst p) \<and>
      on_grid QUANTITY_SCALE (snd p)" using T(3) by blast
qed

lemma fold_reduced_draw:
  assumes wf: "layers_wf db" and d: "distinct (map (cl_id \<circ> fst) ps)"
    and ps: "\<forall>p \<in> set ps. fst p \<in> set (cost_layers db) \<and> on_grid QUANTITY_SCALE (snd p)"
  shows "fold (\<lambda>p. upd_rows (\<lambda>r. cl_id r = cl_id (fst p)) (reduced p)) ps (cost_layers db) = draw ps (cost_layers db)"
proof -
  have "(case find_row (cl_id \<circ> fst) (cl_id r) ps of None \<Rightarrow> r | Some p \<Rightarrow> reduced p r) =
      r\<lparr>cl_remaining := cl_remaining r - taken_of ps (cl_id r)\<rparr>" if r: "r \<in> set (cost_layers db)" for r
  proof (cases "find_row (cl_id \<circ> fst) (cl_id r) ps")
    case (Some p)
    then have p: "p \<in> set ps" "cl_id (fst p) = cl_id r" by (auto dest: find_row_Some_iff)
    then have "fst p = r" using wf r ps by (auto simp: layers_wf_def distinct_map inj_on_def)
    moreover have "on_grid QUANTITY_SCALE (cl_remaining r - snd p)"
      using wf r p ps by (intro on_grid_diff) (auto simp: layers_wf_def)
    ultimately show ?thesis using Some by (simp add: taken_of_def reduced_def store_quantity_grid)
  qed (simp add: taken_of_def)
  then show ?thesis
    using fold_upd_rows_find [of "cl_id \<circ> fst" ps cl_id reduced "cost_layers db"] d
    by (simp add: draw_def)
qed

lemma consume_layers_eq:
  fixes t i w :: uuid
  assumes wf: "layers_wf db" and q: "0 \<le> q" "on_grid QUANTITY_SCALE q"
  defines "ps \<equiv> fifo_take q (layer_scan db t i w)"
  shows "consume_layers db t i w mv q cur =
    (if sum_list (map cl_remaining (layer_scan db t i w)) < q
     then Inl (ValidationFailedError ''inventory.costing_layers_short'')
     else Inr (sum_list (map (taken_cost cur) ps),
       db\<lparr>uuid_supply := uuid_supply db + length ps,
          layer_consumptions := layer_consumptions db @
            map2 (consumption_row t mv cur) [uuid_supply db..<uuid_supply db + length ps] ps,
          cost_layers := draw ps (cost_layers db)\<rparr>))"
proof -
  note S = layer_scan_props(1) [OF wf, of t i w] and T = scan_takes [OF wf q, folded ps_def]
  have "\<forall>l \<in> set (layer_scan db t i w). 0 < cl_remaining l" using S by blast
  from fifo_take_props(1) [OF q(1) this]
  have "0 < q - sum_list (map snd ps) \<longleftrightarrow> sum_list (map cl_remaining (layer_scan db t i w)) < q"
    by (auto simp: ps_def min_def)
  moreover have "fold (\<lambda>p. upd_rows (\<lambda>r. cl_id r = cl_id (fst p)) (reduced p)) ps (cost_layers db) = draw ps (cost_layers db)"
    using fold_reduced_draw [OF wf T(1)] T(2) S ps_def by blast
  ultimately show ?thesis
    unfolding consume_layers_def consume_fold ps_def [symmetric] by simp
qed

lemma draw_remaining:
  fixes t i w :: uuid
  assumes wf: "layers_wf db" and q: "0 \<le> q" "on_grid QUANTITY_SCALE q" and r: "r \<in> set (cost_layers db)"
  defines "x \<equiv> taken_of (fifo_take q (layer_scan db t i w)) (cl_id r)"
  shows "0 \<le> x \<and> x \<le> cl_remaining r \<and> on_grid QUANTITY_SCALE x"
    and "x \<noteq> 0 \<Longrightarrow> cl_tenant r = t \<and> cl_item r = i \<and> cl_warehouse r = w"
proof -
  let ?ps = "fifo_take q (layer_scan db t i w)"
  note T = scan_takes [OF wf q, of t i w] and S = layer_scan_props(1) [OF wf, of t i w]
  have "x = 0 \<or> (0 \<le> x \<and> x \<le> cl_remaining r \<and> on_grid QUANTITY_SCALE x \<and>
      cl_tenant r = t \<and> cl_item r = i \<and> cl_warehouse r = w)"
  proof (cases "find_row (cl_id \<circ> fst) (cl_id r) ?ps")
    case (Some p)
    then have p: "p \<in> set ?ps" "cl_id (fst p) = cl_id r" by (auto dest: find_row_Some_iff)
    then have "fst p \<in> set (layer_scan db t i w)" using T(2) by blast
    then have "fst p = r" using wf r S p(2) by (auto simp: layers_wf_def distinct_map inj_on_def)
    moreover have "x = snd p" using Some by (simp add: x_def taken_of_def)
    ultimately show ?thesis using T(2) p(1) S by (metis less_imp_le)
  qed (simp add: x_def taken_of_def)
  moreover have "0 \<le> cl_remaining r" using wf r by (simp add: layers_wf_def)
  ultimately show "0 \<le> x \<and> x \<le> cl_remaining r \<and> on_grid QUANTITY_SCALE x"
    and "x \<noteq> 0 \<Longrightarrow> cl_tenant r = t \<and> cl_item r = i \<and> cl_warehouse r = w" by auto
qed

definition layer_stock :: "'m inv_db_scheme \<Rightarrow> uuid \<Rightarrow> uuid \<Rightarrow> uuid \<Rightarrow> decimal" where
  "layer_stock db t i w = sum_list (map cl_remaining
     (filter (\<lambda>l. cl_tenant l = t \<and> cl_item l = i \<and> cl_warehouse l = w) (cost_layers db)))"

lemma sum_list_sort_key: "sum_list (map g (sort_key f xs)) = (sum_list (map g xs) :: 'a::comm_monoid_add)"
  by (rule sum_list_mset) simp

lemma layer_stock_scan:
  assumes "layers_wf db"
  shows "layer_stock db t i w = sum_list (map cl_remaining (layer_scan db t i w))"
proof -
  let ?P = "\<lambda>l. cl_tenant l = t \<and> cl_item l = i \<and> cl_warehouse l = w"
  have "sum_list (map cl_remaining (filter (\<lambda>l. 0 < cl_remaining l) (filter ?P (cost_layers db)))) =
      sum_list (map cl_remaining (filter ?P (cost_layers db)))"
    by (rule sum_list_filter_zero) (use assms in \<open>auto simp: layers_wf_def\<close>)
  moreover have "filter (\<lambda>l. 0 < cl_remaining l) (filter ?P ls) =
      filter (\<lambda>l. cl_tenant l = t \<and> cl_item l = i \<and> cl_warehouse l = w \<and> 0 < cl_remaining l) ls" for ls
    by (induction ls) auto
  ultimately show ?thesis by (simp add: layer_stock_def layer_scan_def sum_list_sort_key)
qed

lemma draw_stock:
  fixes t i w :: uuid
  assumes wf: "layers_wf db" and q: "0 \<le> q" "on_grid QUANTITY_SCALE q"
  defines "ps \<equiv> fifo_take q (layer_scan db t i w)"
  shows "sum_list (map cl_remaining (filter (\<lambda>l. cl_tenant l = t' \<and> cl_item l = i' \<and> cl_warehouse l = w')
      (draw ps (cost_layers db)))) =
    layer_stock db t' i' w' - (if (t', i', w') = (t, i, w) then sum_list (map snd ps) else 0)"
proof -
  let ?P = "\<lambda>l. cl_tenant l = t' \<and> cl_item l = i' \<and> cl_warehouse l = w'"
  note T = scan_takes [OF wf q, of t i w, folded ps_def] and S = layer_scan_props(1) [OF wf, of t i w]
  have f: "filter ?P (draw ps ls) = draw ps (filter ?P ls)" for ls by (induction ls) (auto simp: draw_def)
  have "sum_list (map cl_remaining (draw ps ls)) =
      sum_list (map cl_remaining ls) - sum_list (map (\<lambda>r. taken_of ps (cl_id r)) ls)" for ls
    by (simp add: draw_def o_def sum_list_subtractf)
  then have "sum_list (map cl_remaining (filter ?P (draw ps (cost_layers db)))) =
      layer_stock db t' i' w' - sum_list (map (\<lambda>r. taken_of ps (cl_id r)) (filter ?P (cost_layers db)))"
    by (simp add: f layer_stock_def)
  moreover have "sum_list (map (\<lambda>r. taken_of ps (cl_id r)) (filter ?P (cost_layers db))) =
      (if (t', i', w') = (t, i, w) then sum_list (map snd ps) else 0)"
  proof (cases "(t', i', w') = (t, i, w)")
    case True
    have "sum_list (map (\<lambda>r. taken_of ps (cl_id r)) (filter ?P (cost_layers db))) = sum_list (map snd ps)"
      by (rule sum_taken_of) (use wf T S True in \<open>auto simp: layers_wf_def distinct_map_filter\<close>)
    with True show ?thesis by simp
  next
    case False
    have "taken_of ps (cl_id r) = 0" if "r \<in> set (filter ?P (cost_layers db))" for r
      using draw_remaining(2) [OF wf q, of r t i w, folded ps_def] that False by auto
    then have "sum_list (map (\<lambda>r. taken_of ps (cl_id r)) (filter ?P (cost_layers db))) = 0"
      by (intro sum_list_map_zero) blast
    with False show ?thesis by auto
  qed
  ultimately show ?thesis by simp
qed

lemma layers_wf_draw:
  assumes wf: "layers_wf db" and q: "0 \<le> q" "on_grid QUANTITY_SCALE q"
    and db': "cost_layers db' = draw (fifo_take q (layer_scan db t i w)) (cost_layers db)"
    and u: "uuid_supply db \<le> uuid_supply db'"
  shows "layers_wf db'"
proof -
  have "cl_id l < uuid_supply db' \<and> 0 \<le> cl_remaining l \<and> cl_remaining l \<le> cl_original l \<and>
      on_grid QUANTITY_SCALE (cl_remaining l) \<and> on_grid QUANTITY_SCALE (cl_original l) \<and> 0 \<le> cl_unit_cost l"
    if l: "l \<in> set (cost_layers db')" for l
  proof -
    from l obtain r where r: "r \<in> set (cost_layers db)"
      "l = r\<lparr>cl_remaining := cl_remaining r - taken_of (fifo_take q (layer_scan db t i w)) (cl_id r)\<rparr>"
      by (auto simp: db' draw_def)
    with draw_remaining(1) [OF wf q r(1), of t i w] wf u on_grid_diff show ?thesis by (fastforce simp: layers_wf_def)
  qed
  then show ?thesis using wf by (simp add: layers_wf_def db')
qed

lemma sum_consumption_rows:
  assumes "\<forall>p \<in> set ps. on_grid QUANTITY_SCALE (snd p)" and "length ids = length ps"
  shows "sum_list (map lc_qty (map2 (consumption_row t mv cur) ids ps)) = sum_list (map snd ps)"
    and "sum_list (map lc_cost (map2 (consumption_row t mv cur) ids ps)) = sum_list (map (taken_cost cur) ps)"
    and "\<forall>c \<in> set (map2 (consumption_row t mv cur) ids ps). lc_tenant c = t \<and> lc_issue_move c = mv"
proof -
  show "sum_list (map lc_qty (map2 (consumption_row t mv cur) ids ps)) = sum_list (map snd ps)"
    using assms(2,1) by (induction ids ps rule: list_induct2) (auto simp: consumption_row_def store_quantity_grid)
  show "sum_list (map lc_cost (map2 (consumption_row t mv cur) ids ps)) = sum_list (map (taken_cost cur) ps)"
    using assms(2) by (induction ids ps rule: list_induct2)
      (auto simp: consumption_row_def taken_cost_def store_money_grid)
  show "\<forall>c \<in> set (map2 (consumption_row t mv cur) ids ps). lc_tenant c = t \<and> lc_issue_move c = mv"
    using assms(2) by (induction ids ps rule: list_induct2) (auto simp: consumption_row_def)
qed

subsection \<open>The layer table after a reversal\<close>

lemma draw_restore:
  assumes L: "distinct (map cl_id L)" and ps: "distinct (map (cl_id \<circ> fst) (p # ps))"
    and p: "fst p \<in> set L" "store_quantity (cl_remaining (fst p)) = cl_remaining (fst p)"
  shows "find_row cl_id (cl_id (fst p)) (draw (p # ps) L) =
      Some ((fst p)\<lparr>cl_remaining := cl_remaining (fst p) - snd p\<rparr>)"
    and "upd_rows (\<lambda>l. cl_id l = cl_id (fst p)) (\<lambda>l. l\<lparr>cl_remaining := store_quantity (cl_remaining (fst p))\<rparr>)
      (draw (p # ps) L) = draw ps L"
proof -
  let ?d = "\<lambda>r. r\<lparr>cl_remaining := cl_remaining r - taken_of (p # ps) (cl_id r)\<rparr>"
  have "find_row cl_id (cl_id (fst p)) (draw (p # ps) L) = map_option ?d (find_row cl_id (cl_id (fst p)) L)"
    unfolding draw_def by (induction L) auto
  then show "find_row cl_id (cl_id (fst p)) (draw (p # ps) L) =
      Some ((fst p)\<lparr>cl_remaining := cl_remaining (fst p) - snd p\<rparr>)"
    using find_row_distinct [OF L p(1)] by simp
  have "taken_of ps (cl_id (fst p)) = 0" using ps by (intro taken_of_fresh) auto
  moreover have "r\<lparr>cl_remaining := cl_remaining (fst p)\<rparr> = r" if "r \<in> set L" "cl_id r = cl_id (fst p)" for r
  proof -
    have "r = fst p" using that L p(1) by (auto simp: distinct_map inj_on_def)
    then show ?thesis by simp
  qed
  ultimately show "upd_rows (\<lambda>l. cl_id l = cl_id (fst p)) (\<lambda>l. l\<lparr>cl_remaining := store_quantity (cl_remaining (fst p))\<rparr>)
      (draw (p # ps) L) = draw ps L"
    unfolding upd_rows_def draw_def by (auto simp: p(2))
qed

lemma restore_fold:
  assumes "distinct (map cl_id L)" and "distinct (map (cl_id \<circ> fst) ps)" and "length ids = length ps"
    and "\<forall>p \<in> set ps. fst p \<in> set L \<and> cl_tenant (fst p) = t \<and> cl_remaining (fst p) \<le> cl_original (fst p) \<and>
      on_grid QUANTITY_SCALE (cl_remaining (fst p)) \<and> on_grid QUANTITY_SCALE (snd p)"
    and "cost_layers db = draw ps L"
  shows "fold_result (restore_step t) (map2 (consumption_row t mv cur) ids ps) (db, c) =
    Inr (db\<lparr>cost_layers := L\<rparr>, c + sum_list (map (taken_cost cur) ps))"
  using assms(3,2,4,5)
proof (induction ids ps arbitrary: db c rule: list_induct2)
  case (Cons i ids p ps)
  have p: "fst p \<in> set L" "cl_tenant (fst p) = t" "cl_remaining (fst p) \<le> cl_original (fst p)"
    "store_quantity (cl_remaining (fst p)) = cl_remaining (fst p)" "store_quantity (snd p) = snd p"
    using Cons.prems(2) by (auto simp: store_quantity_grid)
  note R = draw_restore [OF assms(1) Cons.prems(1) p(1) p(4)]
  have c: "store_money (taken_cost cur p) = taken_cost cur p" by (simp add: taken_cost_def store_money_grid)
  have "restore_step t (consumption_row t mv cur i p) (db, c) =
      Inr (db\<lparr>cost_layers := draw ps L\<rparr>, c + taken_cost cur p)"
    using p R by (simp add: restore_step_def consumption_row_def Cons.prems(3) set_remaining_def c)
  then show ?case using Cons by (simp add: add.assoc)
qed simp

subsection \<open>Properties\<close>

lemma consume_layers_Inr:
  fixes t i w :: uuid
  assumes wf: "layers_wf db" and q: "0 \<le> q" "on_grid QUANTITY_SCALE q"
    and c: "consume_layers db t i w mv q cur = Inr (cogs, db')"
  defines "ps \<equiv> fifo_take q (layer_scan db t i w)"
  shows "cogs = sum_list (map (taken_cost cur) ps)"
    and "cost_layers db' = draw ps (cost_layers db)"
    and "layer_consumptions db' = layer_consumptions db @
      map2 (consumption_row t mv cur) [uuid_supply db..<uuid_supply db + length ps] ps"
    and "sum_list (map snd ps) = q" and "layers_wf db'"
    and "db' = db\<lparr>uuid_supply := uuid_supply db', layer_consumptions := layer_consumptions db',
      cost_layers := cost_layers db'\<rparr>" and "uuid_supply db \<le> uuid_supply db'"
proof -
  from c have enough: "q \<le> sum_list (map cl_remaining (layer_scan db t i w))"
    and db': "cogs = sum_list (map (taken_cost cur) ps)"
      "db' = db\<lparr>uuid_supply := uuid_supply db + length ps,
          layer_consumptions := layer_consumptions db @
            map2 (consumption_row t mv cur) [uuid_supply db..<uuid_supply db + length ps] ps,
          cost_layers := draw ps (cost_layers db)\<rparr>"
    unfolding consume_layers_eq [OF wf q] ps_def by (auto split: if_splits)
  then show "cogs = sum_list (map (taken_cost cur) ps)"
    and L: "cost_layers db' = draw ps (cost_layers db)"
    and "layer_consumptions db' = layer_consumptions db @
      map2 (consumption_row t mv cur) [uuid_supply db..<uuid_supply db + length ps] ps"
    and "db' = db\<lparr>uuid_supply := uuid_supply db', layer_consumptions := layer_consumptions db',
      cost_layers := cost_layers db'\<rparr>" and u: "uuid_supply db \<le> uuid_supply db'"
    by simp_all
  have pos: "\<forall>l \<in> set (layer_scan db t i w). 0 < cl_remaining l" using layer_scan_props(1) [OF wf] by blast
  show "sum_list (map snd ps) = q"
    using fifo_take_props(1) [OF q(1) pos] enough by (simp add: ps_def)
  show "layers_wf db'" by (rule layers_wf_draw [OF wf q L [unfolded ps_def] u])
qed

text \<open>
  C14. First in, first out: an issue returns exactly when the layers of the (item, warehouse) hold
  the quantity. It then writes consumption rows for this issue that add up to the quantity and
  to the returned cost of goods sold, lowers the stock in the layers of that (item, warehouse) by
  the quantity and of no other, takes layers in order of receipt and everything from a layer
  before it touches the next, and keeps every layer between zero and its original quantity.
\<close>

theorem fifo_issue_exact:
  fixes t i w :: uuid
  assumes wf: "layers_wf db" and q: "0 < q" "on_grid QUANTITY_SCALE q"
  defines "ps \<equiv> fifo_take q (layer_scan db t i w)"
  shows "(is_ok (consume_layers db t i w mv q cur) \<longleftrightarrow> q \<le> layer_stock db t i w) \<and>
    (\<forall>cogs db'. consume_layers db t i w mv q cur = Inr (cogs, db') \<longrightarrow>
      (\<exists>new. layer_consumptions db' = layer_consumptions db @ new \<and>
         (\<forall>c \<in> set new. lc_tenant c = t \<and> lc_issue_move c = mv) \<and>
         sum_list (map lc_qty new) = q \<and> sum_list (map lc_cost new) = cogs) \<and>
      (\<forall>t' i' w'. layer_stock db' t' i' w' = layer_stock db t' i' w' - (if (t', i', w') = (t, i, w) then q else 0)) \<and>
      layers_wf db' \<and> cost_layers db' = draw ps (cost_layers db) \<and>
      sorted (map (cl_received_at \<circ> fst) ps) \<and>
      (\<forall>p \<in> set (butlast ps). snd p = cl_remaining (fst p)))"
proof -
  have q0: "0 \<le> q" using q by simp
  note S = layer_scan_props [OF wf, of t i w]
  have pos: "\<forall>l \<in> set (layer_scan db t i w). 0 < cl_remaining l" using S(1) by blast
  note T = fifo_take_props [OF q0 pos, folded ps_def] and G = scan_takes(2) [OF wf q0 q(2), of t i w, folded ps_def]
  have "map (cl_received_at \<circ> fst) ps = take (length ps) (map cl_received_at (layer_scan db t i w))"
    by (metis T(2) list.map_comp take_map)
  then have srt: "sorted (map (cl_received_at \<circ> fst) ps)" using S(3) by (simp add: sorted_wrt_take)
  have ret: "is_ok (consume_layers db t i w mv q cur) \<longleftrightarrow> q \<le> layer_stock db t i w"
    unfolding consume_layers_eq [OF wf q0 q(2)] layer_stock_scan [OF wf] by auto
  have "(\<exists>new. layer_consumptions db' = layer_consumptions db @ new \<and>
         (\<forall>c \<in> set new. lc_tenant c = t \<and> lc_issue_move c = mv) \<and>
         sum_list (map lc_qty new) = q \<and> sum_list (map lc_cost new) = cogs) \<and>
      (\<forall>t' i' w'. layer_stock db' t' i' w' = layer_stock db t' i' w' - (if (t', i', w') = (t, i, w) then q else 0)) \<and>
      layers_wf db' \<and> cost_layers db' = draw ps (cost_layers db)"
    if "consume_layers db t i w mv q cur = Inr (cogs, db')" for cogs db'
  proof -
    note C = consume_layers_Inr [OF wf q0 q(2) that, folded ps_def]
    have "\<forall>p \<in> set ps. on_grid QUANTITY_SCALE (snd p)" using G by blast
    note R = sum_consumption_rows [OF this, of "[uuid_supply db..<uuid_supply db + length ps]" t mv cur]
    have "layer_stock db' t' i' w' = layer_stock db t' i' w' - (if (t', i', w') = (t, i, w) then q else 0)" for t' i' w'
      using draw_stock [OF wf q0 q(2), of t' i' w' t i w, folded ps_def] C(4)
      by (simp only: layer_stock_def C(2))
    with R C(1-5) show ?thesis by auto
  qed
  with ret srt T(4) show ?thesis by blast
qed

text \<open>
  C19. Reversing an issue is the inverse of the issue on the layers: right after an issue, the
  replay of its consumption rows returns, gives back the same cost of goods sold and leaves every
  layer as it was before the issue.
\<close>

theorem fifo_reversal_restores:
  assumes wf: "layers_wf db" and q: "0 < q" "on_grid QUANTITY_SCALE q"
    and fresh: "\<forall>c \<in> set (layer_consumptions db). lc_issue_move c \<noteq> mv"
    and c: "consume_layers db t i w mv q cur = Inr (cogs, db')"
  shows "\<exists>db''. reverse_issue_consumptions db' t mv = Inr (cogs, db'') \<and> cost_layers db'' = cost_layers db"
proof -
  let ?ps = "fifo_take q (layer_scan db t i w)" and ?u = "uuid_supply db"
  have q0: "0 \<le> q" using q by simp
  note C = consume_layers_Inr [OF wf q0 q(2) c] and T = scan_takes [OF wf q0 q(2), of t i w]
    and S = layer_scan_props(1) [OF wf, of t i w]
  have L: "distinct (map cl_id (cost_layers db))"
    "\<forall>p \<in> set ?ps. fst p \<in> set (cost_layers db) \<and> cl_tenant (fst p) = t \<and> cl_remaining (fst p) \<le> cl_original (fst p) \<and>
      on_grid QUANTITY_SCALE (cl_remaining (fst p)) \<and> on_grid QUANTITY_SCALE (snd p)"
    using wf T(2) S by (auto simp: layers_wf_def)
  have "\<forall>p \<in> set ?ps. on_grid QUANTITY_SCALE (snd p)" using T(2) by blast
  note R = sum_consumption_rows(3) [OF this, of "[?u..<?u + length ?ps]" t mv cur]
  have new: "filter (\<lambda>c. lc_tenant c = t \<and> lc_issue_move c = mv) (layer_consumptions db') =
      map2 (consumption_row t mv cur) [?u..<?u + length ?ps] ?ps"
    unfolding C(3) filter_append using R fresh by (auto simp: filter_empty_conv intro!: filter_True)
  have "fold_result (restore_step t) (map2 (consumption_row t mv cur) [?u..<?u + length ?ps] ?ps) (db', 0) =
      Inr (db'\<lparr>cost_layers := cost_layers db\<rparr>, 0 + sum_list (map (taken_cost cur) ?ps))"
    by (rule restore_fold [OF L(1) T(1) _ L(2) C(2)]) simp
  then show ?thesis unfolding reverse_issue_consumptions_def new by (simp add: C(1))
qed

lemma sample_layers_wf: "layers_wf sample_stock"
  by code_simp

theorem fifo_issue_exact_witness:
  "\<exists>cogs db'. consume_layers sample_stock 1 41 50 99 4 ''USD'' = Inr (cogs, db') \<and>
     layer_stock db' 1 41 50 = layer_stock sample_stock 1 41 50 - 4"
proof -
  have q: "on_grid QUANTITY_SCALE 4" "(4::decimal) \<le> layer_stock sample_stock 1 41 50" by code_simp+
  from q(2) fifo_issue_exact [OF sample_layers_wf _ q(1), of 1 41 50 99 "''USD''"]
  obtain cogs db' where "consume_layers sample_stock 1 41 50 99 4 ''USD'' = Inr (cogs, db')"
    by (metis is_okE surj_pair zero_less_numeral)
  with fifo_issue_exact [OF sample_layers_wf _ q(1), of 1 41 50 99 "''USD''"] show ?thesis by fastforce
qed

theorem fifo_reversal_restores_witness:
  "\<exists>db' db''. consume_layers sample_stock 1 41 50 99 4 ''USD'' = Inr (5, db') \<and>
     reverse_issue_consumptions db' 1 99 = Inr (5, db'') \<and> cost_layers db'' = cost_layers sample_stock"
proof -
  have q: "on_grid QUANTITY_SCALE 4" "map_sum id fst (consume_layers sample_stock 1 41 50 99 4 ''USD'') = Inr 5"
    "\<forall>c \<in> set (layer_consumptions sample_stock). lc_issue_move c \<noteq> 99" by code_simp+
  from q(2) obtain db' where c: "consume_layers sample_stock 1 41 50 99 4 ''USD'' = Inr (5, db')"
    by (cases "consume_layers sample_stock 1 41 50 99 4 ''USD''") auto
  from fifo_reversal_restores [OF sample_layers_wf _ q(1) q(3) c] c show ?thesis by auto
qed

text \<open>
  A FIFO receipt whose issue was reversed can no longer be reversed: the layer is full again, but
  the consumption rows of the undone issue still refer to it, so deleting it violates the foreign
  key.
\<close>

definition undone_issue :: "inv_db result" where
  "undone_issue =
     bindr (consume_layers sample_stock 1 41 50 99 4 ''USD'') (\<lambda>(_, db1).
     bindr (reverse_issue_consumptions db1 1 99) (\<lambda>(_, db2). Inr db2))"

lemma undone_issue_blocks_receipt_reversal:
  "bindr undone_issue (\<lambda>db. bindr (reverse_receipt_layer db 1 83) (\<lambda>(c, _). Inr c)) =
     Inl (IntegrityError ''fk_inv_layer_consumptions_layer_id_inv_cost_layers'')"
  by code_simp

end
