(* ===== verification/Costing.thy ===== *)
theory Costing
  imports Costing_Mav Costing_Fifo Fx
begin

text \<open>
  Model of \<^verbatim>\<open>backend/app/modules/inventory/service/costing.py\<close> and \<^verbatim>\<open>costing_reversal.py\<close>: the
  direction of a move, the choice of the engine, the write of the computed cost onto the move and
  the \<open>StockValued\<close> event. Each function returns the event to publish and the new tables.
\<close>

subsection \<open>Reads\<close>

definition DEFAULT_COSTING_CURRENCY :: string where "DEFAULT_COSTING_CURRENCY = ''USD''"

definition warehouse_of_bin :: "'m inv_db_scheme \<Rightarrow> uuid \<Rightarrow> uuid \<Rightarrow> uuid result" where
  "warehouse_of_bin db tenant bn =
     bindr (one_or_none (filter (\<lambda>b. bn_tenant b = tenant \<and> bn_id b = bn) (stock_bins db))) (\<lambda>b.
       case b of
         None \<Rightarrow> Inl (ValidationFailedError ''inventory.costing_bin_warehouse_missing'')
       | Some b \<Rightarrow> Inr (bn_warehouse b))"

definition or_default :: "string option \<Rightarrow> string" where
  "or_default code = (case code of Some (c # cs) \<Rightarrow> c # cs | _ \<Rightarrow> DEFAULT_COSTING_CURRENCY)"

definition costing_currency :: "'m inv_db_scheme \<Rightarrow> uuid \<Rightarrow> string result" where
  "costing_currency db tenant =
     bindr (functional_currency_or_none db tenant) (\<lambda>code. Inr (or_default code))"

definition get_category_accounts ::
  "'m inv_db_scheme \<Rightarrow> uuid \<Rightarrow> uuid \<Rightarrow> (uuid option \<times> uuid option \<times> uuid option) option" where
  "get_category_accounts db tenant item =
     (case filter (\<lambda>(i, c). it_category i = ic_id c \<and> it_tenant i = tenant \<and> it_id i = item)
             (List.product (items db) (item_categories db)) of
        [] \<Rightarrow> None
      | (i, c) # _ \<Rightarrow> Some (ic_inventory_account c, ic_cogs_account c, ic_price_difference_account c))"

definition category_accounts :: "'m inv_db_scheme \<Rightarrow> uuid \<Rightarrow> uuid \<Rightarrow> (uuid \<times> uuid \<times> uuid) result" where
  "category_accounts db tenant item =
     (case get_category_accounts db tenant item of
        Some (Some a, Some b, Some c) \<Rightarrow> Inr (a, b, c)
      | _ \<Rightarrow> Inl (ValidationFailedError ''inventory.category_accounts_unwired''))"

definition current_unit_cost ::
  "'m inv_db_scheme \<Rightarrow> uuid \<Rightarrow> item \<Rightarrow> uuid \<Rightarrow> decimal result" where
  "current_unit_cost db tenant it warehouse =
     (case it_costing it of
        MOVING_AVERAGE \<Rightarrow> mav_avg_cost db tenant (it_id it) warehouse
      | FIFO \<Rightarrow> Inr (fifo_weighted_cost db tenant (it_id it) warehouse))"

definition require_entry_cost :: "stock_move \<Rightarrow> decimal result" where
  "require_entry_cost move =
     (case sm_unit_cost move of
        None \<Rightarrow> Inl (ValidationFailedError ''inventory.receipt_unit_cost_required'')
      | Some c \<Rightarrow> Inr c)"

subsection \<open>Writes\<close>

text \<open>\<^verbatim>\<open>move.unit_cost = cost\<close>, flushed to the row of the move.\<close>

definition set_move_cost :: "stock_move \<Rightarrow> decimal \<Rightarrow> 'm inv_db_scheme \<Rightarrow> 'm inv_db_scheme" where
  "set_move_cost move cost db =
     db\<lparr>stock_moves := upd_rows (\<lambda>m. sm_id m = sm_id move)
          (\<lambda>m. m\<lparr>sm_unit_cost := Some (store_money cost)\<rparr>) (stock_moves db)\<rparr>"

definition build_event ::
  "stock_move \<Rightarrow> uuid \<Rightarrow> decimal \<Rightarrow> decimal \<Rightarrow> decimal \<Rightarrow> uuid \<Rightarrow> uuid \<Rightarrow> uuid \<Rightarrow> bool \<Rightarrow> stock_valued" where
  "build_event move warehouse qty total_cost residual_flush inventory_account offset_account
     price_diff_account is_inbound =
     \<lparr>sv_tenant = sm_tenant move, sv_move_id = sm_id move, sv_move_number = sm_number move,
      sv_move_type = move_type_str (sm_type move), sv_is_inbound = is_inbound, sv_item = sm_item move,
      sv_warehouse = warehouse, sv_quantity = qty, sv_total_cost = total_cost,
      sv_residual = residual_flush, sv_move_date = sm_date move, sv_document = sm_document move,
      sv_inventory_account = inventory_account, sv_offset_account = offset_account,
      sv_price_difference_account = price_diff_account\<rparr>"

definition unit_cost_of :: "decimal \<Rightarrow> decimal \<Rightarrow> decimal" where
  "unit_cost_of cost qty = (if 0 < qty then ddiv cost qty else 0)"

definition apply_inbound ::
  "'m inv_db_scheme \<Rightarrow> uuid \<Rightarrow> item \<Rightarrow> stock_move \<Rightarrow> decimal \<Rightarrow> uuid \<Rightarrow> uuid \<times> uuid \<times> uuid \<Rightarrow>
   uuid option \<Rightarrow> (stock_valued option \<times> 'm inv_db_scheme) result" where
  "apply_inbound db tenant it move qty warehouse accts offset_override =
     bindr (require_entry_cost move) (\<lambda>unit_cost.
     case accts of (inventory_account, cogs_account, price_diff_account) \<Rightarrow>
     bindr (case it_costing it of
              MOVING_AVERAGE \<Rightarrow> mav_receive db tenant (it_id it) warehouse qty unit_cost 0
            | FIFO \<Rightarrow> Inr (create_layer db tenant (it_id it) warehouse (sm_id move) (sm_date move)
                         qty unit_cost)) (\<lambda>db1.
     let offset_account = (case offset_override of Some a \<Rightarrow> a | None \<Rightarrow> price_diff_account)
     in Inr (Some (build_event move warehouse qty (dmul qty unit_cost) 0 inventory_account
                     offset_account price_diff_account True),
             set_move_cost move unit_cost db1)))"

definition apply_outbound ::
  "'m inv_db_scheme \<Rightarrow> uuid \<Rightarrow> item \<Rightarrow> stock_move \<Rightarrow> decimal \<Rightarrow> string \<Rightarrow> uuid \<Rightarrow> uuid \<times> uuid \<times> uuid \<Rightarrow>
   uuid option \<Rightarrow> (stock_valued option \<times> 'm inv_db_scheme) result" where
  "apply_outbound db tenant it move qty currency_code warehouse accts offset_override =
     bindr (case it_costing it of
              MOVING_AVERAGE \<Rightarrow> mav_issue db tenant (it_id it) warehouse qty currency_code
            | FIFO \<Rightarrow> bindr (consume_layers db tenant (it_id it) warehouse (sm_id move) qty currency_code)
                         (\<lambda>(cogs, db1). Inr ((cogs, 0), db1))) (\<lambda>((cogs, residual_flush), db1).
     case accts of (inventory_account, cogs_account, price_diff_account) \<Rightarrow>
     let offset_account =
           (if sm_type move = ISSUE
            then (case offset_override of Some a \<Rightarrow> a | None \<Rightarrow> cogs_account)
            else price_diff_account)
     in Inr (Some (build_event move warehouse qty cogs residual_flush inventory_account
                     offset_account price_diff_account False),
             set_move_cost move (unit_cost_of cogs qty) db1))"

definition apply_transfer ::
  "'m inv_db_scheme \<Rightarrow> uuid \<Rightarrow> item \<Rightarrow> stock_move \<Rightarrow> decimal \<Rightarrow> string \<Rightarrow> uuid option \<Rightarrow> uuid option \<Rightarrow>
   (stock_valued option \<times> 'm inv_db_scheme) result" where
  "apply_transfer db tenant it move qty currency_code from_warehouse to_warehouse =
     (case (from_warehouse, to_warehouse) of
        (Some source, Some dest) \<Rightarrow>
          if source = dest
          then bindr (current_unit_cost db tenant it source) (\<lambda>cost. Inr (None, set_move_cost move cost db))
          else (case it_costing it of
             MOVING_AVERAGE \<Rightarrow>
               bindr (mav_issue db tenant (it_id it) source qty currency_code) (\<lambda>((cost, residual), db1).
               bindr (mav_receive db1 tenant (it_id it) dest qty (unit_cost_of cost qty) residual) (\<lambda>db2.
               Inr (None, set_move_cost move (unit_cost_of cost qty) db2)))
           | FIFO \<Rightarrow>
               bindr (consume_layers db tenant (it_id it) source (sm_id move) qty currency_code) (\<lambda>(cost, db1).
               Inr (None, set_move_cost move (unit_cost_of cost qty)
                      (create_layer db1 tenant (it_id it) dest (sm_id move) (sm_date move) qty
                         (unit_cost_of cost qty)))))
      | _ \<Rightarrow> Inl (ValidationFailedError ''inventory.costing_transfer_sides''))"

definition warehouse_of ::
  "'m inv_db_scheme \<Rightarrow> uuid \<Rightarrow> uuid option \<Rightarrow> uuid option result" where
  "warehouse_of db tenant bn =
     (case bn of None \<Rightarrow> Inr None | Some b \<Rightarrow> bindr (warehouse_of_bin db tenant b) (\<lambda>w. Inr (Some w)))"

definition apply_costing ::
  "'m inv_db_scheme \<Rightarrow> uuid \<Rightarrow> item \<Rightarrow> stock_move \<Rightarrow> uuid option \<Rightarrow>
   (stock_valued option \<times> 'm inv_db_scheme) result" where
  "apply_costing db tenant it move offset_override =
     bindr (costing_currency db tenant) (\<lambda>currency_code.
     bindr (category_accounts db tenant (it_id it)) (\<lambda>accts.
     bindr (warehouse_of db tenant (sm_from_bin move)) (\<lambda>from_warehouse.
     bindr (warehouse_of db tenant (sm_to_bin move)) (\<lambda>to_warehouse.
     if sm_type move = TRANSFER
     then apply_transfer db tenant it move (sm_quantity move) currency_code from_warehouse to_warehouse
     else case to_warehouse of
       Some w \<Rightarrow> apply_inbound db tenant it move (sm_quantity move) w accts offset_override
     | None \<Rightarrow>
         (case from_warehouse of
            Some w \<Rightarrow> apply_outbound db tenant it move (sm_quantity move) currency_code w accts offset_override
          | None \<Rightarrow> Inl (ValidationFailedError ''inventory.costing_no_side''))))))"

subsection \<open>Reversal\<close>

definition original_unit_cost :: "stock_move \<Rightarrow> decimal" where
  "original_unit_cost m = (case sm_unit_cost m of Some c \<Rightarrow> c | None \<Rightarrow> 0)"

definition reversal_warehouse :: "'m inv_db_scheme \<Rightarrow> uuid \<Rightarrow> stock_move \<Rightarrow> uuid result" where
  "reversal_warehouse db tenant m =
     (case sm_to_bin m of
        Some b \<Rightarrow> warehouse_of_bin db tenant b
      | None \<Rightarrow>
          (case sm_from_bin m of
             Some b \<Rightarrow> warehouse_of_bin db tenant b
           | None \<Rightarrow> Inl (ValidationFailedError ''inventory.costing_no_side'')))"

definition reverse_costing ::
  "'m inv_db_scheme \<Rightarrow> uuid \<Rightarrow> item \<Rightarrow> stock_move \<Rightarrow> stock_move \<Rightarrow>
   (stock_valued option \<times> 'm inv_db_scheme) result" where
  "reverse_costing db tenant it reversal_move original_move =
     (let qty = sm_quantity reversal_move in
     bindr (costing_currency db tenant) (\<lambda>currency_code.
     bindr (category_accounts db tenant (it_id it)) (\<lambda>(inventory_account, cogs_account, price_diff_account).
     bindr (reversal_warehouse db tenant reversal_move) (\<lambda>warehouse.
     case sm_type original_move of
       RECEIPT \<Rightarrow>
         bindr (case it_costing it of
                  MOVING_AVERAGE \<Rightarrow>
                    bindr (mav_issue db tenant (it_id it) warehouse qty currency_code) (\<lambda>(_, db1).
                    Inr (original_unit_cost original_move, dmul qty (original_unit_cost original_move), db1))
                | FIFO \<Rightarrow>
                    bindr (reverse_receipt_layer db tenant (sm_id original_move)) (\<lambda>(total_cost, db1).
                    Inr (unit_cost_of total_cost qty, total_cost, db1)))
           (\<lambda>(unit_cost, total_cost, db1).
         Inr (Some (build_event reversal_move warehouse qty total_cost 0 inventory_account
                      price_diff_account price_diff_account False),
              set_move_cost reversal_move unit_cost db1))
     | ISSUE \<Rightarrow>
         bindr (case it_costing it of
                  MOVING_AVERAGE \<Rightarrow>
                    bindr (mav_receive db tenant (it_id it) warehouse qty
                             (original_unit_cost original_move) 0) (\<lambda>db1.
                    Inr (original_unit_cost original_move, dmul qty (original_unit_cost original_move), db1))
                | FIFO \<Rightarrow>
                    bindr (reverse_issue_consumptions db tenant (sm_id original_move)) (\<lambda>(total_cost, db1).
                    Inr (unit_cost_of total_cost qty, total_cost, db1)))
           (\<lambda>(unit_cost, total_cost, db1).
         Inr (Some (build_event reversal_move warehouse qty total_cost 0 inventory_account
                      cogs_account price_diff_account True),
              set_move_cost reversal_move unit_cost db1))
     | _ \<Rightarrow> apply_costing db tenant it reversal_move None))))"

subsection \<open>Properties\<close>

text \<open>What a moving-average transfer between two warehouses does to the valuations.\<close>

lemma transfer_mav_Inr:
  assumes "apply_transfer db t it m q cur (Some source) (Some dest) = Inr (ev, db')"
    and "source \<noteq> dest" and "it_costing it = MOVING_AVERAGE"
  obtains cost residual db1 db2 where "mav_issue db t (it_id it) source q cur = Inr ((cost, residual), db1)"
    and "mav_receive db1 t (it_id it) dest q (unit_cost_of cost q) residual = Inr db2"
    and "db' = set_move_cost m (unit_cost_of cost q) db2" and "ev = None"
  using assms by (auto simp: apply_transfer_def elim!: bindr_InrE)

lemma mav_set_move_cost [simp]:
  "mav_value (set_move_cost m c db) = mav_value db" "mav_qty (set_move_cost m c db) = mav_qty db"
  by (simp_all add: mav_value_def mav_qty_def set_move_cost_def fun_eq_iff)

text \<open>The stored values and the cost of the transferred quantity fit the money column.\<close>

definition values_small :: "'m inv_db_scheme \<Rightarrow> decimal \<Rightarrow> bool" where
  "values_small db q \<longleftrightarrow> (\<forall>v \<in> set (item_valuations db).
     \<bar>dmul q (iv_avg_unit_cost v)\<bar> \<le> 10 ^ 11 \<and> \<bar>iv_total_value v\<bar> \<le> 10 ^ 11)"

lemma values_small_bounds:
  assumes wf: "valuations_wf db" and s: "values_small db q" and "on_grid QUANTITY_SCALE q"
  shows "\<bar>mav_value db (t, i, w)\<bar> \<le> money_bound"
    and "mav_issue db t i w q cur = Inr ((cost, residual), db1) \<Longrightarrow> \<bar>cost\<bar> \<le> money_bound \<and> \<bar>residual\<bar> \<le> money_bound"
proof -
  show "\<bar>mav_value db (t, i, w)\<bar> \<le> money_bound"
    using wf by (cases rule: locked_valuation_cases [where t = t and i = i and w = w])
      (use s in \<open>auto simp: values_small_def\<close>)
  assume iss: "mav_issue db t i w q cur = Inr ((cost, residual), db1)"
  then obtain v where v: "locked_valuation db t i w = Inr (Some v)"
    by (auto simp: mav_issue_def elim!: bindr_InrE split: option.splits)
  have mem: "v \<in> set (item_valuations db)"
    using wf by (cases rule: locked_valuation_cases [where t = t and i = i and w = w]) (use v in auto)
  have c: "cost = quantize ROUND_HALF_UP (currency_decimals cur) (dmul q (iv_avg_unit_cost v))"
    "residual = 0 \<or> residual = iv_total_value v - cost"
    using iss v by (auto simp: mav_issue_def quantize_for_currency_def quantize_money_def Let_def split: if_splits)
  have "(1::rat) / 10 ^ currency_decimals cur \<le> 1" by simp
  with quantize_err [of ROUND_HALF_UP "currency_decimals cur" "dmul q (iv_avg_unit_cost v)"]
  have "\<bar>cost - dmul q (iv_avg_unit_cost v)\<bar> \<le> 1" unfolding c(1) by linarith
  with s mem show "\<bar>cost\<bar> \<le> money_bound \<and> \<bar>residual\<bar> \<le> money_bound"
    using c(2) unfolding values_small_def abs_le_iff by force
qed

text \<open>
  A transfer between two warehouses of a moving-average item is value-neutral to the last digit:
  it publishes no event, what the source warehouse loses is exactly what the destination gains,
  although the unit cost is rounded to 28 digits on the way, and the quantities move by exactly
  the transferred quantity (for amounts within the money column).
\<close>

theorem transfer_conserves_value:
  assumes wf: "valuations_wf db" and q: "0 < q" "on_grid QUANTITY_SCALE q"
    and item: "it_costing it = MOVING_AVERAGE" and wh: "source \<noteq> dest"
    and tr: "apply_transfer db t it m q cur (Some source) (Some dest) = Inr (ev, db')"
    and small: "values_small db q" and covered: "q \<le> mav_qty db (t, it_id it, source)"
  shows "ev = None \<and>
    mav_value db' (t, it_id it, source) + mav_value db' (t, it_id it, dest) =
      mav_value db (t, it_id it, source) + mav_value db (t, it_id it, dest) \<and>
    mav_qty db' (t, it_id it, source) = mav_qty db (t, it_id it, source) - q \<and>
    mav_qty db' (t, it_id it, dest) = mav_qty db (t, it_id it, dest) + q"
proof (rule transfer_mav_Inr [OF tr wh item])
  fix cost residual db1 db2
  assume iss: "mav_issue db t (it_id it) source q cur = Inr ((cost, residual), db1)"
    and rcv: "mav_receive db1 t (it_id it) dest q (unit_cost_of cost q) residual = Inr db2"
    and db': "db' = set_move_cost m (unit_cost_of cost q) db2" and ev: "ev = None"
  note I = mav_issue_effect [OF wf q(2) iss] and S = values_small_bounds [OF wf small q(2)]
  have near: "\<bar>dmul q (unit_cost_of cost q) - cost\<bar> \<le> \<bar>cost\<bar> / 10 ^ 26"
    using dmul_ddiv_err [OF q(1), of cost] q(1) by (simp add: unit_cost_of_def)
  have dv: "mav_value db1 (t, it_id it, dest) = mav_value db (t, it_id it, dest)"
    "mav_qty db1 (t, it_id it, dest) = mav_qty db (t, it_id it, dest)" using wh by (simp_all add: I(1,2))
  have b: "\<bar>cost\<bar> \<le> money_bound" "\<bar>residual\<bar> \<le> money_bound" "\<bar>mav_value db1 (t, it_id it, dest)\<bar> \<le> money_bound"
    using S(2) [OF iss] S(1) unfolding dv by blast+
  obtain db3 where R: "mav_receive db1 t (it_id it) dest q (unit_cost_of cost q) residual = Inr db3"
    "mav_value db3 = (mav_value db1)((t, it_id it, dest) := mav_value db1 (t, it_id it, dest) + cost + residual)"
    "mav_qty db3 = (mav_qty db1)((t, it_id it, dest) := mav_qty db1 (t, it_id it, dest) + q)"
    by (rule mav_receive_effect [OF I(5) q(2) near I(6,7) b])
  have "db3 = db2" using R(1) rcv by simp
  with R(2,3) wh covered ev show ?thesis unfolding db' by (simp add: dv I(1,2))
qed

definition sample_transfer :: stock_move where
  "sample_transfer = \<lparr>sm_id = 95, sm_tenant = 1, sm_document = 96, sm_number = ''STK-1'', sm_type = TRANSFER,
     sm_item = 40, sm_quantity = 2, sm_base_uom = 20, sm_from_bin = Some 60, sm_to_bin = Some 61, sm_lot = None,
     sm_serial = None, sm_date = Date 2024 3 5, sm_reference = None, sm_unit_cost = None\<rparr>"

definition sample_item :: item where
  "sample_item = \<lparr>it_id = 40, it_tenant = 1, it_type = STOCKED, it_category = 30, it_base_uom = 20,
     it_costing = MOVING_AVERAGE, it_tracking = NO_TRACKING,
     it_code = ''I'', it_is_active = True, it_reorder_point = None, it_reorder_quantity = None\<rparr>"

theorem transfer_conserves_value_witness:
  "\<exists>ev db'. apply_transfer sample_stock 1 sample_item sample_transfer 2 ''USD'' (Some 50) (Some 51) = Inr (ev, db') \<and>
     mav_value db' (1, 40, 50) + mav_value db' (1, 40, 51) = 1 \<and> mav_qty db' (1, 40, 51) = 2"
proof -
  have F: "on_grid QUANTITY_SCALE 2" "values_small sample_stock 2"
    "2 \<le> mav_qty sample_stock (1, it_id sample_item, 50)" "it_costing sample_item = MOVING_AVERAGE"
    "mav_value sample_stock (1, it_id sample_item, 50) + mav_value sample_stock (1, it_id sample_item, 51) = 1"
    "mav_qty sample_stock (1, it_id sample_item, 51) = 0" "it_id sample_item = 40" by code_simp+
  have "is_ok (apply_transfer sample_stock 1 sample_item sample_transfer 2 ''USD'' (Some 50) (Some 51))"
    by (simp add: apply_transfer_def sample_item_def sample_stock_def mav_issue_def mav_receive_def
        locked_valuation_def valuation_match_def uuid4_def Let_def)
  then obtain ev db' where tr:
    "apply_transfer sample_stock 1 sample_item sample_transfer 2 ''USD'' (Some 50) (Some 51) = Inr (ev, db')"
    by (metis is_okE surj_pair)
  have "(50::uuid) \<noteq> 51" "(0::decimal) < 2" by simp_all
  from transfer_conserves_value [OF sample_valuations_wf this(2) F(1,4) this(1) tr F(2,3)] F(5,6) tr
  show ?thesis unfolding F(7) by auto
qed

end
