(* ===== verification/Stock_Moves.thy ===== *)
theory Stock_Moves
  imports Stock_Quants Costing Numbering Docflow
begin

text \<open>
  Model of \<^verbatim>\<open>backend/app/modules/inventory/service/stock_moves.py\<close>: \<open>create_move\<close> (validation,
  lot and serial resolution, document, number, ledger row, on-hand deltas, costing, event) and
  \<open>reverse_move\<close>, both as whole handlers.
\<close>

subsection \<open>Payload and validation\<close>

record stock_move_create =
  smc_type :: move_type
  smc_item :: uuid
  smc_quantity :: decimal
  smc_from_bin :: "uuid option"
  smc_to_bin :: "uuid option"
  smc_lot :: "uuid option"
  smc_serial :: "uuid option"
  smc_lot_code :: "string option"
  smc_serial_code :: "string option"
  smc_date :: "date option"
  smc_reference :: "string option"
  smc_unit_cost :: "decimal option"

definition require_stocked_item :: "'m inv_db_scheme \<Rightarrow> uuid \<Rightarrow> uuid \<Rightarrow> item result" where
  "require_stocked_item db tenant i =
     (case find_row it_id i (items db) of
        None \<Rightarrow> Inl (NotFoundError ''inventory.item_not_found'')
      | Some it \<Rightarrow>
          if it_tenant it \<noteq> tenant then Inl (NotFoundError ''inventory.item_not_found'')
          else if it_type it \<noteq> STOCKED then Inl (ValidationFailedError ''inventory.item_not_stocked'')
          else Inr it)"

definition require_active_bin :: "'m inv_db_scheme \<Rightarrow> uuid \<Rightarrow> uuid option \<Rightarrow> unit result" where
  "require_active_bin db tenant bn =
     (case bn of
        None \<Rightarrow> Inr ()
      | Some i \<Rightarrow>
          (case find_row bn_id i (stock_bins db) of
             None \<Rightarrow> Inl (ValidationFailedError ''inventory.bin_not_found'')
           | Some b \<Rightarrow>
               if bn_tenant b \<noteq> tenant then Inl (ValidationFailedError ''inventory.bin_not_found'')
               else if \<not> bn_is_active b then Inl (ValidationFailedError ''inventory.bin_inactive'')
               else Inr ()))"

fun MOVE_BIN_SIDES :: "move_type \<Rightarrow> bool \<times> bool" where
  "MOVE_BIN_SIDES RECEIPT = (False, True)"
| "MOVE_BIN_SIDES ISSUE = (True, False)"
| "MOVE_BIN_SIDES TRANSFER = (True, True)"
| "MOVE_BIN_SIDES ADJUSTMENT = (False, False)"

definition validate_bin_sides :: "move_type \<Rightarrow> uuid option \<Rightarrow> uuid option \<Rightarrow> unit result" where
  "validate_bin_sides mt from_bin to_bin =
     (if mt = ADJUSTMENT
      then if (from_bin = None) = (to_bin = None)
           then Inl (ValidationFailedError ''inventory.adjustment_one_side'') else Inr ()
      else case MOVE_BIN_SIDES mt of (from_required, to_required) \<Rightarrow>
        if from_required \<and> from_bin = None
        then Inl (ValidationFailedError ''inventory.move_from_bin_required'')
        else if \<not> from_required \<and> from_bin \<noteq> None
        then Inl (ValidationFailedError ''inventory.move_from_bin_forbidden'')
        else if to_required \<and> to_bin = None
        then Inl (ValidationFailedError ''inventory.move_to_bin_required'')
        else if \<not> to_required \<and> to_bin \<noteq> None
        then Inl (ValidationFailedError ''inventory.move_to_bin_forbidden'')
        else if mt = TRANSFER \<and> from_bin = to_bin
        then Inl (ValidationFailedError ''inventory.transfer_same_bin'')
        else Inr ())"

definition is_inbound :: "move_type \<Rightarrow> uuid option \<Rightarrow> bool" where
  "is_inbound mt to_bin \<longleftrightarrow> mt = RECEIPT \<or> (mt = ADJUSTMENT \<and> to_bin \<noteq> None)"

definition validate_unit_cost :: "stock_move_create \<Rightarrow> decimal option result" where
  "validate_unit_cost payload =
     (if is_inbound (smc_type payload) (smc_to_bin payload)
      then (case smc_unit_cost payload of
              None \<Rightarrow> Inl (ValidationFailedError ''inventory.receipt_unit_cost_required'')
            | Some c \<Rightarrow>
                if c < 0 then Inl (ValidationFailedError ''inventory.receipt_unit_cost_required'')
                else Inr (Some c))
      else Inr None)"

subsection \<open>Creating a move\<close>

definition STOCK_MOVE_DOC_TYPE :: string where "STOCK_MOVE_DOC_TYPE = ''inventory.stock_move''"
definition STOCK_MOVE_SEQUENCE_NAME :: string where "STOCK_MOVE_SEQUENCE_NAME = ''inventory.stock_move''"
definition STOCK_MOVE_NUMBER_PREFIX :: string where "STOCK_MOVE_NUMBER_PREFIX = ''STK''"
definition STOCK_MOVE_NUMBER_PADDING :: int where "STOCK_MOVE_NUMBER_PADDING = 5"
definition STOCK_MOVE_REVERSES_LINK :: string where "STOCK_MOVE_REVERSES_LINK = ''reverses''"
definition MOVE_POSTED :: string where "MOVE_POSTED = ''POSTED''"

definition move_deltas :: "uuid option \<Rightarrow> uuid option \<Rightarrow> decimal \<Rightarrow> (uuid \<times> decimal) list" where
  "move_deltas from_bin to_bin quantity =
     (case from_bin of None \<Rightarrow> [] | Some b \<Rightarrow> [(b, - quantity)]) @
     (case to_bin of None \<Rightarrow> [] | Some b \<Rightarrow> [(b, quantity)])"

definition apply_quant_deltas ::
  "uuid \<Rightarrow> uuid \<Rightarrow> uuid option \<Rightarrow> uuid option \<Rightarrow> uuid option \<Rightarrow> decimal \<Rightarrow>
   'm inv_db_scheme \<Rightarrow> 'm inv_db_scheme result" where
  "apply_quant_deltas tenant item lt from_bin to_bin quantity =
     fold_result (apply_bin_delta tenant item lt) (sort_key fst (move_deltas from_bin to_bin quantity))"

definition stored_move :: "stock_move \<Rightarrow> stock_move" where
  "stored_move m = m\<lparr>sm_quantity := store_quantity (sm_quantity m),
     sm_unit_cost := map_option store_money (sm_unit_cost m)\<rparr>"

definition create_move ::
  "'m inv_db_scheme \<Rightarrow> uuid \<Rightarrow> stock_move_create \<Rightarrow> stock_move option \<Rightarrow> uuid option \<Rightarrow>
   (stock_move \<times> 'm inv_db_scheme) result" where
  "create_move db tenant payload reversal_of valuation_offset_account =
     (if smc_quantity payload \<le> 0 then Inl (ValidationFailedError ''inventory.move_quantity_invalid'')
      else bindr (require_stocked_item db tenant (smc_item payload)) (\<lambda>it.
      bindr (validate_bin_sides (smc_type payload) (smc_from_bin payload) (smc_to_bin payload)) (\<lambda>_.
      bindr (if reversal_of \<noteq> None then Inr None else validate_unit_cost payload) (\<lambda>entry_cost.
      bindr (require_active_bin db tenant (smc_from_bin payload)) (\<lambda>_.
      bindr (require_active_bin db tenant (smc_to_bin payload)) (\<lambda>_.
      let create_instance = (smc_type payload = RECEIPT) in
      bindr (resolve_lot db tenant it (smc_lot payload) (smc_lot_code payload) create_instance) (\<lambda>(lt, db1).
      bindr (resolve_serial db1 tenant it (smc_serial payload) (smc_serial_code payload) create_instance)
        (\<lambda>(serial, db2).
      if it_tracking it = SERIAL \<and> smc_quantity payload \<noteq> 1
      then Inl (ValidationFailedError ''inventory.serial_quantity_invalid'')
      else let move_date = (case smc_date payload of Some d \<Rightarrow> d | None \<Rightarrow> today db2) in
      case uuid4 db2 of (move_id, db3) \<Rightarrow>
      bindr (register_document db3 tenant STOCK_MOVE_DOC_TYPE move_id None (Some MOVE_POSTED))
        (\<lambda>(document, db4).
      bindr (ensure_sequence db4 tenant STOCK_MOVE_SEQUENCE_NAME STOCK_MOVE_NUMBER_PREFIX
               STOCK_MOVE_NUMBER_PADDING True) (\<lambda>(_, db5).
      bindr (claim_number db5 tenant STOCK_MOVE_SEQUENCE_NAME move_date) (\<lambda>(move_number, db6).
      let move = \<lparr>sm_id = move_id, sm_tenant = tenant, sm_document = doc_pk document,
            sm_number = move_number, sm_type = smc_type payload, sm_item = it_id it,
            sm_quantity = smc_quantity payload, sm_base_uom = it_base_uom it,
            sm_from_bin = smc_from_bin payload, sm_to_bin = smc_to_bin payload, sm_lot = lt,
            sm_serial = serial, sm_date = move_date, sm_reference = smc_reference payload,
            sm_unit_cost = entry_cost\<rparr>;
          db7 = db6\<lparr>stock_moves := stock_moves db6 @ [stored_move move]\<rparr>
      in bindr (set_document_status db7 tenant (doc_pk document) (Some MOVE_POSTED) (Some move_number))
        (\<lambda>db8.
      bindr (apply_quant_deltas tenant (it_id it) lt (smc_from_bin payload) (smc_to_bin payload)
               (smc_quantity payload) db8) (\<lambda>db9.
      bindr (case reversal_of of
               Some original \<Rightarrow> reverse_costing db9 tenant it move original
             | None \<Rightarrow> apply_costing db9 tenant it move valuation_offset_account) (\<lambda>(ev, db10).
      Inr (move, case ev of None \<Rightarrow> db10 | Some e \<Rightarrow> publish (StockValued e) db10)))))))))))))))"

subsection \<open>Reversing a move\<close>

definition get_move :: "'m inv_db_scheme \<Rightarrow> uuid \<Rightarrow> uuid \<Rightarrow> stock_move result" where
  "get_move db tenant i =
     (case find_row sm_id i (stock_moves db) of
        None \<Rightarrow> Inl (NotFoundError ''inventory.move_not_found'')
      | Some m \<Rightarrow>
          if sm_tenant m \<noteq> tenant then Inl (NotFoundError ''inventory.move_not_found'') else Inr m)"

definition already_reversed :: "'m inv_db_scheme \<Rightarrow> uuid \<Rightarrow> uuid \<Rightarrow> bool" where
  "already_reversed db tenant document \<longleftrightarrow>
     (\<exists>e \<in> set (snd (get_document_chain db tenant document)).
        ce_link_type e = Some STOCK_MOVE_REVERSES_LINK \<and> ce_predecessor e = document)"

definition retype_for_reversal :: "stock_move_create \<Rightarrow> move_type \<Rightarrow> stock_move_create" where
  "retype_for_reversal payload original_type =
     (case original_type of
        RECEIPT \<Rightarrow> payload\<lparr>smc_type := ISSUE\<rparr>
      | ISSUE \<Rightarrow> payload\<lparr>smc_type := RECEIPT\<rparr>
      | _ \<Rightarrow> payload)"

definition reversal_payload :: "'m inv_db_scheme \<Rightarrow> stock_move \<Rightarrow> stock_move_create" where
  "reversal_payload db original =
     retype_for_reversal
       \<lparr>smc_type = sm_type original, smc_item = sm_item original, smc_quantity = sm_quantity original,
        smc_from_bin = sm_to_bin original, smc_to_bin = sm_from_bin original,
        smc_lot = sm_lot original, smc_serial = sm_serial original, smc_lot_code = None,
        smc_serial_code = None, smc_date = Some (today db),
        smc_reference = Some (''Reversal of '' @ sm_number original), smc_unit_cost = None\<rparr>
       (sm_type original)"

definition reverse_move ::
  "'m inv_db_scheme \<Rightarrow> uuid \<Rightarrow> uuid \<Rightarrow> (stock_move \<times> 'm inv_db_scheme) result" where
  "reverse_move db tenant move_id =
     bindr (get_move db tenant move_id) (\<lambda>original.
     if already_reversed db tenant (sm_document original)
     then Inl (ConflictError ''inventory.move_already_reversed'')
     else bindr (create_move db tenant (reversal_payload db original) (Some original) None)
       (\<lambda>(reversal, db1).
     bindr (link_documents db1 tenant (sm_document original) (sm_document reversal)
              (Some STOCK_MOVE_REVERSES_LINK)) (\<lambda>(_, db2).
     Inr (reversal, db2))))"

end
