(* ===== verification/Stock_Ledger.thy ===== *)
theory Stock_Ledger
  imports Stock_Moves Journal_Wf
begin

text \<open>
  The on-hand rows are a projection of the move ledger. The lemmas show which tables each
  operation of the inventory service leaves alone, and from them that every committed move keeps
  the invariant \<open>stock_wf\<close>: one positive row per (tenant, item, bin, lot), and its quantity is the
  signed sum of the ledger.
\<close>

subsection \<open>What an operation leaves alone\<close>

text \<open>
  A move's cost is written after the row is inserted; everything else of a ledger row is final.
\<close>

definition uncosted :: "stock_move \<Rightarrow> stock_move" where
  "uncosted m = m\<lparr>sm_unit_cost := None\<rparr>"

definition stock_frame :: "'m inv_db_scheme \<Rightarrow> 'm inv_db_scheme \<Rightarrow> bool" where
  "stock_frame db db' \<longleftrightarrow> stock_quants db' = stock_quants db \<and>
     map uncosted (stock_moves db') = map uncosted (stock_moves db) \<and> uuid_supply db \<le> uuid_supply db' \<and>
     journal_entries db' = journal_entries db \<and> journal_lines db' = journal_lines db \<and>
     pending_events db' = pending_events db"

named_theorems stock_frames \<open>operations that leave the ledger and the on-hand rows alone\<close>

lemma stock_frame_refl [simp]: "stock_frame db db"
  by (simp add: stock_frame_def)

lemma stock_frame_trans [trans]: "stock_frame a b \<Longrightarrow> stock_frame b c \<Longrightarrow> stock_frame a c"
  by (simp add: stock_frame_def)

lemma inv_frame_fin:
  fixes db db' :: "'m inv_db_scheme"
  assumes "fin_db.more db' = fin_db.more db"
  shows "stock_quants db' = stock_quants db" "stock_moves db' = stock_moves db"
    "cost_layers db' = cost_layers db" "layer_consumptions db' = layer_consumptions db"
    "item_valuations db' = item_valuations db" "inv_db.more db' = inv_db.more db"
proof -
  note eq = fin_more_update [OF assms]
  show "stock_quants db' = stock_quants db" using arg_cong [OF eq, of stock_quants] by simp
  show "stock_moves db' = stock_moves db" using arg_cong [OF eq, of stock_moves] by simp
  show "cost_layers db' = cost_layers db" using arg_cong [OF eq, of cost_layers] by simp
  show "layer_consumptions db' = layer_consumptions db" using arg_cong [OF eq, of layer_consumptions] by simp
  show "item_valuations db' = item_valuations db" using arg_cong [OF eq, of item_valuations] by simp
  show "inv_db.more db' = inv_db.more db" using arg_cong [OF eq, of inv_db.more] by simp
qed

lemmas inv_frame = inv_frame_fin [OF fin_frame(8)]

lemma stock_frame_core:
  assumes "core_db.more db' = core_db.more db" and "uuid_supply db \<le> uuid_supply db'"
    and "pending_events db' = pending_events db"
  shows "stock_frame db db'"
  using assms(2,3) unfolding stock_frame_def inv_frame(1) [OF assms(1)] inv_frame(2) [OF assms(1)]
    fin_frame(6) [OF assms(1)] fin_frame(7) [OF assms(1)] by simp

lemma locked_valuation_frame:
  "locked_valuation db t i w = Inr (Some v) \<Longrightarrow> v \<in> set (item_valuations db) \<and> valuation_match t i w v"
  by (auto simp: locked_valuation_def one_or_none_Inr_iff dest: filter_ConsD)

lemma mav_receive_frame [stock_frames]: "mav_receive db t i w q c x = Inr db' \<Longrightarrow> stock_frame db db'"
  by (auto elim!: bindr_InrE simp: mav_receive_def stock_frame_def uuid4_def Let_def split: option.splits)

lemma mav_issue_frame [stock_frames]: "mav_issue db t i w q cur = Inr (r, db') \<Longrightarrow> stock_frame db db'"
  by (auto elim!: bindr_InrE simp: mav_issue_def stock_frame_def Let_def split: option.splits if_splits)

lemma create_layer_frame [stock_frames]: "stock_frame db (create_layer db t i w mv d q c)"
  by (simp add: create_layer_def stock_frame_def uuid4_def)

lemma consume_layers_frame [stock_frames]:
  "consume_layers db t i w mv q cur = Inr (r, db') \<Longrightarrow> stock_frame db db'"
  by (auto simp: consume_layers_def consume_fold stock_frame_def split: if_splits)

lemma restore_frame [stock_frames]:
  assumes "reverse_issue_consumptions db t mv = Inr (r, db')" shows "stock_frame db db'"
proof -
  from assms obtain cs where f: "fold_result (restore_step t) cs (db, 0) = Inr (db', r)"
    by (auto elim!: bindr_InrE simp: reverse_issue_consumptions_def)
  have "stock_frame db (fst (db', r))"
    by (rule fold_result_inv [OF f])
      (auto simp: restore_step_def set_remaining_def stock_frame_def split: option.splits if_splits)
  then show ?thesis by simp
qed

lemma reverse_receipt_layer_frame [stock_frames]:
  "reverse_receipt_layer db t mv = Inr (r, db') \<Longrightarrow> stock_frame db db'"
  by (auto elim!: bindr_InrE simp: reverse_receipt_layer_def stock_frame_def split: option.splits if_splits)

lemma set_move_cost_frame [stock_frames]: "stock_frame db (set_move_cost m c db)"
  by (auto simp: set_move_cost_def stock_frame_def uncosted_def upd_rows_def)

lemma resolve_lot_frame [stock_frames]:
  "resolve_lot db t it r c b = Inr (x, db') \<Longrightarrow> stock_frame db db'"
  by (auto elim!: bindr_InrE simp: resolve_lot_def get_or_create_lot_def stock_frame_def uuid4_def
      split: option.splits if_splits)

lemma resolve_serial_frame [stock_frames]:
  "resolve_serial db t it r c b = Inr (x, db') \<Longrightarrow> stock_frame db db'"
  by (auto elim!: bindr_InrE simp: resolve_serial_def get_or_create_serial_def stock_frame_def uuid4_def
      split: option.splits if_splits)

lemma apply_inbound_frame [stock_frames]:
  "apply_inbound db t it m q w accts off = Inr (ev, db') \<Longrightarrow> stock_frame db db'"
  by (cases accts) (auto elim!: bindr_InrE simp: apply_inbound_def Let_def split: costing_method.splits
      intro!: stock_frame_trans [OF _ set_move_cost_frame] dest: mav_receive_frame intro: create_layer_frame)

lemma apply_outbound_frame [stock_frames]:
  "apply_outbound db t it m q cur w accts off = Inr (ev, db') \<Longrightarrow> stock_frame db db'"
  by (cases accts) (auto elim!: bindr_InrE simp: apply_outbound_def Let_def split: costing_method.splits
      intro!: stock_frame_trans [OF _ set_move_cost_frame] dest: mav_issue_frame consume_layers_frame)

lemma apply_transfer_frame [stock_frames]:
  "apply_transfer db t it m q cur fw tw = Inr (ev, db') \<Longrightarrow> stock_frame db db'"
  by (auto elim!: bindr_InrE simp: apply_transfer_def split: option.splits costing_method.splits if_splits
      intro!: stock_frame_trans [OF _ set_move_cost_frame]
      dest!: mav_issue_frame mav_receive_frame consume_layers_frame
      intro: stock_frame_trans create_layer_frame)

lemma apply_costing_frame [stock_frames]:
  "apply_costing db t it m off = Inr (ev, db') \<Longrightarrow> stock_frame db db'"
  by (auto elim!: bindr_InrE simp: apply_costing_def split: option.splits if_splits
      dest: apply_transfer_frame apply_inbound_frame apply_outbound_frame)

lemma reverse_costing_frame [stock_frames]:
  "reverse_costing db t it m orig = Inr (ev, db') \<Longrightarrow> stock_frame db db'"
  by (auto elim!: bindr_InrE simp: reverse_costing_def Let_def split: move_type.splits costing_method.splits
      intro!: stock_frame_trans [OF _ set_move_cost_frame]
      dest: mav_issue_frame mav_receive_frame restore_frame reverse_receipt_layer_frame apply_costing_frame)

text \<open>The event of a costed move carries the move's document, date and tenant.\<close>

definition is_valuation_of :: "stock_move \<Rightarrow> domain_event \<Rightarrow> bool" where
  "is_valuation_of m ev = (case ev of
     StockValued e \<Rightarrow> sv_tenant e = sm_tenant m \<and> sv_document e = sm_document m \<and> sv_move_date e = sm_date m \<and>
       sv_move_id e = sm_id m
   | _ \<Rightarrow> False)"

lemma build_event_valuation [simp]: "is_valuation_of m (StockValued (build_event m w q c r ia oa pa b))"
  by (simp add: is_valuation_of_def build_event_def)

lemma apply_costing_event:
  "apply_costing db t it m off = Inr (Some e, db') \<Longrightarrow> is_valuation_of m (StockValued e)"
  by (auto elim!: bindr_InrE simp: apply_costing_def apply_transfer_def apply_inbound_def apply_outbound_def
      Let_def split: option.splits if_splits costing_method.splits)

lemma reverse_costing_event:
  "reverse_costing db t it m orig = Inr (Some e, db') \<Longrightarrow> is_valuation_of m (StockValued e)"
  by (auto elim!: bindr_InrE simp: reverse_costing_def Let_def
      dest: apply_costing_event split: move_type.splits costing_method.splits)

subsection \<open>The projection\<close>

definition move_effect :: "stock_move \<Rightarrow> quant_key \<Rightarrow> decimal" where
  "move_effect m k = (case k of (t, i, b, l) \<Rightarrow>
     if sm_tenant m = t \<and> sm_item m = i \<and> sm_lot m = l
     then (if sm_to_bin m = Some b then sm_quantity m else 0) - (if sm_from_bin m = Some b then sm_quantity m else 0)
     else 0)"

definition ledger_on_hand :: "'m inv_db_scheme \<Rightarrow> quant_key \<Rightarrow> decimal" where
  "ledger_on_hand db k = sum_list (map (\<lambda>m. move_effect m k) (stock_moves db))"

definition stock_wf :: "'m inv_db_scheme \<Rightarrow> bool" where
  "stock_wf db \<longleftrightarrow> quants_wf db \<and> (\<forall>k. on_hand db k = ledger_on_hand db k) \<and>
     (\<forall>m \<in> set (stock_moves db). on_grid QUANTITY_SCALE (sm_quantity m))"

lemma move_effect_uncosted: "move_effect (uncosted m) k = move_effect m k"
  by (simp add: move_effect_def uncosted_def split: prod.splits)

lemma ledger_on_hand_uncosted:
  "ledger_on_hand db k = sum_list (map (\<lambda>m. move_effect m k) (map uncosted (stock_moves db)))"
  by (simp add: ledger_on_hand_def move_effect_uncosted o_def)

lemma stock_frame_quants:
  assumes "stock_frame db db'"
  shows "on_hand db' = on_hand db" and "ledger_on_hand db' = ledger_on_hand db" and "quants_wf db \<Longrightarrow> quants_wf db'"
  using assms by (auto simp: stock_frame_def on_hand_def quants_wf_def fun_eq_iff ledger_on_hand_uncosted
      intro: less_le_trans)

lemma fold_result_map: "fold_result f (map g xs) s = fold_result (f \<circ> g) xs s"
  by (induction xs arbitrary: s) (simp_all add: bindr_def split: sum.splits)

lemma apply_bin_delta_moves:
  "apply_bin_delta t i l x db = Inr db' \<Longrightarrow> stock_moves db' = stock_moves db \<and> uuid_supply db \<le> uuid_supply db' \<and>
     journal_entries db' = journal_entries db \<and> journal_lines db' = journal_lines db \<and>
     pending_events db' = pending_events db"
  by (cases x) (auto elim!: bindr_InrE simp: apply_bin_delta_def uuid4_def Let_def split: option.splits if_splits)

lemma sum_move_deltas:
  "sum_list (map snd (filter (\<lambda>kd. fst kd = (t', i', b', l'))
     (map (\<lambda>(b, d). ((t, i, b, l), d)) (sort_key fst (move_deltas fb tb q))))) =
   (if t = t' \<and> i = i' \<and> l = l' then (if tb = Some b' then q else 0) - (if fb = Some b' then q else 0) else 0)"
  by (cases fb; cases tb) (auto simp: move_deltas_def)

lemma apply_quant_deltas_effect:
  assumes ap: "apply_quant_deltas t i l fb tb q db = Inr db'" and wf: "quants_wf db"
    and q: "0 < q" "on_grid QUANTITY_SCALE q"
  shows "quants_wf db'" and "stock_moves db' = stock_moves db \<and> uuid_supply db \<le> uuid_supply db' \<and>
      journal_entries db' = journal_entries db \<and> journal_lines db' = journal_lines db \<and>
      pending_events db' = pending_events db"
    and "on_hand db' (t', i', b', l') = on_hand db (t', i', b', l') +
      (if t = t' \<and> i = i' \<and> l = l' then (if tb = Some b' then q else 0) - (if fb = Some b' then q else 0) else 0)"
proof -
  let ?kds = "map (\<lambda>(b, d). ((t, i, b, l), d)) (sort_key fst (move_deltas fb tb q))"
  have eq: "apply_bin_delta t i l = (\<lambda>(k, d). apply_delta k d) \<circ> (\<lambda>(b, d). ((t, i, b, l), d))"
    by (auto simp: apply_delta_def fun_eq_iff)
  have f: "fold_result (\<lambda>(k, d). apply_delta k d) ?kds db = Inr db'"
    using ap unfolding apply_quant_deltas_def fold_result_map eq [symmetric] .
  have ok: "\<forall>(k, d) \<in> set ?kds. delta_ok d"
    using q by (auto simp: move_deltas_def delta_ok_def on_grid_minus split: option.splits)
  show "quants_wf db'" using quants.fold_steps [OF f wf ok] by blast
  show "on_hand db' (t', i', b', l') = on_hand db (t', i', b', l') +
      (if t = t' \<and> i = i' \<and> l = l' then (if tb = Some b' then q else 0) - (if fb = Some b' then q else 0) else 0)"
    using quants.fold_steps [OF f wf ok, of "(t', i', b', l')"] unfolding sum_move_deltas by blast
  show "stock_moves db' = stock_moves db \<and> uuid_supply db \<le> uuid_supply db' \<and>
      journal_entries db' = journal_entries db \<and> journal_lines db' = journal_lines db \<and>
      pending_events db' = pending_events db"
    using ap unfolding apply_quant_deltas_def
    by (rule fold_result_inv) (auto dest!: apply_bin_delta_moves)
qed

text \<open>The steps of a successful \<open>create_move\<close>.\<close>

lemma create_move_steps:
  assumes "create_move db t p ro off = Inr (m, db')"
  obtains it lt db1 serial db2 document db4 s db5 mn db6 db8 db9 db10 ev entry_cost where
    "require_stocked_item db t (smc_item p) = Inr it"
    and "resolve_lot db t it (smc_lot p) (smc_lot_code p) (smc_type p = RECEIPT) = Inr (lt, db1)"
    and "resolve_serial db1 t it (smc_serial p) (smc_serial_code p) (smc_type p = RECEIPT) = Inr (serial, db2)"
    and "register_document (db2\<lparr>uuid_supply := Suc (uuid_supply db2)\<rparr>) t STOCK_MOVE_DOC_TYPE (uuid_supply db2) None
        (Some MOVE_POSTED) = Inr (document, db4)"
    and "ensure_sequence db4 t STOCK_MOVE_SEQUENCE_NAME STOCK_MOVE_NUMBER_PREFIX STOCK_MOVE_NUMBER_PADDING True = Inr (s, db5)"
    and "claim_number db5 t STOCK_MOVE_SEQUENCE_NAME (case smc_date p of Some d \<Rightarrow> d | None \<Rightarrow> today db2) = Inr (mn, db6)"
    and "m = \<lparr>sm_id = uuid_supply db2, sm_tenant = t, sm_document = doc_pk document,
            sm_number = mn, sm_type = smc_type p, sm_item = it_id it,
            sm_quantity = smc_quantity p, sm_base_uom = it_base_uom it,
            sm_from_bin = smc_from_bin p, sm_to_bin = smc_to_bin p, sm_lot = lt,
            sm_serial = serial, sm_date = (case smc_date p of Some d \<Rightarrow> d | None \<Rightarrow> today db2),
            sm_reference = smc_reference p, sm_unit_cost = entry_cost\<rparr>"
    and "set_document_status (db6\<lparr>stock_moves := stock_moves db6 @ [stored_move m]\<rparr>) t (doc_pk document)
        (Some MOVE_POSTED) (Some mn) = Inr db8"
    and "apply_quant_deltas t (it_id it) lt (smc_from_bin p) (smc_to_bin p) (smc_quantity p) db8 = Inr db9"
    and "(case ro of Some original \<Rightarrow> reverse_costing db9 t it m original
               | None \<Rightarrow> apply_costing db9 t it m off) = Inr (ev, db10)"
    and "db' = (case ev of None \<Rightarrow> db10 | Some e \<Rightarrow> publish (StockValued e) db10)"
    and "0 < smc_quantity p" and "validate_bin_sides (smc_type p) (smc_from_bin p) (smc_to_bin p) = Inr ()"
  using assms unfolding create_move_def uuid4_def Let_def prod.case
  by (clarsimp simp: if_Inl_Inr elim!: bindr_InrE)

lemma require_stocked_item_Inr:
  "require_stocked_item db t i = Inr it \<Longrightarrow> it_id it = i \<and> it_tenant it = t \<and> it_type it = STOCKED \<and> it \<in> set (items db)"
  by (auto simp: require_stocked_item_def dest!: find_row_Some_iff split: option.splits if_splits)

text \<open>
  A committed move changes the on-hand of every key by its effect and adds one row to the ledger.
\<close>

lemma create_move_effect:
  assumes cm: "create_move db t p ro off = Inr (m, db')" and wf: "quants_wf db"
    and q: "on_grid QUANTITY_SCALE (smc_quantity p)"
  shows "quants_wf db'" and "on_hand db' k = on_hand db k + move_effect m k"
    and "map uncosted (stock_moves db') = map uncosted (stock_moves db) @ [uncosted m]"
    and "journal_entries db' = journal_entries db" and "journal_lines db' = journal_lines db"
    and "uuid_supply db \<le> uuid_supply db'"
    and "\<exists>ev. pending_events db' = pending_events db @ (case ev of None \<Rightarrow> [] | Some e \<Rightarrow> [StockValued e]) \<and>
      (\<forall>e. ev = Some e \<longrightarrow> is_valuation_of m (StockValued e))"
proof -
  from cm obtain it lt db1 serial db2 document db4 s db5 mn db6 db8 db9 db10 ev entry_cost where
    it: "require_stocked_item db t (smc_item p) = Inr it"
    and f1: "resolve_lot db t it (smc_lot p) (smc_lot_code p) (smc_type p = RECEIPT) = Inr (lt, db1)"
    and f2: "resolve_serial db1 t it (smc_serial p) (smc_serial_code p) (smc_type p = RECEIPT) = Inr (serial, db2)"
    and reg: "register_document (db2\<lparr>uuid_supply := Suc (uuid_supply db2)\<rparr>) t STOCK_MOVE_DOC_TYPE (uuid_supply db2) None
        (Some MOVE_POSTED) = Inr (document, db4)"
    and es: "ensure_sequence db4 t STOCK_MOVE_SEQUENCE_NAME STOCK_MOVE_NUMBER_PREFIX STOCK_MOVE_NUMBER_PADDING True = Inr (s, db5)"
    and cn: "claim_number db5 t STOCK_MOVE_SEQUENCE_NAME (case smc_date p of Some d \<Rightarrow> d | None \<Rightarrow> today db2) = Inr (mn, db6)"
    and m: "m = \<lparr>sm_id = uuid_supply db2, sm_tenant = t, sm_document = doc_pk document,
            sm_number = mn, sm_type = smc_type p, sm_item = it_id it,
            sm_quantity = smc_quantity p, sm_base_uom = it_base_uom it,
            sm_from_bin = smc_from_bin p, sm_to_bin = smc_to_bin p, sm_lot = lt,
            sm_serial = serial, sm_date = (case smc_date p of Some d \<Rightarrow> d | None \<Rightarrow> today db2),
            sm_reference = smc_reference p, sm_unit_cost = entry_cost\<rparr>"
    and sd: "set_document_status (db6\<lparr>stock_moves := stock_moves db6 @ [stored_move m]\<rparr>) t (doc_pk document)
        (Some MOVE_POSTED) (Some mn) = Inr db8"
    and aq: "apply_quant_deltas t (it_id it) lt (smc_from_bin p) (smc_to_bin p) (smc_quantity p) db8 = Inr db9"
    and co: "(case ro of Some original \<Rightarrow> reverse_costing db9 t it m original
               | None \<Rightarrow> apply_costing db9 t it m off) = Inr (ev, db10)"
    and db': "db' = (case ev of None \<Rightarrow> db10 | Some e \<Rightarrow> publish (StockValued e) db10)"
    and pos: "0 < smc_quantity p"
    by (rule create_move_steps)
  have "stock_frame db2 db4" unfolding register_document_Inr(2) [OF reg] by (simp add: stock_frame_def)
  also have "stock_frame db4 db5" by (rule stock_frame_core [OF ensure_sequence_frame(1,2,5) [OF es]])
  also have "stock_frame db5 db6" by (rule stock_frame_core [OF claim_number_frame(7,8,4) [OF cn]])
  finally have "stock_frame db2 db6" .
  then have A: "stock_frame db db6"
    by (rule stock_frame_trans [OF stock_frame_trans [OF resolve_lot_frame [OF f1] resolve_serial_frame [OF f2]]])
  have B: "stock_frame (db6\<lparr>stock_moves := stock_moves db6 @ [stored_move m]\<rparr>) db8"
    by (rule stock_frame_core) (use set_document_status_frame(1-3) [OF sd] in \<open>simp_all only: order_refl\<close>)
  have C: "stock_frame db9 db10" and ev: "\<forall>e. ev = Some e \<longrightarrow> is_valuation_of m (StockValued e)"
    using co by (cases ro; auto dest: apply_costing_frame reverse_costing_frame apply_costing_event reverse_costing_event)+
  have D: "stock_quants db' = stock_quants db10" "stock_moves db' = stock_moves db10" "uuid_supply db' = uuid_supply db10"
    "journal_entries db' = journal_entries db10" "journal_lines db' = journal_lines db10"
    "pending_events db' = pending_events db10 @ (case ev of None \<Rightarrow> [] | Some e \<Rightarrow> [StockValued e])"
    by (simp_all add: db' publish_def split: option.splits)
  have um: "uncosted (stored_move m) = uncosted m"
    using q by (simp add: m uncosted_def stored_move_def store_quantity_grid)
  let ?db7 = "db6\<lparr>stock_moves := stock_moves db6 @ [stored_move m]\<rparr>"
  have w7: "quants_wf ?db7" "on_hand ?db7 = on_hand db"
    using stock_frame_quants(3) [OF A wf] unfolding stock_frame_quants(1) [OF A, symmetric]
    by (simp_all add: quants_wf_def on_hand_def [abs_def])
  have w8: "quants_wf db8" "on_hand db8 = on_hand db" using stock_frame_quants(1,3) [OF B] w7 by simp_all
  note Q = apply_quant_deltas_effect [OF aq w8(1) pos q]
  have "quants_wf db10" by (rule stock_frame_quants(3) [OF C Q(1)])
  then show "quants_wf db'" unfolding quants_wf_def D .
  have "on_hand db' = on_hand db10" by (simp add: on_hand_def [abs_def] D)
  then show "on_hand db' k = on_hand db k + move_effect m k"
    unfolding stock_frame_quants(1) [OF C] using Q(3) by (cases k) (simp add: w8(2) move_effect_def m)
  have "map uncosted (stock_moves db') = map uncosted (stock_moves db9)" using C by (simp add: stock_frame_def D)
  also have "\<dots> = map uncosted (stock_moves ?db7)" using B Q(2) by (simp add: stock_frame_def)
  also have "\<dots> = map uncosted (stock_moves db) @ [uncosted m]" using A um by (simp add: stock_frame_def)
  finally show "map uncosted (stock_moves db') = map uncosted (stock_moves db) @ [uncosted m]" .
  show "journal_entries db' = journal_entries db" "journal_lines db' = journal_lines db" "uuid_supply db \<le> uuid_supply db'"
    using A B C Q(2) by (simp_all add: stock_frame_def D)
  have "pending_events db10 = pending_events db" using A B C Q(2) by (simp add: stock_frame_def)
  with D(6) ev show "\<exists>ev. pending_events db' = pending_events db @ (case ev of None \<Rightarrow> [] | Some e \<Rightarrow> [StockValued e]) \<and>
      (\<forall>e. ev = Some e \<longrightarrow> is_valuation_of m (StockValued e))" by metis
qed

lemma grid_uncosted:
  "(\<forall>m \<in> set ms. on_grid QUANTITY_SCALE (sm_quantity m)) \<longleftrightarrow>
   (\<forall>m \<in> set (map uncosted ms). on_grid QUANTITY_SCALE (sm_quantity m))"
  by (simp add: uncosted_def)

lemma create_move_wf:
  assumes cm: "create_move db t p ro off = Inr (m, db')" and wf: "stock_wf db"
    and q: "on_grid QUANTITY_SCALE (smc_quantity p)"
  shows "stock_wf db'"
proof -
  have "quants_wf db" using wf by (simp add: stock_wf_def)
  note E = create_move_effect [OF cm this q]
  have "sm_quantity m = smc_quantity p" by (rule create_move_steps [OF cm]) simp
  then show ?thesis
    using wf E(1,2) q unfolding stock_wf_def ledger_on_hand_uncosted grid_uncosted [of "stock_moves db'"] E(3)
    by (simp add: move_effect_uncosted del: split_paired_All) (simp add: uncosted_def)
qed

lemma link_documents_stock_frame: "link_documents db t a b ty = Inr (l, db') \<Longrightarrow> stock_frame db db'"
  by (rule stock_frame_core) (simp_all add: link_documents_frame)

lemma reverse_move_Inr:
  assumes "reverse_move db t i = Inr (r, db')"
  obtains original db1 l where "get_move db t i = Inr original"
    and "\<not> already_reversed db t (sm_document original)"
    and "create_move db t (reversal_payload db original) (Some original) None = Inr (r, db1)"
    and "link_documents db1 t (sm_document original) (sm_document r) (Some STOCK_MOVE_REVERSES_LINK) = Inr (l, db')"
  using assms by (auto simp: reverse_move_def elim!: bindr_InrE split: if_splits)

lemma get_move_Inr: "get_move db t i = Inr m \<Longrightarrow> find_row sm_id i (stock_moves db) = Some m \<and> m \<in> set (stock_moves db) \<and> sm_tenant m = t \<and> sm_id m = i"
  by (auto simp: get_move_def dest: find_row_Some_iff split: option.splits if_splits)

lemma reversal_payload_simps [simp]:
  "smc_quantity (reversal_payload db m) = sm_quantity m" "smc_item (reversal_payload db m) = sm_item m"
  "smc_from_bin (reversal_payload db m) = sm_to_bin m" "smc_to_bin (reversal_payload db m) = sm_from_bin m"
  "smc_lot (reversal_payload db m) = sm_lot m" "smc_lot_code (reversal_payload db m) = None"
  by (simp_all add: reversal_payload_def retype_for_reversal_def split: move_type.splits)

lemma resolve_lot_ref:
  "resolve_lot db t it r None b = Inr (lt, db') \<Longrightarrow> lt = r"
  by (auto simp: resolve_lot_def dest!: find_row_Some_iff split: if_splits option.splits)

lemma reverse_move_effect:
  assumes rev: "reverse_move db t i = Inr (r, db')" and wf: "stock_wf db"
  obtains original where "get_move db t i = Inr original" and "stock_wf db'"
    and "\<And>k. on_hand db' k = on_hand db k - move_effect original k"
    and "map uncosted (stock_moves db') = map uncosted (stock_moves db) @ [uncosted r]"
proof (rule reverse_move_Inr [OF rev])
  fix original db1 l
  assume o: "get_move db t i = Inr original"
    and cm: "create_move db t (reversal_payload db original) (Some original) None = Inr (r, db1)"
    and lk: "link_documents db1 t (sm_document original) (sm_document r) (Some STOCK_MOVE_REVERSES_LINK) = Inr (l, db')"
  note G = get_move_Inr [OF o]
  have q: "on_grid QUANTITY_SCALE (smc_quantity (reversal_payload db original))" "quants_wf db"
    using wf G by (auto simp: stock_wf_def)
  note E = create_move_effect [OF cm q(2,1)] and F = link_documents_stock_frame [OF lk]
  have "move_effect r k = - move_effect original k" for k
  proof (rule create_move_steps [OF cm], goal_cases)
    case (1 it lt db1 serial db2)
    have "lt = sm_lot original" using resolve_lot_ref 1(2) by simp
    moreover have "it_id it = sm_item original" using require_stocked_item_Inr [OF 1(1)] by simp
    ultimately show ?case using 1(7) G by (cases k) (auto simp: move_effect_def)
  qed
  then have "on_hand db' k = on_hand db k - move_effect original k" for k
    using E(2) stock_frame_quants(1) [OF F] by simp
  moreover have "stock_wf db'"
    using create_move_wf [OF cm wf q(1)] stock_frame_quants [OF F] F
    by (simp add: stock_wf_def grid_uncosted stock_frame_def)
  ultimately show thesis using that o E(3) F by (simp add: stock_frame_def)
qed

lemma uncosted_same:
  "uncosted a = uncosted b \<Longrightarrow> sm_id a = sm_id b \<and> sm_tenant a = sm_tenant b \<and> sm_document a = sm_document b"
  by (cases a; cases b) (simp add: uncosted_def)

lemma find_uncosted:
  "map uncosted ms' = map uncosted ms @ zs \<Longrightarrow> find_row sm_id i ms = Some m \<Longrightarrow>
   \<exists>m'. find_row sm_id i ms' = Some m' \<and> uncosted m' = uncosted m"
proof (induction ms arbitrary: ms')
  case (Cons a ms)
  from Cons.prems(1) obtain b bs where ms': "ms' = b # bs" "uncosted b = uncosted a" "map uncosted bs = map uncosted ms @ zs"
    by (cases ms') auto
  with Cons uncosted_same [OF ms'(2)] show ?case by (cases "sm_id a = i") auto
qed simp

lemma reversed_once:
  assumes rev: "reverse_move db t i = Inr (r, db')" and wf: "stock_wf db"
  shows "reverse_move db' t i = Inl (ConflictError ''inventory.move_already_reversed'')"
proof (rule reverse_move_Inr [OF rev])
  fix original db1 l
  assume o: "get_move db t i = Inr original"
    and lk: "link_documents db1 t (sm_document original) (sm_document r) (Some STOCK_MOVE_REVERSES_LINK) = Inr (l, db')"
  note L = link_documents_Inr [OF lk] and G = get_move_Inr [OF o]
  have "map uncosted (stock_moves db') = map uncosted (stock_moves db) @ [uncosted r]"
    by (rule reverse_move_effect [OF rev wf])
  from find_uncosted [OF this] G obtain m' where
    m': "find_row sm_id i (stock_moves db') = Some m'" "uncosted m' = uncosted original" by blast
  then have g: "get_move db' t i = Inr m'" "sm_document m' = sm_document original"
    using uncosted_same [OF m'(2)] G by (auto simp: get_move_def)
  have docs: "\<exists>d \<in> set (documents db'). doc_row t (dl_predecessor l) d" "\<exists>d \<in> set (documents db'). doc_row t (dl_successor l) d"
    using L by simp_all
  have "already_reversed db' t (sm_document original)"
    using linked_in_chain [OF L(1,2) docs] L by (force simp: already_reversed_def)
  with g show ?thesis by (simp add: reverse_move_def)
qed

subsection \<open>Steps of the inventory service\<close>

text \<open>
  Committed moves and reversals; the quantity of a new move is on the stored grid of six places.
\<close>

inductive stock_step :: "'m inv_db_scheme \<Rightarrow> 'm inv_db_scheme \<Rightarrow> bool" where
  create: "create_move db t p None off = Inr (m, db') \<Longrightarrow> on_grid QUANTITY_SCALE (smc_quantity p) \<Longrightarrow> stock_step db db'"
| reverse: "reverse_move db t i = Inr (r, db') \<Longrightarrow> stock_step db db'"

lemma stock_step_wf:
  assumes "stock_step db db'" and "stock_wf db"
  shows "stock_wf db' \<and> (\<exists>m. map uncosted (stock_moves db') = map uncosted (stock_moves db) @ [m])"
  using assms
proof (cases rule: stock_step.cases)
  case (create t p off m)
  have "quants_wf db" using assms(2) by (simp add: stock_wf_def)
  then show ?thesis
    using create_move_wf [OF create(1) assms(2) create(2)] create_move_effect(3) [OF create(1) _ create(2)] by blast
next
  case (reverse t i r)
  show ?thesis by (rule reverse_move_effect [OF reverse assms(2)]) blast
qed

lemma stock_run:
  assumes "stock_step\<^sup>*\<^sup>* db db'" and "stock_wf db"
  shows "stock_wf db' \<and> (\<exists>ms. map uncosted (stock_moves db') = map uncosted (stock_moves db) @ ms)"
  using assms
proof (induction rule: rtranclp_induct)
  case (step b c)
  then obtain ms m where "stock_wf c" "map uncosted (stock_moves b) = map uncosted (stock_moves db) @ ms"
    "map uncosted (stock_moves c) = map uncosted (stock_moves b) @ [m]" using stock_step_wf by blast
  then show ?case by simp
qed simp

subsection \<open>Properties\<close>


text \<open>
  C34. Reversing a move undoes its effect on the stock and can happen only once: a reversal that
  succeeds lowers the on-hand of every key by exactly what the original had added, and reversing
  the same move again is refused.
\<close>

theorem reversal_undoes_stock:
  assumes "stock_wf db" and "reverse_move db t i = Inr (r, db')"
  shows "(\<exists>original. get_move db t i = Inr original \<and> (\<forall>k. on_hand db' k = on_hand db k - move_effect original k)) \<and>
    reverse_move db' t i = Inl (ConflictError ''inventory.move_already_reversed'')"
  using reversed_once [OF assms(2,1)] reverse_move_effect [OF assms(2,1)] by metis

text \<open>A tenant without stock, a receipt of ten FIFO units and its reversal.\<close>

definition empty_stock :: inv_db where
  "empty_stock = sample_stock\<lparr>stock_quants := [], item_valuations := [], cost_layers := []\<rparr>"

definition sample_receipt :: stock_move_create where
  "sample_receipt = \<lparr>smc_type = RECEIPT, smc_item = 41, smc_quantity = 10, smc_from_bin = None,
     smc_to_bin = Some 60, smc_lot = None, smc_serial = None, smc_lot_code = None, smc_serial_code = None,
     smc_date = None, smc_reference = None, smc_unit_cost = Some 2\<rparr>"

definition received :: inv_db where
  "received = snd (projr (create_move empty_stock 1 sample_receipt None None))"

lemma received_Inr:
  obtains m where "create_move empty_stock 1 sample_receipt None None = Inr (m, received)" and "sm_id m = 90"
proof -
  have ok: "is_ok (create_move empty_stock 1 sample_receipt None None)"
    "sm_id (fst (projr (create_move empty_stock 1 sample_receipt None None))) = 90" by code_simp+
  from ok(1) obtain m db' where "create_move empty_stock 1 sample_receipt None None = Inr (m, db')"
    by (metis is_okE surj_pair)
  with ok(2) that show thesis by (simp add: received_def)
qed

lemma empty_stock_wf: "stock_wf empty_stock"
  by (simp add: stock_wf_def quants_wf_def on_hand_def ledger_on_hand_def empty_stock_def sample_stock_def)

lemma received_step: "stock_step empty_stock received"
proof (rule received_Inr)
  fix m assume "create_move empty_stock 1 sample_receipt None None = Inr (m, received)"
  moreover have "on_grid QUANTITY_SCALE (smc_quantity sample_receipt)" by code_simp
  ultimately show ?thesis by (rule stock_step.create)
qed


theorem reversal_undoes_stock_witness:
  "\<exists>r db'. reverse_move received 1 90 = Inr (r, db') \<and>
     reverse_move db' 1 90 = Inl (ConflictError ''inventory.move_already_reversed'')"
proof -
  have wf: "stock_wf received" using stock_step_wf [OF received_step empty_stock_wf] by simp
  have "is_ok (reverse_move received 1 90)" by code_simp
  then obtain r db' where "reverse_move received 1 90 = Inr (r, db')" by (metis is_okE surj_pair)
  with reversal_undoes_stock [OF wf this] show ?thesis by blast
qed

subsection \<open>What a committed move satisfies\<close>

lemma require_active_bin_Inr:
  "require_active_bin db t (Some b) = Inr () \<Longrightarrow> \<exists>r \<in> set (stock_bins db). bn_id r = b \<and> bn_tenant r = t \<and> bn_is_active r"
  by (auto simp: require_active_bin_def dest!: find_row_Some_iff split: option.splits if_splits)

lemma validate_bin_sides_iff:
  "validate_bin_sides mt fb tb = Inr () \<longleftrightarrow>
     (case mt of RECEIPT \<Rightarrow> fb = None \<and> tb \<noteq> None
      | ISSUE \<Rightarrow> fb \<noteq> None \<and> tb = None
      | TRANSFER \<Rightarrow> fb \<noteq> None \<and> tb \<noteq> None \<and> fb \<noteq> tb
      | ADJUSTMENT \<Rightarrow> (fb = None) \<noteq> (tb = None))"
  by (cases mt) (auto simp: validate_bin_sides_def)

lemma create_move_checks:
  assumes "create_move db t p ro off = Inr (m, db')"
  shows "require_active_bin db t (smc_from_bin p) = Inr ()" and "require_active_bin db t (smc_to_bin p) = Inr ()"
    and "ro = None \<Longrightarrow> is_inbound (smc_type p) (smc_to_bin p) \<Longrightarrow> \<exists>c. smc_unit_cost p = Some c \<and> 0 \<le> c"
  using assms unfolding create_move_def
  by (auto elim!: bindr_InrE simp: if_Inl_Inr validate_unit_cost_def split: option.splits if_splits)

lemma on_hand_covers:
  assumes "on_hand db' k = on_hand db k + move_effect m k" and "quants_wf db'" and "sm_from_bin m = Some b"
    and "sm_to_bin m \<noteq> Some b" and "k = (sm_tenant m, sm_item m, b, sm_lot m)"
  shows "sm_quantity m \<le> on_hand db k"
  using assms(1,3,4) on_hand_nonneg [OF assms(2), of k] unfolding assms(5) by (simp add: move_effect_def)



subsection \<open>Reversals that cannot succeed\<close>

text \<open>
  The reversal of a stock decrease by ADJUSTMENT never succeeds: the reversing move brings stock
  in, is valued as a new receipt and has no entry cost.
\<close>

lemma decrease_reversal_fails:
  assumes g: "get_move db t i = Inr original" and ty: "sm_type original = ADJUSTMENT" "sm_from_bin original = Some b"
    "sm_to_bin original = None"
  shows "reverse_move db t i \<noteq> Inr (r, db')"
proof
  assume "reverse_move db t i = Inr (r, db')"
  then obtain db1 where cm: "create_move db t (reversal_payload db original) (Some original) None = Inr (r, db1)"
    using g by (auto elim!: reverse_move_Inr)
  have pt: "smc_type (reversal_payload db original) = ADJUSTMENT"
    using ty by (simp add: reversal_payload_def retype_for_reversal_def)
  have uc: "sm_unit_cost r = None"
    using cm unfolding create_move_def uuid4_def Let_def prod.case by (clarsimp simp: if_Inl_Inr elim!: bindr_InrE)
  show False
  proof (rule create_move_steps [OF cm], goal_cases)
    case (1 it lt db1 serial db2 document db4 s db5 mn db6 db8 db9 db10 ev entry_cost)
    have "sm_type r = ADJUSTMENT" "sm_to_bin r = Some b" using 1(7) pt ty by simp_all
    with uc have "apply_costing db9 t it r None \<noteq> Inr (ev, db10)"
      by (auto elim!: bindr_InrE simp: apply_costing_def warehouse_of_def apply_inbound_def require_entry_cost_def
          split: option.splits)
    with 1(10) ty(1) show False by (auto elim!: bindr_InrE simp: reverse_costing_def Let_def)
  qed
qed

end
