(* ===== verification/Posting.thy ===== *)
theory Posting
  imports Ledger
begin

text \<open>
  The contract every document of the subledgers relies on: what a draft followed by its posting
  (\<open>create_draft_entry\<close>, then \<open>post_entry\<close>) does as one booking. The clients in payables,
  receivables, assets, controlling and the event handlers use these lemmas only.
\<close>

text \<open>A \<open>JournalLineCreate\<close> with an account, a description and the two sides; the rest by default.\<close>

definition line_for :: "uuid \<Rightarrow> string option \<Rightarrow> decimal \<Rightarrow> decimal \<Rightarrow> journal_line_create" where
  "line_for a d debit credit =
     \<lparr>jlc_account = a, jlc_description = d, jlc_debit = debit, jlc_credit = credit,
      jlc_cost_center = None, jlc_profit_center = None, jlc_project = None, jlc_item = None,
      jlc_partner_type = None, jlc_partner = None\<rparr>"

lemma line_for_simps [simp]:
  "jlc_account (line_for a d x y) = a" "jlc_debit (line_for a d x y) = x" "jlc_credit (line_for a d x y) = y"
  "jlc_partner (line_for a d x y) = None"
  by (simp_all add: line_for_def)

subsection \<open>The draft\<close>

definition draft_sides :: "journal_entry_create \<Rightarrow> (decimal \<times> decimal) list option \<Rightarrow> (journal_line_create \<times> decimal \<times> decimal) list" where
  "draft_sides c fa = zip (jec_lines c) (functional_sides fa (jec_lines c))"

definition side_view :: "journal_line \<Rightarrow> uuid \<times> decimal \<times> decimal \<times> uuid option" where
  "side_view l = (jl_account l, jl_tdebit l, jl_tcredit l, jl_partner l)"

definition payload_view :: "journal_line_create \<Rightarrow> uuid \<times> decimal \<times> decimal \<times> uuid option" where
  "payload_view l = (jlc_account l, store_money (jlc_debit l), store_money (jlc_credit l), jlc_partner l)"

definition functional_view :: "journal_line \<Rightarrow> uuid \<times> decimal \<times> decimal" where
  "functional_view l = (jl_account l, jl_fdebit l, jl_fcredit l)"

definition sides_view :: "journal_line_create \<times> decimal \<times> decimal \<Rightarrow> uuid \<times> decimal \<times> decimal" where
  "sides_view p = (jlc_account (fst p), store_money (fst (snd p)), store_money (snd (snd p)))"

lemma stored_draft_views:
  "length ids = length ps \<Longrightarrow> length ns = length ps \<Longrightarrow>
   map side_view (map (\<lambda>(k, l). stored_line (l\<lparr>jl_id := k\<rparr>))
     (zip ids (map (\<lambda>(n, l, s). draft_line t i cur n l s) (zip ns ps)))) = map (payload_view \<circ> fst) ps"
  "length ids = length ps \<Longrightarrow> length ns = length ps \<Longrightarrow>
   map functional_view (map (\<lambda>(k, l). stored_line (l\<lparr>jl_id := k\<rparr>))
     (zip ids (map (\<lambda>(n, l, s). draft_line t i cur n l s) (zip ns ps)))) = map sides_view ps"
proof (induction ps arbitrary: ids ns)
  case (Cons p ps)
  {
    case 1
    then obtain k ks n ms where "ids = k # ks" "ns = n # ms" by (metis length_Suc_conv)
    then show ?case using Cons.IH(1) [of ks ms] 1
      by (cases p) (simp add: side_view_def payload_view_def draft_line_def stored_line_def)
  next
    case 2
    then obtain k ks n ms where "ids = k # ks" "ns = n # ms" by (metis length_Suc_conv)
    then show ?case using Cons.IH(2) [of ks ms] 2
      by (cases p) (simp add: functional_view_def sides_view_def draft_line_def stored_line_def)
  }
qed simp_all

lemma draft_effect:
  assumes wf: "books_wf db" and dr: "create_draft_entry db t c fa = Inr (e, db1)"
  shows "books_wf db1" and "fin_db.more db1 = fin_db.more db" and "uuid_supply db \<le> uuid_supply db1"
    and "pending_events db1 = pending_events db" and "journal_entries db1 = journal_entries db @ [e]"
    and "currencies db1 = currencies db" and "posted_lines db1 = posted_lines db"
    and "map side_view (entry_lines db1 (je_id e)) = map payload_view (jec_lines c)"
    and "map functional_view (entry_lines db1 (je_id e)) = map sides_view (draft_sides c fa)"
    and "je_id e = uuid_supply db" and "je_tenant e = t" and "je_status e = DRAFT" and "je_reverses e = None"
    and "je_posting_date e = jec_posting_date c" and "je_document_type e = jec_document_type c"
    and "je_currency e = jec_currency c" and "length (draft_sides c fa) = length (jec_lines c)"
proof -
  have hdr: "je_reverses e = None" "je_document_type e = jec_document_type c" "je_currency e = jec_currency c"
    using dr by (auto simp: create_draft_entry_def uuid4_def Let_def elim!: bindr_InrE split: if_splits)
  obtain d ls db2 db3 where
    db2: "db2 = db\<lparr>uuid_supply := Suc (Suc (uuid_supply db)), documents := documents db @ [d]\<rparr>"
    and e: "je_id e = uuid_supply db" "je_tenant e = t" "je_status e = DRAFT" "je_reversed_by e = None"
      "je_posting_date e = jec_posting_date c"
    and ins: "insert_entry e db2 = Inr db3" and lines: "fold_result insert_line ls db3 = Inr db1"
    and ls: "ls = map (\<lambda>(n, l, s). draft_line t (uuid_supply db) (jec_currency c) n l s)
       (zip [1..<Suc (length (jec_lines c))] (draft_sides c fa))"
    and len: "length (jec_lines c) \<le> length (functional_sides fa (jec_lines c))"
    by (rule create_draft_entry_Inr [OF dr]) (simp add: draft_sides_def)
  have m2: "core_db.more db2 = core_db.more db" by (simp add: db2)
  have new: "jl_entry l = je_id e \<and> jl_tenant l = je_tenant e \<and> \<not> jl_is_posted l" if "l \<in> set ls" for l
    using that e by (auto simp: ls draft_line_def simp del: upt_Suc)
  note N = books_wf_new_entry [OF wf m2 _ e(1) _ e(3,4) ins lines new]
  have u2: "uuid_supply db \<le> uuid_supply db2" "je_id e < uuid_supply db2" by (simp_all add: db2 e)
  note F = fold_insert_line [OF lines]
  have db3: "db3 = db2\<lparr>journal_entries := journal_entries db2 @ [e]\<rparr>"
    using ins by (auto simp: insert_entry_def elim!: bindr_InrE split: if_splits)
  define rows where "rows = map (\<lambda>(k, l). stored_line (l\<lparr>jl_id := k\<rparr>)) (zip [uuid_supply db3..<uuid_supply db3 + length ls] ls)"
  have L: "journal_lines db1 = journal_lines db @ rows" using F by (simp add: rows_def db3 db2)
  have rows: "jl_entry l = je_id e \<and> \<not> jl_is_posted l" if "l \<in> set rows" for l
    using that new by (auto simp: rows_def dest!: set_zip_rightD)
  have old: "filter (\<lambda>l. jl_entry l = je_id e) (journal_lines db) = []"
    unfolding filter_empty_conv using books_wfD(3,6) [OF wf] e(1) by fastforce
  have el: "entry_lines db1 (je_id e) = rows"
    using rows old by (simp add: entry_lines_def L)
  show "books_wf db1" "journal_entries db1 = journal_entries db @ [e]" using N(1,2) u2 by simp_all
  show "fin_db.more db1 = fin_db.more db" "uuid_supply db \<le> uuid_supply db1" "pending_events db1 = pending_events db"
    "currencies db1 = currencies db"
    using F by (simp_all add: db3 db2)
  show "posted_lines db1 = posted_lines db" using rows by (simp add: posted_lines_def L filter_empty_conv)
  show sl: "length (draft_sides c fa) = length (jec_lines c)" using len by (simp add: draft_sides_def)
  have lens: "length [uuid_supply db3..<uuid_supply db3 + length ls] = length (draft_sides c fa)"
    "length [1..<Suc (length (jec_lines c))] = length (draft_sides c fa)" using sl by (simp_all add: ls del: upt_Suc)
  show "map side_view (entry_lines db1 (je_id e)) = map payload_view (jec_lines c)"
    using stored_draft_views(1) [OF lens, of t "uuid_supply db" "jec_currency c"] len
    unfolding el rows_def ls by (simp add: draft_sides_def map_fst_zip_take flip: map_map del: upt_Suc)
  show "map functional_view (entry_lines db1 (je_id e)) = map sides_view (draft_sides c fa)"
    using stored_draft_views(2) [OF lens, of t "uuid_supply db" "jec_currency c"]
    unfolding el rows_def ls by blast
  show "je_id e = uuid_supply db" "je_tenant e = t" "je_status e = DRAFT" "je_posting_date e = jec_posting_date c"
    "je_reverses e = None" "je_document_type e = jec_document_type c" "je_currency e = jec_currency c"
    by (simp_all add: e hdr)
qed

subsection \<open>The posting\<close>

lemma side_view_simps [simp]:
  "side_view (denormalize e p l) = side_view l" "functional_view (denormalize e p l) = functional_view l"
  "side_view (l\<lparr>jl_fdebit := d, jl_fcredit := c\<rparr>) = side_view l"
  by (simp_all add: side_view_def functional_view_def denormalize_def)

lemma post_entry_events:
  assumes "post_entry db t i ro skip = Inr (e', db')"
  obtains n dt d cur amount accs where "pending_events db' = pending_events db @ [JournalEntryPosted t i n dt d cur amount accs]"
proof (rule post_entry_Inr [OF assms])
  fix e ls p
  assume e: "get_entry db t i = Inr e" and pw: "post_writes db t e p ls = Inr (e', db')"
  show thesis
  proof (rule post_writes_Inr [OF pw])
    fix s db1 n db2 db3 db4 db5
    assume 1: "ensure_sequence db t JOURNAL_SEQUENCE_NAME JOURNAL_NUMBER_PREFIX JOURNAL_NUMBER_PADDING True = Inr (s, db1)"
      "claim_number db1 t JOURNAL_SEQUENCE_NAME (je_posting_date e) = Inr (n, db2)"
      and 2: "fold_result update_line (map (denormalize e p) ls) db2 = Inr db3"
      "update_entry (je_id e) (promote n p (now db)) db3 = Inr db4"
      and 3: "set_document_status db4 t (je_document e) (Some (entry_status_str POSTED)) (Some n) = Inr db5"
      and db': "db' = publish (JournalEntryPosted t (je_id e) n (je_document_type e) (je_posting_date e)
            (je_currency e) (sum_list (map jl_fdebit ls)) (map jl_account ls)) db5"
    have "pending_events db2 = pending_events db" using ensure_sequence_frame(5) [OF 1(1)] claim_number_frame(4) [OF 1(2)] by simp
    moreover have "pending_events db4 = pending_events db2"
      using fold_update_line [OF 2(1)] 2(2) by (auto elim!: update_entry_Inr)
    ultimately show thesis
      using set_document_status_frame(3) [OF 3] get_entry_Inr [OF e] by (intro that) (simp add: db' publish_def)
  qed
qed


lemma posting_lines_view:
  assumes wf: "books_wf db" and g: "get_entry db t i = Inr e" and pl: "posting_lines db t e ro skip = Inr ls"
  shows "mset (map side_view ls) = mset (map side_view (entry_lines db i))"
    and "skip \<Longrightarrow> mset (map functional_view ls) = mset (map functional_view (entry_lines db i))"
    and "functional_currency_or_none db t = Inr fc \<Longrightarrow> fc = None \<or> fc = Some (je_currency e) \<Longrightarrow>
      mset (map functional_view ls) = mset (map functional_view (entry_lines db i))"
proof -
  note M = mset_load_lines [OF wf g]
  have i: "je_id e = i" using get_entry_Inr [OF g] by simp
  have "map side_view ls = map side_view (load_lines db t i)"
    unfolding i [symmetric] by (rule posting_lines_frame [OF pl]) simp
  then show "mset (map side_view ls) = mset (map side_view (entry_lines db i))" by (simp add: M)
  show "skip \<Longrightarrow> mset (map functional_view ls) = mset (map functional_view (entry_lines db i))"
    using pl M by (auto simp: posting_lines_def i)
  show "functional_currency_or_none db t = Inr fc \<Longrightarrow> fc = None \<or> fc = Some (je_currency e) \<Longrightarrow>
      mset (map functional_view ls) = mset (map functional_view (entry_lines db i))"
    using pl M by (auto simp: posting_lines_def translate_entry_lines_def i split: if_splits)
qed

text \<open>Posting the newest entry, a draft.\<close>

lemma posting_effect:
  assumes wf: "books_wf db" and es: "journal_entries db = es @ [e]"
    and po: "post_entry db t (je_id e) ro skip = Inr (e', db')"
  shows "books_wf db'" and "fin_db.more db' = fin_db.more db" and "uuid_supply db \<le> uuid_supply db'"
    and "journal_entries db' = es @ [e']" and "je_status e' = POSTED" and "je_number e' \<noteq> None"
    and "je_tenant e' = je_tenant e" and "je_posting_date e' = je_posting_date e"
    and "je_document_type e' = je_document_type e" and "je_currency e' = je_currency e"
    and "je_id e' = je_id e" and "je_document e' = je_document e"
    and "entry_balanced (entry_lines db' (je_id e))"
    and "mset (posted_lines db') = mset (posted_lines db) + mset (entry_lines db' (je_id e))"
    and "mset (map side_view (entry_lines db' (je_id e))) = mset (map side_view (entry_lines db (je_id e)))"
    and "skip \<Longrightarrow> mset (map functional_view (entry_lines db' (je_id e))) = mset (map functional_view (entry_lines db (je_id e)))"
    and "functional_currency_or_none db t = Inr fc \<Longrightarrow> fc = None \<or> fc = Some (je_currency e) \<Longrightarrow>
      mset (map functional_view (entry_lines db' (je_id e))) = mset (map functional_view (entry_lines db (je_id e)))"
    and "currencies db' = currencies db"
proof -
  obtain e0 ls p n where e0: "get_entry db t (je_id e) = Inr e0" and pl: "posting_lines db t e0 ro skip = Inr ls"
    and bal: "entry_balanced ls" and e': "e' = promote n p (now db) e0"
    and m: "core_db.more db' = core_db.more (db\<lparr>
       journal_lines := write_back (map (denormalize e0 p) ls) (journal_lines db),
       journal_entries := upd_rows (\<lambda>x. je_id x = je_id e) (promote n p (now db)) (journal_entries db)\<rparr>)"
    and u: "uuid_supply db \<le> uuid_supply db'"
    and ids: "mset (map jl_id (map (denormalize e0 p) ls)) = mset (map jl_id (entry_lines db (je_id e)))"
    and ls: "\<And>l. l \<in> set ls \<Longrightarrow> line_ok l \<and> jl_entry l = je_id e \<and> jl_tenant l = t"
    by (rule post_entry_effect [OF wf po]) blast
  have ent: "\<forall>l \<in> set ls. jl_entry l = je_id e" using ls by simp
  have dist: "distinct (map je_id (es @ [e]))" using books_wfD(1) [OF wf] by (simp add: es)
  have "e0 \<in> set (es @ [e])" "je_id e0 = je_id e" using get_entry_Inr [OF e0] by (simp_all add: es)
  with dist have e0e: "e0 = e" by (auto simp: image_iff)
  show "books_wf db'" by (rule post_entry_wf [OF wf po])
  show "fin_db.more db' = fin_db.more db" using fin_frame(8) [OF m] by simp
  show "uuid_supply db \<le> uuid_supply db'" by (rule u)
  show "currencies db' = currencies db" using fin_frame(4) [OF m] by simp
  show "journal_entries db' = es @ [e']"
    using fin_frame(6) [OF m] dist by (auto simp: es upd_rows_def e' e0e image_iff intro!: map_idI)
  show "je_status e' = POSTED" "je_number e' \<noteq> None" "je_tenant e' = je_tenant e" "je_posting_date e' = je_posting_date e"
    "je_id e' = je_id e" "je_document e' = je_document e"
    by (simp_all add: e' e0e)
  show "je_document_type e' = je_document_type e" "je_currency e' = je_currency e"
    by (simp_all add: e' e0e promote_def)
  note P = post_entry_lines [OF wf m ids ent]
  note V = posting_lines_view [OF wf e0 pl]
  have sv: "mset (map g (entry_lines db' (je_id e))) = mset (map g ls)" if "\<And>l. g (denormalize e0 p l) = g l" for g
    using arg_cong [OF P(1), of "image_mset g"] that by (simp add: image_mset.compositionality o_def)
  show "entry_balanced (entry_lines db' (je_id e))" using entry_balanced_mset [OF P(1)] bal by simp
  show "mset (posted_lines db') = mset (posted_lines db) + mset (entry_lines db' (je_id e))"
    by (rule post_entry_ledger(1) [OF wf po])
  show "mset (map side_view (entry_lines db' (je_id e))) = mset (map side_view (entry_lines db (je_id e)))"
    using V(1) unfolding sv [of side_view, OF side_view_simps(1)] .
  show "mset (map functional_view (entry_lines db' (je_id e))) = mset (map functional_view (entry_lines db (je_id e)))" if skip
    using V(2) that unfolding sv [of functional_view, OF side_view_simps(2)] by blast
  show "mset (map functional_view (entry_lines db' (je_id e))) = mset (map functional_view (entry_lines db (je_id e)))"
    if "functional_currency_or_none db t = Inr fc" "fc = None \<or> fc = Some (je_currency e)"
    using V(3) [of fc] that unfolding sv [of functional_view, OF side_view_simps(2)] e0e by blast
qed

text \<open>
  A draft and its posting, as one booking: the books stay well formed, the header is the only new
  entry, posted and numbered; its lines, balanced in functional currency, are exactly the payload's
  lines and are the only new lines of the posted ledger.
\<close>

lemma booking_effect:
  assumes wf: "books_wf db" and dr: "create_draft_entry db t c fa = Inr (e, db1)"
    and po: "post_entry db1 t (je_id e) ro skip = Inr (e', db')"
  shows "books_wf db'" and "fin_db.more db' = fin_db.more db" and "uuid_supply db \<le> uuid_supply db'"
    and "journal_entries db' = journal_entries db @ [e']" and "je_status e' = POSTED" and "je_number e' \<noteq> None"
    and "je_tenant e' = t" and "je_posting_date e' = jec_posting_date c" and "je_document_type e' = jec_document_type c"
    and "je_currency e' = jec_currency c" and "je_id e' = je_id e" and "je_document e' = je_document e"
    and "entry_balanced (entry_lines db' (je_id e'))"
    and "mset (posted_lines db') = mset (posted_lines db) + mset (entry_lines db' (je_id e'))"
    and "mset (map side_view (entry_lines db' (je_id e'))) = mset (map payload_view (jec_lines c))"
    and "currencies db' = currencies db"
proof -
  note D = draft_effect [OF wf dr]
  note P = posting_effect [OF D(1,5) po]
  show "books_wf db'" "fin_db.more db' = fin_db.more db" "uuid_supply db \<le> uuid_supply db'"
    "journal_entries db' = journal_entries db @ [e']" "je_status e' = POSTED" "je_number e' \<noteq> None"
    "je_tenant e' = t" "je_posting_date e' = jec_posting_date c" "je_document_type e' = jec_document_type c"
    "je_currency e' = jec_currency c" "je_id e' = je_id e" "je_document e' = je_document e"
    "entry_balanced (entry_lines db' (je_id e'))" "currencies db' = currencies db"
    "mset (posted_lines db') = mset (posted_lines db) + mset (entry_lines db' (je_id e'))"
    using P D by simp_all
  show "mset (map side_view (entry_lines db' (je_id e'))) = mset (map payload_view (jec_lines c))"
    using P(15) unfolding P(11) D(8) .
qed

subsection \<open>The functional side\<close>

text \<open>
  In the functional currency nothing is translated, so the functional sides of the posted lines are
  those of the draft; the net of an account can be read off them.
\<close>

lemma booking_functional:
  assumes wf: "books_wf db" and dr: "create_draft_entry db t c fa = Inr (e, db1)"
    and po: "post_entry db1 t (je_id e) ro skip = Inr (e', db')"
    and fc: "functional_currency_or_none db t = Inr fc" "fc = None \<or> fc = Some (jec_currency c)"
  shows "mset (map functional_view (entry_lines db' (je_id e'))) = mset (map sides_view (draft_sides c fa))"
proof -
  note D = draft_effect [OF wf dr]
  have "functional_currency_or_none db1 t = Inr fc" using fc(1) by (simp add: functional_currency_or_none_def D(6))
  then show ?thesis
    using posting_effect(17) [OF D(1,5) po] posting_effect(11) [OF D(1,5) po] fc(2) D(9,16) by simp
qed

lemma net_functional:
  assumes "mset (map functional_view ls) = mset vs"
  shows "net a ls = sum_list (map (\<lambda>(b, d, c). if b = a then d - c else 0) vs)"
proof -
  have "net a ls = sum_list (map (\<lambda>(b, d, c). if b = a then d - c else 0) (map functional_view ls))"
    by (simp add: net_def functional_view_def o_def)
  also have "\<dots> = sum_list (map (\<lambda>(b, d, c). if b = a then d - c else 0) vs)"
    using assms by (rule sum_list_mset)
  finally show ?thesis .
qed

lemma plain_sides:
  "map sides_view (draft_sides c None) = map (\<lambda>(a, d, c, _). (a, d, c)) (map payload_view (jec_lines c))"
  by (simp add: draft_sides_def functional_sides_def sides_view_def payload_view_def zip_map2 o_def
      zip_same_conv_map split_def)

subsection \<open>The subledger tables\<close>

text \<open>No operation of the journal or of the finance master data touches a table of another component.\<close>

lemma post_entry_more:
  assumes "post_entry db t i ro skip = Inr (e', db')"
  shows "fin_db.more db' = fin_db.more db \<and> uuid_supply db \<le> uuid_supply db'"
proof (rule post_entry_Inr [OF assms])
  fix e ls p
  assume "post_writes db t e p ls = Inr (e', db')"
  then show ?thesis
  proof (rule post_writes_Inr)
    fix s db1 n db2 db3 db4 db5
    assume 1: "ensure_sequence db t JOURNAL_SEQUENCE_NAME JOURNAL_NUMBER_PREFIX JOURNAL_NUMBER_PADDING True = Inr (s, db1)"
      "claim_number db1 t JOURNAL_SEQUENCE_NAME (je_posting_date e) = Inr (n, db2)"
      and 2: "fold_result update_line (map (denormalize e p) ls) db2 = Inr db3"
      "update_entry (je_id e) (promote n p (now db)) db3 = Inr db4"
      and 3: "set_document_status db4 t (je_document e) (Some (entry_status_str POSTED)) (Some n) = Inr db5"
      and db': "db' = publish (JournalEntryPosted t (je_id e) n (je_document_type e) (je_posting_date e)
            (je_currency e) (sum_list (map jl_fdebit ls)) (map jl_account ls)) db5"
    have "core_db.more db2 = core_db.more db" "uuid_supply db \<le> uuid_supply db2"
      using ensure_sequence_frame(1,2) [OF 1(1)] claim_number_frame(7,8) [OF 1(2)] by simp_all
    moreover have "fin_db.more db4 = fin_db.more db2 \<and> uuid_supply db4 = uuid_supply db2"
      using fold_update_line [OF 2(1)] 2(2) by (auto elim!: update_entry_Inr)
    moreover have "fin_db.more db' = fin_db.more db4" "uuid_supply db' = uuid_supply db4"
      using set_document_status_frame(1,2) [OF 3] fin_frame(8) [of db5 db4] by (simp_all add: db' publish_def)
    ultimately show ?thesis using fin_frame(8) [of db2 db] by simp
  qed
qed

lemma reverse_entry_more:
  assumes "reverse_entry db t i d descr = Inr (r, db')"
  shows "fin_db.more db' = fin_db.more db \<and> uuid_supply db \<le> uuid_supply db'"
proof (rule reverse_entry_Inr [OF assms], goal_cases)
  case (1 original d db2 db3 db4 db5 db6 db7 lk db8)
  have "fin_db.more db3 = fin_db.more db2 \<and> uuid_supply db3 = uuid_supply db2"
    using 1(6) by (auto simp: insert_entry_def elim!: bindr_InrE split: if_splits)
  moreover have "fin_db.more db4 = fin_db.more db3 \<and> uuid_supply db3 \<le> uuid_supply db4"
    using fold_insert_line [OF 1(7)] by simp
  moreover note post_entry_more [OF 1(8)]
  moreover have "fin_db.more db6 = fin_db.more db5 \<and> uuid_supply db6 = uuid_supply db5"
    using 1(9) by (auto elim!: update_entry_Inr)
  moreover have "fin_db.more db8 = fin_db.more db6" "uuid_supply db6 \<le> uuid_supply db8"
    using set_document_status_frame(1,2) [OF 1(10)] link_documents_frame(1,2) [OF 1(11)] fin_frame(8) [of db8 db6] by simp_all
  moreover have "fin_db.more db' = fin_db.more db8" "uuid_supply db' = uuid_supply db8" by (simp_all add: 1(12) publish_def)
  ultimately show ?case by (simp add: 1(5))
qed

lemma ledger_step_more:
  assumes "ledger_step db db'" and "books_wf db"
  shows "fin_db.more db' = fin_db.more db \<and> uuid_supply db \<le> uuid_supply db'"
  using assms(1)
proof cases
  case (draft t c fa e)
  then show ?thesis using draft_effect(2,3) [OF assms(2)] by blast
next
  case fiscal_year
  then show ?thesis by (elim create_fiscal_year_Inr) simp
qed (auto simp: close_period_def open_period_def close_fiscal_year_def set_period_status_def
    create_currency_def set_functional_currency_def create_exchange_rate_def uuid4_def Let_def
    result_simps split: option.splits if_splits dest: post_entry_more reverse_entry_more)

end
