(* ===== verification/Inventory_Cogs.thy ===== *)
theory Inventory_Cogs
  imports Stock_Ledger Event_Bus Posting
begin

text \<open>
  Model of the stock-valuation handler of the finance module
  (\<^verbatim>\<open>finance/handlers/inventory_cogs.py\<close> and \<^verbatim>\<open>_shared.py\<close>) and of the unit of work in which a
  stock move, its valuation and its journal commit together (\<^verbatim>\<open>core/events.py\<close>,
  \<^verbatim>\<open>core/bootstrap.py\<close>). The lemmas show that the handler's lines are one-sided and balanced, that
  it keeps the books well formed, and that a move and its journal commit or fail as one.
\<close>

subsection \<open>Lines from signed postings\<close>

type_synonym signed_posting = "uuid \<times> decimal"

text \<open>\<^verbatim>\<open>net[account_id] = net.get(account_id, 0) + signed\<close> on a dict in insertion order.\<close>

fun net_add :: "signed_posting \<Rightarrow> signed_posting list \<Rightarrow> signed_posting list" where
  "net_add (a, x) [] = [(a, 0 + x)]"
| "net_add (a, x) ((b, y) # rest) = (if a = b then (b, y + x) # rest else (b, y) # net_add (a, x) rest)"

definition posting_line :: "uuid \<Rightarrow> signed_posting \<Rightarrow> journal_line_create" where
  "posting_line item p =
     \<lparr>jlc_account = fst p, jlc_description = None,
      jlc_debit = (if 0 < snd p then snd p else 0), jlc_credit = (if 0 < snd p then 0 else - snd p),
      jlc_cost_center = None, jlc_profit_center = None, jlc_project = None, jlc_item = Some item,
      jlc_partner_type = None, jlc_partner = None\<rparr>"

definition lines_from_postings :: "signed_posting list \<Rightarrow> uuid \<Rightarrow> journal_line_create list" where
  "lines_from_postings postings item =
     map (posting_line item) (filter (\<lambda>p. snd p \<noteq> 0) (fold net_add postings []))"

subsection \<open>The handler\<close>

definition postings_for :: "stock_valued \<Rightarrow> decimal \<Rightarrow> decimal \<Rightarrow> signed_posting list" where
  "postings_for ev amount residual =
     (if sv_is_inbound ev
      then [(sv_inventory_account ev, amount), (sv_offset_account ev, - amount)]
      else [(sv_offset_account ev, amount), (sv_inventory_account ev, - (amount + residual)),
            (sv_price_difference_account ev, residual)])"

definition lower_char :: "char \<Rightarrow> char" where
  "lower_char c = (let n = (of_char c :: nat) in if 65 \<le> n \<and> n \<le> 90 then char_of (n + 32) else c)"

definition STOCK_MOVE_POSTS_LINK :: string where "STOCK_MOVE_POSTS_LINK = ''posts''"

definition post_stock_valuation_journal ::
  "stock_valued \<Rightarrow> 'm fin_db_scheme \<Rightarrow> 'm fin_db_scheme result" where
  "post_stock_valuation_journal ev db =
     bindr (functional_currency_or_none db (sv_tenant ev)) (\<lambda>code.
     let currency_code = or_default code;
         amount = quantize_for_currency (sv_total_cost ev) currency_code;
         lines = lines_from_postings (postings_for ev amount (sv_residual ev)) (sv_item ev)
     in if length lines < 2 then Inr db
        else bindr (create_draft_entry db (sv_tenant ev)
               \<lparr>jec_posting_date = sv_move_date ev, jec_currency = currency_code,
                jec_description = Some (''Stock '' @ map lower_char (sv_move_type ev) @ '' '' @ sv_move_number ev),
                jec_document_type = COGS, jec_lines = lines\<rparr> None) (\<lambda>(entry, db1).
        bindr (post_entry db1 (sv_tenant ev) (je_id entry) None False) (\<lambda>(_, db2).
        bindr (link_documents db2 (sv_tenant ev) (sv_document ev) (je_document entry)
                 (Some STOCK_MOVE_POSTS_LINK)) (\<lambda>(_, db3).
        Inr db3))))"

text \<open>
  The registry of \<^verbatim>\<open>core/bootstrap.py\<close> for the events modelled here; the journal's own events have
  no subscriber.
\<close>

definition handlers_for :: "domain_event \<Rightarrow> ('m fin_db_scheme \<Rightarrow> 'm fin_db_scheme result) list" where
  "handlers_for ev = (case ev of StockValued e \<Rightarrow> [post_stock_valuation_journal e] | _ \<Rightarrow> [])"

text \<open>The unit of work of one stock move: the service call, then the drain of its events.\<close>

definition move_uow ::
  "uuid \<Rightarrow> stock_move_create \<Rightarrow> uuid option \<Rightarrow> 'm inv_db_scheme \<Rightarrow> 'm inv_db_scheme result" where
  "move_uow tenant payload offset =
     run_in_uow handlers_for
       (\<lambda>db. bindr (create_move db tenant payload None offset) (\<lambda>(_, db1). Inr db1))"

subsection \<open>Balanced lines\<close>

lemma sum_net_add: "sum_list (map snd (net_add p ns)) = sum_list (map snd ns) + snd p"
  by (induction p ns rule: net_add.induct) auto

lemma sum_fold_net_add: "sum_list (map snd (fold net_add ps ns)) = sum_list (map snd ns) + sum_list (map snd ps)"
  by (induction ps arbitrary: ns) (simp_all add: sum_net_add)

lemma postings_sum_zero: "sum_list (map snd (postings_for ev amount residual)) = 0"
  by (simp add: postings_for_def)

lemma posting_line_simps [simp]:
  "jlc_debit (posting_line i p) - jlc_credit (posting_line i p) = snd p"
  "jlc_account (posting_line i p) = fst p"
  by (simp_all add: posting_line_def)

lemma posting_line_one_sided: "snd p \<noteq> 0 \<Longrightarrow> one_side (jlc_debit (posting_line i p)) (jlc_credit (posting_line i p))"
  by (auto simp: posting_line_def one_side_def)

lemma lines_from_postings_balance:
  "sum_list (map jlc_debit (lines_from_postings ps i)) - sum_list (map jlc_credit (lines_from_postings ps i)) =
   sum_list (map snd ps)"
proof -
  let ?ns = "filter (\<lambda>p. snd p \<noteq> 0) (fold net_add ps [])"
  have "sum_list (map jlc_debit (map (posting_line i) ns)) - sum_list (map jlc_credit (map (posting_line i) ns)) =
      sum_list (map snd ns)" for ns
    by (induction ns) (simp_all add: posting_line_def)
  moreover have "sum_list (map snd ?ns) = sum_list (map snd (fold net_add ps []))"
    by (rule sum_list_filter_zero) simp
  ultimately show ?thesis by (simp add: lines_from_postings_def sum_fold_net_add)
qed

text \<open>Each account occurs in one line.\<close>

lemma net_add_keys: "distinct (map fst ns) \<Longrightarrow> distinct (map fst (net_add p ns)) \<and>
    set (map fst (net_add p ns)) = insert (fst p) (set (map fst ns))"
  by (induction p ns rule: net_add.induct) auto

lemma fold_net_add_keys: "distinct (map fst ns) \<Longrightarrow> distinct (map fst (fold net_add ps ns))"
  by (induction ps arbitrary: ns) (simp_all add: net_add_keys)

lemma lines_from_postings_accounts: "distinct (map jlc_account (lines_from_postings ps i))"
  using fold_net_add_keys [of "[]" ps] by (simp add: lines_from_postings_def o_def distinct_map_filter)

subsection \<open>The handler keeps the books\<close>

definition valuation_lines :: "stock_valued \<Rightarrow> string \<Rightarrow> journal_line_create list" where
  "valuation_lines ev cur =
     lines_from_postings (postings_for ev (quantize_for_currency (sv_total_cost ev) cur) (sv_residual ev)) (sv_item ev)"

text \<open>The entry a valued move must have after commit.\<close>

definition journal_of_move :: "'m fin_db_scheme \<Rightarrow> stock_valued \<Rightarrow> string \<Rightarrow> journal_entry \<Rightarrow> bool" where
  "journal_of_move db ev cur e \<longleftrightarrow> e \<in> set (journal_entries db) \<and>
     je_status e = POSTED \<and> je_number e \<noteq> None \<and> je_document_type e = COGS \<and> je_tenant e = sv_tenant ev \<and>
     je_posting_date e = sv_move_date ev \<and> je_currency e = cur \<and> entry_balanced (entry_lines db (je_id e)) \<and>
     mset (map side_view (entry_lines db (je_id e))) = mset (map payload_view (valuation_lines ev cur)) \<and>
     (\<exists>l. l \<in> set (doc_links db) \<and> dl_predecessor l = sv_document ev \<and> dl_successor l = je_document e \<and>
        dl_link_type l = Some STOCK_MOVE_POSTS_LINK)"

definition valuation_booked :: "stock_valued \<Rightarrow> 'm fin_db_scheme \<Rightarrow> 'm fin_db_scheme \<Rightarrow> bool" where
  "valuation_booked ev db db' \<longleftrightarrow> (\<exists>code. functional_currency_or_none db (sv_tenant ev) = Inr code \<and>
      (if length (valuation_lines ev (or_default code)) < 2 then db' = db
       else \<exists>e ev'. journal_entries db' = journal_entries db @ [e] \<and> journal_of_move db' ev (or_default code) e \<and>
         mset (posted_lines db') = mset (posted_lines db) + mset (entry_lines db' (je_id e)) \<and>
         pending_events db' = pending_events db @ [ev'] \<and> (\<forall>sv. ev' \<noteq> StockValued sv)))"

lemma handler_Inr:
  assumes "post_stock_valuation_journal ev db = Inr db'"
  obtains (few) code where "functional_currency_or_none db (sv_tenant ev) = Inr code"
      "length (valuation_lines ev (or_default code)) < 2" "db' = db"
  | (posts) code c e db1 e' db2 l where "functional_currency_or_none db (sv_tenant ev) = Inr code"
    "2 \<le> length (valuation_lines ev (or_default code))"
    "create_draft_entry db (sv_tenant ev) c None = Inr (e, db1)"
    "post_entry db1 (sv_tenant ev) (je_id e) None False = Inr (e', db2)"
    "link_documents db2 (sv_tenant ev) (sv_document ev) (je_document e) (Some STOCK_MOVE_POSTS_LINK) = Inr (l, db')"
    "jec_posting_date c = sv_move_date ev" "jec_document_type c = COGS" "jec_currency c = or_default code"
    "jec_lines c = valuation_lines ev (or_default code)"
  using assms
  by (fastforce simp: post_stock_valuation_journal_def valuation_lines_def Let_def elim!: bindr_InrE split: if_splits)

lemma handler_effect:
  assumes h: "post_stock_valuation_journal ev db = Inr db'" and wf: "books_wf db"
  shows "books_wf db'" and "fin_db.more db' = fin_db.more db" and "uuid_supply db \<le> uuid_supply db'"
    and "valuation_booked ev db db'"
proof -
  have "books_wf db' \<and> fin_db.more db' = fin_db.more db \<and> uuid_supply db \<le> uuid_supply db' \<and>
    valuation_booked ev db db'"
  using h
  proof (cases rule: handler_Inr)
    case (posts code c e db1 e' db2 l)
    note B = booking_effect [OF wf posts(3,4)] and K = link_documents_frame [OF posts(5)] and L = link_documents_Inr [OF posts(5)]
    have lines: "entry_lines db' i = entry_lines db2 i" "posted_lines db' = posted_lines db2" for i
      by (simp_all add: entry_lines_def posted_lines_def fin_frame(7) [OF K(1)])
    have "journal_of_move db' ev (or_default code) e'"
      using B L posts by (auto simp: journal_of_move_def lines fin_frame(6) [OF K(1)])
    moreover have "books_wf db'" by (rule books_wf_core [OF B(1) K(1,2)])
    moreover obtain ev' where "pending_events db2 = pending_events db1 @ [ev']"
      "\<forall>sv. ev' \<noteq> StockValued sv"
      by (rule post_entry_events [OF posts(4)]) auto
    ultimately show ?thesis
      unfolding valuation_booked_def
      using posts(1,2) B(2-4,14) K draft_effect(4) [OF wf posts(3)] fin_frame(6,8) [OF K(1)] by (auto simp: lines)
  qed (use wf in \<open>auto simp: valuation_booked_def\<close>)
  then show "books_wf db'" and "fin_db.more db' = fin_db.more db" and "uuid_supply db \<le> uuid_supply db'"
    and "valuation_booked ev db db'"
    by blast+
qed

lemma handler_keeps_books:
  "post_stock_valuation_journal ev db = Inr db' \<Longrightarrow> books_wf db \<Longrightarrow> books_wf db'"
  using handler_effect by blast

interpretation cogs: uow_invariant handlers_for books_wf
proof
  fix h ev db db'
  assume "h \<in> set (handlers_for ev)" "books_wf db" "h db = Inr db'"
  then show "books_wf db'" using handler_keeps_books by (cases ev) (auto simp: handlers_for_def)
next
  fix db :: "'m fin_db_scheme" and evs
  assume "books_wf db"
  then show "books_wf (db\<lparr>pending_events := evs\<rparr>)" by (rule books_wf_core) simp_all
qed

subsection \<open>A move and its journal\<close>

lemma journal_of_move_pending [simp]: "journal_of_move (db\<lparr>pending_events := evs\<rparr>) ev cur e = journal_of_move db ev cur e"
  by (simp add: journal_of_move_def entry_lines_def)

lemma fin_more_pending: "fin_db.more (db\<lparr>pending_events := evs\<rparr>) = fin_db.more (db :: 'm fin_db_scheme)"
  by simp

lemma stock_wf_fin:
  assumes "fin_db.more db' = fin_db.more db" and "uuid_supply db \<le> uuid_supply db'"
  shows "on_hand db' = on_hand db" and "stock_wf db \<Longrightarrow> stock_wf db'"
proof -
  show oh: "on_hand db' = on_hand db" unfolding on_hand_def [abs_def] inv_frame_fin [OF assms(1)] ..
  assume "stock_wf db"
  then show "stock_wf db'"
    using assms(2) unfolding stock_wf_def quants_wf_def ledger_on_hand_def oh inv_frame_fin [OF assms(1)]
    by (meson less_le_trans)
qed

text \<open>The drain of the one event a move publishes.\<close>

lemma drain_valuation:
  assumes d: "drain_and_dispatch handlers_for db 0 = Inr db'" and ev: "pending_events db = [StockValued ev]"
    and wf: "books_wf db"
  obtains db2 where "post_stock_valuation_journal ev (db\<lparr>pending_events := []\<rparr>) = Inr db2"
    and "db' = db2\<lparr>pending_events := []\<rparr>"
proof -
  let ?db = "db\<lparr>pending_events := []\<rparr>"
  from d obtain db2 where h: "post_stock_valuation_journal ev ?db = Inr db2"
    and d2: "drain_and_dispatch handlers_for db2 1 = Inr db'"
    by (auto simp: drain_Cons [OF ev] handlers_for_def MAX_DISPATCHES_PER_UOW_def elim!: bindr_InrE)
  have "books_wf ?db" using wf by (rule books_wf_core) simp_all
  then have "pending_events db2 = [] \<or> (\<exists>ev'. pending_events db2 = [ev'] \<and> (\<forall>sv. ev' \<noteq> StockValued sv))"
    using handler_effect(4) [OF h] by (auto simp: valuation_booked_def split: if_splits)
  then have "db' = db2\<lparr>pending_events := []\<rparr>" using d2 by (auto simp: drain_Nil drain_Cons handlers_for_def split: domain_event.splits)
  with h show thesis by (rule that)
qed

text \<open>
  C28. A stock move and its journal commit together or not at all. When the unit of work of a move
  commits, the move was accepted, the on-hand rows changed by exactly its effect, the stock and
  the books are well formed, no event is left over, and if the move was valued, then unless its
  postings cancel out there is exactly one new entry: a posted COGS entry dated with the move,
  balanced, whose lines are the valuation's lines, linked to the move's document. When any part
  fails (say the accounting period is closed) the database is as before.
\<close>

theorem move_commits_with_journal:
  assumes wf: "books_wf db" "stock_wf db" "pending_events db = []"
    and q: "on_grid QUANTITY_SCALE (smc_quantity p)"
  shows "case move_uow t p off db of
      Inl e \<Rightarrow> uow_outcome handlers_for (\<lambda>db. bindr (create_move db t p None off) (\<lambda>(_, db1). Inr db1)) db = db
    | Inr db' \<Rightarrow> \<exists>m db1. create_move db t p None off = Inr (m, db1) \<and> books_wf db' \<and> stock_wf db' \<and>
        pending_events db' = [] \<and> (\<forall>k. on_hand db' k = on_hand db k + move_effect m k) \<and>
        (pending_events db1 = [] \<and> journal_entries db' = journal_entries db \<or>
         (\<exists>ev code. pending_events db1 = [StockValued ev] \<and> is_valuation_of m (StockValued ev) \<and>
           functional_currency_or_none db1 (sv_tenant ev) = Inr code \<and>
           (if length (valuation_lines ev (or_default code)) < 2 then journal_entries db' = journal_entries db
            else \<exists>e. journal_entries db' = journal_entries db @ [e] \<and> journal_of_move db' ev (or_default code) e)))"
proof (cases "move_uow t p off db")
  case (Inl e)
  then show ?thesis using wf(3) by (simp add: move_uow_def uow_outcome_def)
next
  case (Inr db')
  then obtain m db1 where cm: "create_move db t p None off = Inr (m, db1)"
    and dr: "drain_and_dispatch handlers_for db1 0 = Inr db'"
    by (auto simp: move_uow_def run_in_uow_def elim!: bindr_InrE)
  have "quants_wf db" using wf(2) by (simp add: stock_wf_def)
  note E = create_move_effect [OF cm this q]
  have W1: "books_wf db1" using wf(1) E(6) unfolding books_wf_def entry_lines_def E(4,5) by (meson less_le_trans)
  have S1: "stock_wf db1" by (rule create_move_wf [OF cm wf(2) q])
  have empty: "pending_events db' = []" by (rule drain_empties [OF dr])
  obtain ev where ev: "pending_events db1 = (case ev of None \<Rightarrow> [] | Some e \<Rightarrow> [StockValued e])"
    "\<forall>e. ev = Some e \<longrightarrow> is_valuation_of m (StockValued e)" using E(7) wf(3) by auto
  show ?thesis
  proof (cases ev)
    case None
    then have "db' = db1" using ev dr by (simp add: drain_Nil)
    then show ?thesis using Inr cm W1 S1 E(2,4) ev None by auto
  next
    case (Some sv)
    with ev have p1: "pending_events db1 = [StockValued sv]" by simp
    obtain db2 where h: "post_stock_valuation_journal sv (db1\<lparr>pending_events := []\<rparr>) = Inr db2"
      and db': "db' = db2\<lparr>pending_events := []\<rparr>" by (rule drain_valuation [OF dr p1 W1])
    have "books_wf (db1\<lparr>pending_events := []\<rparr>)" using W1 by (rule books_wf_core) simp_all
    note H = handler_effect [OF h this]
    have fm: "fin_db.more db' = fin_db.more db1"
      unfolding db' fin_more_pending H(2) ..
    have "uuid_supply db1 \<le> uuid_supply db'" using H(3) by (simp add: db')
    note S = stock_wf_fin [OF fm this]
    have "books_wf db'" unfolding db' by (rule books_wf_core [OF H(1)]) simp_all
    moreover obtain code where "functional_currency_or_none db1 (sv_tenant sv) = Inr code \<and>
        (if length (valuation_lines sv (or_default code)) < 2 then journal_entries db' = journal_entries db
         else \<exists>e. journal_entries db' = journal_entries db @ [e] \<and> journal_of_move db' sv (or_default code) e)"
      using H(4) E(4) by (auto simp: valuation_booked_def db' functional_currency_or_none_def split: if_splits)
    ultimately show ?thesis using Inr cm S S1 E(2) p1 ev(2) Some empty by auto
  qed
qed

text \<open>The receipt of the sample tenant, in its unit of work: one COGS entry is posted for it.\<close>

theorem move_commits_with_journal_witness:
  "\<exists>db'. move_uow 1 sample_receipt (Some 300) empty_stock = Inr db' \<and> books_wf db' \<and> stock_wf db' \<and>
     pending_events db' = [] \<and> map je_status (journal_entries db') = [POSTED]"
proof -
  have "case move_uow 1 sample_receipt (Some 300) empty_stock of
      Inl _ \<Rightarrow> False | Inr db' \<Rightarrow> map je_status (journal_entries db') = [POSTED]" by code_simp
  then obtain db' where db': "move_uow 1 sample_receipt (Some 300) empty_stock = Inr db'"
    "map je_status (journal_entries db') = [POSTED]" by (auto split: sum.splits)
  have "books_wf empty_stock" "pending_events empty_stock = []" "on_grid QUANTITY_SCALE (smc_quantity sample_receipt)"
    by code_simp+
  then show ?thesis
    using move_commits_with_journal [OF _ empty_stock_wf, of sample_receipt 1 "Some 300"] db' by auto
qed

end
