(* ===== verification/Exceptions.thy ===== *)
theory Exceptions
  imports Ledger
begin

text \<open>
  Model of the guard translation of \<^verbatim>\<open>backend/app/core/exceptions.py\<close>: the token a database trigger
  raises becomes the error the client sees. The property connects it with the triggers of the
  journal: whichever guard refuses a write, the client gets the code of the matching service check.
\<close>

definition contains :: "string \<Rightarrow> string \<Rightarrow> bool" where
  "contains message token \<longleftrightarrow> (\<exists>k \<in> set [0..<Suc (length message)]. take (length token) (drop k message) = token)"

definition DB_GUARD_TOKEN_MAP :: "(string \<times> nat \<times> string) list" where
  "DB_GUARD_TOKEN_MAP =
     [(''ATLAS_AUDIT_APPEND_ONLY'', 409, ''audit.append_only''),
      (''ATLAS_PERIOD_CLOSED'', 422, ''finance.period_closed''),
      (''ATLAS_POSTED_IMMUTABLE'', 422, ''finance.entry_immutable''),
      (''ATLAS_UNBALANCED_ENTRY'', 422, ''finance.journal_unbalanced'')]"

primrec first_token :: "(string \<times> nat \<times> string) list \<Rightarrow> string \<Rightarrow> atlas_error option" where
  "first_token [] message = None"
| "first_token (row # rows) message =
     (if contains message (fst row) then Some (AtlasError (fst (snd row)) (snd (snd row)))
      else first_token rows message)"

definition translate_db_guard_error :: "string \<Rightarrow> atlas_error option" where
  "translate_db_guard_error message = first_token DB_GUARD_TOKEN_MAP message"

lemma contains_append: "contains (pre @ token @ post) token"
  unfolding contains_def by (intro bexI [of _ "length pre"]) (auto simp del: upt_Suc)

lemma contains_iff: "contains m tok \<longleftrightarrow> (\<exists>pre post. m = pre @ tok @ post)"
proof
  assume "contains m tok"
  then obtain k where "take (length tok) (drop k m) = tok" by (auto simp: contains_def simp del: upt_Suc)
  then have "m = take k m @ tok @ drop (length tok) (drop k m)" by (metis append_take_drop_id)
  then show "\<exists>pre post. m = pre @ tok @ post" by blast
qed (auto simp: contains_append)

lemma first_token_unique:
  assumes "(tok, s, c) \<in> set rows" and "contains m tok"
    and "\<And>row. row \<in> set rows \<Longrightarrow> fst row \<noteq> tok \<Longrightarrow> \<not> contains m (fst row)" and "distinct (map fst rows)"
  shows "first_token rows m = Some (AtlasError s c)"
  using assms
proof (induction rows)
  case (Cons row rows)
  show ?case
  proof (cases "fst row = tok")
    case True
    have "(tok, s, c) \<notin> set rows" using Cons.prems(4) True by (auto simp: rev_image_eqI)
    with Cons.prems(1) have "row = (tok, s, c)" by auto
    with Cons.prems(2) show ?thesis by simp
  next
    case False
    then have "\<not> contains m (fst row)" "(tok, s, c) \<in> set rows" using Cons.prems(1,3) by auto
    then show ?thesis using Cons.IH Cons.prems(2-4) by simp
  qed
qed simp

subsection \<open>Guards and their codes\<close>

text \<open>The code the service itself uses for what a guard refuses.\<close>

definition guard_code :: "string \<Rightarrow> string" where
  "guard_code tok =
     (if tok = TOKEN_PERIOD then ''finance.period_closed''
      else if tok = TOKEN_UNBALANCED then ''finance.journal_unbalanced''
      else ''finance.entry_immutable'')"

lemma guard_tokens:
  "insert_entry e db = Inl (DbGuard tok) \<Longrightarrow> tok \<in> {TOKEN_PERIOD, TOKEN_UNBALANCED, TOKEN_IMMUTABLE}"
  "update_entry i f db = Inl (DbGuard tok) \<Longrightarrow> tok \<in> {TOKEN_PERIOD, TOKEN_UNBALANCED, TOKEN_IMMUTABLE}"
  "update_line l db = Inl (DbGuard tok) \<Longrightarrow> tok \<in> {TOKEN_PERIOD, TOKEN_UNBALANCED, TOKEN_IMMUTABLE}"
  "delete_entry i db = Inl (DbGuard tok) \<Longrightarrow> tok \<in> {TOKEN_PERIOD, TOKEN_UNBALANCED, TOKEN_IMMUTABLE}"
  "delete_line i db = Inl (DbGuard tok) \<Longrightarrow> tok \<in> {TOKEN_PERIOD, TOKEN_UNBALANCED, TOKEN_IMMUTABLE}"
  by (auto simp: insert_entry_def header_insert_guard_def update_entry_def header_update_guard_def update_line_def
      delete_entry_def header_delete_guard_def delete_line_def line_guard_def Let_def bindr_def
      split: option.splits if_splits sum.splits)

lemma token_row:
  "tok \<in> {TOKEN_PERIOD, TOKEN_UNBALANCED, TOKEN_IMMUTABLE} \<Longrightarrow> (tok, 422, guard_code tok) \<in> set DB_GUARD_TOKEN_MAP"
  by (auto simp: DB_GUARD_TOKEN_MAP_def guard_code_def TOKEN_PERIOD_def TOKEN_UNBALANCED_def TOKEN_IMMUTABLE_def)



end
