(* ===== verification/Ap_Db.thy ===== *)
theory Ap_Db
  imports Inv_Db
begin

text \<open>
  The tables of accounts payable and of the configuration that the subledgers share: tax codes
  (\<^verbatim>\<open>finance/models/tax.py\<close>), posting defaults (\<^verbatim>\<open>finance/models/fx.py\<close>), vendor bills, payments and
  allocations (\<^verbatim>\<open>finance/models/payables.py\<close>). \<open>ap_db\<close> extends \<open>inv_db\<close>.
\<close>

datatype tax_direction = OUTPUT | INPUT

datatype bill_status = BILL_DRAFT | BILL_POSTED | BILL_PARTIALLY_PAID | BILL_PAID | BILL_REVERSED

fun bill_status_str :: "bill_status \<Rightarrow> string" where
  "bill_status_str BILL_DRAFT = ''DRAFT''"
| "bill_status_str BILL_POSTED = ''POSTED''"
| "bill_status_str BILL_PARTIALLY_PAID = ''PARTIALLY_PAID''"
| "bill_status_str BILL_PAID = ''PAID''"
| "bill_status_str BILL_REVERSED = ''REVERSED''"

record tax_code =
  tc_id :: uuid
  tc_tenant :: uuid
  tc_code :: string
  tc_name :: string
  tc_rate_percent :: decimal
  tc_jurisdiction :: "string option"
  tc_is_inclusive :: bool
  tc_is_active :: bool
  tc_payable_account :: "uuid option"
  tc_receivable_account :: "uuid option"

record posting_default =
  pd_id :: uuid
  pd_tenant :: uuid
  pd_purpose :: string
  pd_account :: uuid

record vendor_bill =
  vb_id :: uuid
  vb_tenant :: uuid
  vb_document :: uuid
  vb_partner :: uuid
  vb_partner_name :: string
  vb_external_ref :: "string option"
  vb_number :: "string option"
  vb_date :: date
  vb_due_date :: date
  vb_currency :: string
  vb_status :: bill_status
  vb_ap_account :: uuid
  vb_entry :: "uuid option"
  vb_gross :: decimal
  vb_tax :: decimal
  vb_net :: decimal
  vb_open :: decimal
  vb_description :: "string option"

record vendor_bill_line =
  vbl_id :: uuid
  vbl_tenant :: uuid
  vbl_bill :: uuid
  vbl_number :: nat
  vbl_account :: uuid
  vbl_description :: "string option"
  vbl_net :: decimal
  vbl_tax_code :: "uuid option"
  vbl_tax :: decimal
  vbl_cost_center :: "uuid option"
  vbl_project :: "uuid option"

record vendor_payment =
  vp_id :: uuid
  vp_tenant :: uuid
  vp_document :: uuid
  vp_partner :: uuid
  vp_partner_name :: string
  vp_number :: "string option"
  vp_date :: date
  vp_currency :: string
  vp_bank_account :: uuid
  vp_amount :: decimal
  vp_entry :: "uuid option"
  vp_description :: "string option"

record vendor_payment_allocation =
  vpa_id :: uuid
  vpa_tenant :: uuid
  vpa_payment :: uuid
  vpa_bill :: uuid
  vpa_amount :: decimal

record ap_db = inv_db +
  tax_codes :: "tax_code list"
  posting_defaults :: "posting_default list"
  vendor_bills :: "vendor_bill list"
  vendor_bill_lines :: "vendor_bill_line list"
  vendor_payments :: "vendor_payment list"
  vendor_payment_allocations :: "vendor_payment_allocation list"

subsection \<open>A sample tenant\<close>

text \<open>A sample tenant with an expense, an AP, a bank and an exchange account.\<close>

definition sample_ap :: ap_db where
  "sample_ap =
     \<lparr>uuid_supply = 50, today = Date 2024 3 5, now = 7,
      number_sequences = [], number_counters = [], documents = [], doc_links = [], pending_events = [],
      accounts = map (\<lambda>i. \<lparr>acc_id = i, acc_tenant = 1, acc_code = ''A'', acc_type = (if i = 10 then EXPENSE else ASSET), acc_is_postable = True\<rparr>) [10, 20, 30, 40],
      fiscal_years = [],
      fiscal_periods = [\<lparr>fp_id = 2, fp_tenant = 1, fp_year = 1, fp_number = 1,
        fp_start = Date 2024 3 1, fp_end = Date 2024 3 31, fp_status = OPEN\<rparr>],
      currencies = [], exchange_rates = [], cost_centers = [], profit_centers = [],
      journal_entries = [], journal_lines = [],
      items = [], item_categories = [], stock_bins = [], lots = [], serials = [], stock_moves = [],
      stock_quants = [], item_valuations = [], cost_layers = [], layer_consumptions = [],
      tax_codes = [], posting_defaults = [], vendor_bills = [], vendor_bill_lines = [],
      vendor_payments = [], vendor_payment_allocations = []\<rparr>"

end
