(* ===== verification/Tax.thy ===== *)
theory Tax
  imports Ap_Db
begin

text \<open>
  Model of the tax engine (\<^verbatim>\<open>finance/service/tax.py\<close>): the calculation for one line, inclusive or
  exclusive, the grouping of a document's lines into one tax line per code and direction, and the
  maintenance of tax codes. The lemmas show that net and tax always make up the gross, that a
  document's tax lines account for its tax exactly down to the line, and how far rounding goes.
\<close>

subsection \<open>Calculation\<close>

record tax_calculation =
  cal_code :: string
  cal_direction :: tax_direction
  cal_net :: decimal
  cal_tax :: decimal
  cal_gross :: decimal
  cal_account :: "uuid option"

record tax_line =
  tl_code :: string
  tl_direction :: tax_direction
  tl_account :: "uuid option"
  tl_taxable_net :: decimal
  tl_tax :: decimal
  tl_line_tax :: "decimal list"

record document_tax_summary =
  dts_net_total :: decimal
  dts_tax_total :: decimal
  dts_gross_total :: decimal
  dts_tax_lines :: "tax_line list"

definition rate_fraction :: "tax_code \<Rightarrow> decimal" where
  "rate_fraction tc = ddiv (tc_rate_percent tc) 100"

definition account_for :: "tax_code \<Rightarrow> tax_direction \<Rightarrow> uuid option" where
  "account_for tc direction =
     (if direction = OUTPUT then tc_payable_account tc else tc_receivable_account tc)"

definition calculate_line_tax :: "decimal \<Rightarrow> tax_code \<Rightarrow> tax_direction \<Rightarrow> string \<Rightarrow> tax_calculation" where
  "calculate_line_tax base_amount tc direction currency_code =
     (let places = currency_decimals currency_code;
          rate = rate_fraction tc;
          (net_amount, tax, gross) =
            (if tc_is_inclusive tc
             then let gross = quantize_money base_amount places;
                      n = quantize_money (ddiv base_amount (dadd 1 rate)) places
                  in (n, gross - n, gross)
             else let n = quantize_money base_amount places;
                      t = quantize_money (dmul n rate) places
                  in (n, t, n + t))
      in \<lparr>cal_code = tc_code tc, cal_direction = direction, cal_net = net_amount, cal_tax = tax,
          cal_gross = gross, cal_account = account_for tc direction\<rparr>)"

text \<open>The running group of a (code, direction) key: the first code object, its account, the net and the line nets.\<close>

record tax_group =
  tg_tax_code :: tax_code
  tg_direction :: tax_direction
  tg_account :: "uuid option"
  tg_net :: decimal
  tg_line_nets :: "decimal list"

definition group_key :: "tax_group \<Rightarrow> string \<times> tax_direction" where
  "group_key g = (tc_code (tg_tax_code g), tg_direction g)"

text \<open>One turn of the loop over the lines: a dict in insertion order, keyed by code and direction.\<close>

fun add_to_group :: "tax_code \<Rightarrow> tax_direction \<Rightarrow> tax_calculation \<Rightarrow> tax_group list \<Rightarrow> tax_group list" where
  "add_to_group tc d calc [] =
     [\<lparr>tg_tax_code = tc, tg_direction = d, tg_account = cal_account calc, tg_net = cal_net calc,
       tg_line_nets = [cal_net calc]\<rparr>]"
| "add_to_group tc d calc (g # gs) =
     (if group_key g = (tc_code tc, d)
      then g\<lparr>tg_net := tg_net g + cal_net calc, tg_line_nets := tg_line_nets g @ [cal_net calc]\<rparr> # gs
      else g # add_to_group tc d calc gs)"

definition group_tax :: "nat \<Rightarrow> tax_group \<Rightarrow> decimal" where
  "group_tax places g =
     (let rate = rate_fraction (tg_tax_code g)
      in if tc_is_inclusive (tg_tax_code g)
         then quantize_money (dmul (tg_net g) (dadd 1 rate)) places - tg_net g
         else quantize_money (dmul (tg_net g) rate) places)"

definition group_line :: "nat \<Rightarrow> tax_group \<Rightarrow> tax_line" where
  "group_line places g =
     \<lparr>tl_code = tc_code (tg_tax_code g), tl_direction = tg_direction g, tl_account = tg_account g,
      tl_taxable_net = tg_net g, tl_tax = group_tax places g,
      tl_line_tax = allocate (group_tax places g) (tg_line_nets g) places\<rparr>"

definition calculate_document_tax ::
  "(decimal \<times> tax_code \<times> tax_direction) list \<Rightarrow> string \<Rightarrow> document_tax_summary" where
  "calculate_document_tax lines currency_code =
     (let places = currency_decimals currency_code;
          calcs = map (\<lambda>(b, tc, d). (tc, d, calculate_line_tax b tc d currency_code)) lines;
          net_total = sum_list (map (\<lambda>(_, _, c). cal_net c) calcs);
          groups = fold (\<lambda>(tc, d, c). add_to_group tc d c) calcs [];
          tax_lines = map (group_line places) groups;
          tax_total = sum_list (map tl_tax tax_lines)
      in \<lparr>dts_net_total = net_total, dts_tax_total = tax_total, dts_gross_total = net_total + tax_total,
          dts_tax_lines = tax_lines\<rparr>)"

subsection \<open>Tax codes\<close>

record tax_code_create =
  tcc_code :: string
  tcc_name :: string
  tcc_rate_percent :: decimal
  tcc_jurisdiction :: "string option"
  tcc_is_inclusive :: bool
  tcc_is_active :: bool
  tcc_payable_account :: "uuid option"
  tcc_receivable_account :: "uuid option"

text \<open>
  An update carries the fields that were set (\<open>None\<close>: not set), each possibly to null; a null in a
  column that must not be null fails when the row is flushed.
\<close>

record tax_code_update =
  tcu_name :: "string option option"
  tcu_rate_percent :: "decimal option option"
  tcu_jurisdiction :: "string option option"
  tcu_is_inclusive :: "bool option option"
  tcu_is_active :: "bool option option"
  tcu_payable_account :: "uuid option option"
  tcu_receivable_account :: "uuid option option"

definition tax_code_by_code :: "'m ap_db_scheme \<Rightarrow> uuid \<Rightarrow> string \<Rightarrow> tax_code option result" where
  "tax_code_by_code db tenant code =
     one_or_none (filter (\<lambda>c. tc_tenant c = tenant \<and> tc_code c = code) (tax_codes db))"

definition find_account :: "'m fin_db_scheme \<Rightarrow> uuid \<Rightarrow> uuid \<Rightarrow> string \<Rightarrow> account result" where
  "find_account db tenant account_id code =
     bindr (one_or_none (filter (\<lambda>a. acc_tenant a = tenant \<and> acc_id a = account_id) (accounts db)))
       (\<lambda>a. case a of None \<Rightarrow> Inl (ValidationFailedError code) | Some a \<Rightarrow> Inr a)"

definition require_tax_account :: "'m ap_db_scheme \<Rightarrow> uuid \<Rightarrow> uuid option \<Rightarrow> unit result" where
  "require_tax_account db tenant account =
     (case account of
        None \<Rightarrow> Inr ()
      | Some a \<Rightarrow> bindr (find_account db tenant a ''finance.tax_account_not_found'') (\<lambda>_. Inr ()))"

definition get_tax_code :: "'m ap_db_scheme \<Rightarrow> uuid \<Rightarrow> uuid \<Rightarrow> tax_code result" where
  "get_tax_code db tenant i =
     (case find_row tc_id i (tax_codes db) of
        None \<Rightarrow> Inl (NotFoundError ''finance.tax_code_not_found'')
      | Some c \<Rightarrow> if tc_tenant c \<noteq> tenant then Inl (NotFoundError ''finance.tax_code_not_found'') else Inr c)"

definition create_tax_code ::
  "'m ap_db_scheme \<Rightarrow> uuid \<Rightarrow> tax_code_create \<Rightarrow> (tax_code \<times> 'm ap_db_scheme) result" where
  "create_tax_code db tenant payload =
     bindr (tax_code_by_code db tenant (tcc_code payload)) (\<lambda>existing.
     if existing \<noteq> None then Inl (ConflictError ''finance.tax_code_conflict'')
     else bindr (require_tax_account db tenant (tcc_payable_account payload)) (\<lambda>_.
     bindr (require_tax_account db tenant (tcc_receivable_account payload)) (\<lambda>_.
     case uuid4 db of (i, db1) \<Rightarrow>
     let c = \<lparr>tc_id = i, tc_tenant = tenant, tc_code = tcc_code payload, tc_name = tcc_name payload,
              tc_rate_percent = store_money (tcc_rate_percent payload),
              tc_jurisdiction = tcc_jurisdiction payload, tc_is_inclusive = tcc_is_inclusive payload,
              tc_is_active = tcc_is_active payload, tc_payable_account = tcc_payable_account payload,
              tc_receivable_account = tcc_receivable_account payload\<rparr>
     in Inr (c, db1\<lparr>tax_codes := tax_codes db1 @ [c]\<rparr>))))"

definition set_if :: "'a option \<Rightarrow> 'a \<Rightarrow> 'a" where
  "set_if v old = (case v of None \<Rightarrow> old | Some x \<Rightarrow> x)"

definition apply_tax_update :: "tax_code_update \<Rightarrow> tax_code \<Rightarrow> tax_code result" where
  "apply_tax_update p c =
     (if tcu_name p = Some None \<or> tcu_rate_percent p = Some None \<or> tcu_is_inclusive p = Some None \<or>
         tcu_is_active p = Some None
      then Inl (IntegrityError ''NOT NULL'')
      else Inr (c\<lparr>tc_name := set_if (Option.bind (tcu_name p) id) (tc_name c),
        tc_rate_percent := set_if (map_option store_money (Option.bind (tcu_rate_percent p) id)) (tc_rate_percent c),
        tc_jurisdiction := set_if (tcu_jurisdiction p) (tc_jurisdiction c),
        tc_is_inclusive := set_if (Option.bind (tcu_is_inclusive p) id) (tc_is_inclusive c),
        tc_is_active := set_if (Option.bind (tcu_is_active p) id) (tc_is_active c),
        tc_payable_account := set_if (tcu_payable_account p) (tc_payable_account c),
        tc_receivable_account := set_if (tcu_receivable_account p) (tc_receivable_account c)\<rparr>))"

definition update_tax_code ::
  "'m ap_db_scheme \<Rightarrow> uuid \<Rightarrow> uuid \<Rightarrow> tax_code_update \<Rightarrow> (tax_code \<times> 'm ap_db_scheme) result" where
  "update_tax_code db tenant i payload =
     bindr (get_tax_code db tenant i) (\<lambda>c.
     bindr (require_tax_account db tenant (set_if (tcu_payable_account payload) None)) (\<lambda>_.
     bindr (require_tax_account db tenant (set_if (tcu_receivable_account payload) None)) (\<lambda>_.
     bindr (apply_tax_update payload c) (\<lambda>c'.
     Inr (c', db\<lparr>tax_codes := upd_rows (\<lambda>r. tc_id r = i) (\<lambda>_. c') (tax_codes db)\<rparr>)))))"

subsection \<open>One line\<close>

text \<open>A rate as the column can hold it: a percentage with six places, from 0 to 1000.\<close>

definition rate_ok :: "tax_code \<Rightarrow> bool" where
  "rate_ok tc \<longleftrightarrow> 0 \<le> tc_rate_percent tc \<and> tc_rate_percent tc \<le> 1000 \<and> on_grid MONEY_SCALE (tc_rate_percent tc)"

lemma on_grid_div_100: "on_grid p x \<Longrightarrow> on_grid (p + 2) (x / 100)"
proof (elim on_gridE)
  fix n :: int assume "x = of_int n / 10 ^ p"
  then have "x / 100 = of_int n / 10 ^ (p + 2)" by (simp add: power_add)
  then show ?thesis using on_grid_of_int_div by metis
qed

lemma on_grid_mult: "on_grid p x \<Longrightarrow> on_grid q y \<Longrightarrow> on_grid (p + q) (x * y)"
proof (elim on_gridE)
  fix m n :: int assume "x = of_int m / 10 ^ p" "y = of_int n / 10 ^ q"
  then have "x * y = of_int (m * n) / 10 ^ (p + q)" by (simp add: power_add)
  then show ?thesis using on_grid_of_int_div by metis
qed

text \<open>The fraction and the factor are exact in the 28 digits of the context.\<close>

lemma rate_exact:
  assumes "rate_ok tc"
  shows "rate_fraction tc = tc_rate_percent tc / 100" and "dadd 1 (rate_fraction tc) = 1 + tc_rate_percent tc / 100"
    and "on_grid 8 (tc_rate_percent tc / 100)" and "on_grid 8 (1 + tc_rate_percent tc / 100)"
    and "0 \<le> tc_rate_percent tc / 100" and "tc_rate_percent tc / 100 \<le> 10"
proof -
  let ?r = "tc_rate_percent tc / 100"
  show r: "0 \<le> ?r" "?r \<le> 10" using assms by (simp_all add: rate_ok_def)
  show g: "on_grid 8 ?r" using assms on_grid_div_100 [of 6 "tc_rate_percent tc"] by (simp add: rate_ok_def MONEY_SCALE_def)
  have "on_grid 8 1" using on_grid_of_int_div [of 8 "10 ^ 8"] by simp
  then show g1: "on_grid 8 (1 + ?r)" using g by (rule on_grid_add)
  show e: "rate_fraction tc = ?r" unfolding rate_fraction_def ddiv_def by (rule ctx_exact [OF g]) (use r in simp)
  show "dadd 1 (rate_fraction tc) = 1 + ?r" unfolding dadd_def e by (rule ctx_exact [OF g1]) (use r in simp)
qed

lemma dmul_exact:
  assumes "on_grid 6 n" and "on_grid 8 f" and "0 \<le> n" and "n \<le> 10 ^ 12" and "0 \<le> f" and "f \<le> 11"
  shows "dmul n f = n * f"
proof -
  have b: "n * f \<le> 10 ^ 12 * 11" by (rule mult_mono) (use assms in simp_all)
  have "0 \<le> n * f" using assms by simp
  define m where "m = n * f"
  have "0 \<le> m" "m \<le> 10 ^ 12 * 11" using b \<open>0 \<le> n * f\<close> by (simp_all only: m_def)
  then have b: "\<bar>n * f\<bar> * 10 ^ 14 < 10 ^ 28" unfolding m_def [symmetric] by simp
  have "on_grid 14 (n * f)" using on_grid_mult [OF assms(1,2)] by simp
  then show ?thesis unfolding dmul_def using b by (rule ctx_exact)
qed

text \<open>The derived net of an inclusive price never exceeds the price.\<close>

lemma ddiv_le:
  assumes "on_grid 6 b" and "0 \<le> b" and "b \<le> 10 ^ 12" and "on_grid 8 r" and "0 \<le> r"
  shows "ddiv b (1 + r) \<le> b"
proof (cases "r = 0")
  case True
  then show ?thesis using ctx_exact [OF assms(1)] assms(2,3) by (simp add: ddiv_def)
next
  case False
  obtain n :: int where n: "r = of_int n / 10 ^ 8" using assms(4) by (rule on_gridE)
  with False assms(5) have "1 \<le> n" by (simp add: zero_le_divide_iff)
  then have r: "1 / 10 ^ 8 \<le> r" by (simp add: n divide_le_cancel)
  define x where "x = b / (1 + r)"
  have "0 \<le> x" using assms(2,5) by (simp add: x_def)
  then have "ctx x - x \<le> x / (2 * 10 ^ 27)" using order_trans [OF abs_ge_self ctx_err [of x]] by simp
  then have "ctx x \<le> x * (1 + 1 / (2 * 10 ^ 27))" by (simp add: distrib_left)
  also have "\<dots> = b * ((1 + 1 / (2 * 10 ^ 27)) / (1 + r))" by (simp add: x_def)
  also have "\<dots> \<le> b * 1"
    by (rule mult_left_mono) (use assms(2,5) r in simp_all)
  finally show ?thesis by (simp add: ddiv_def x_def)
qed

lemma quantize_money_grid [simp]: "on_grid p (quantize_money x p)"
  by (simp add: quantize_money_def)

lemma on_grid_6: "on_grid (currency_decimals cur) x \<Longrightarrow> on_grid 6 x"
  by (rule on_grid_mono) (use currency_decimals_le [of cur] in \<open>simp_all add: MONEY_SCALE_def\<close>)

lemma quantize_le: "x \<le> 10 ^ 12 \<Longrightarrow> quantize m p x \<le> 10 ^ 12"
proof -
  assume "x \<le> 10 ^ 12"
  then have "quantize m p x \<le> quantize m p (10 ^ 12)" by (rule quantize_mono)
  moreover have "on_grid p (10 ^ 12)" using on_grid_of_int_div [of p "10 ^ 12 * 10 ^ p"] by simp
  ultimately show ?thesis by (simp add: quantize_grid)
qed

lemma line_tax_props:
  fixes b :: decimal and d :: tax_direction and cur :: string
  assumes "rate_ok tc" and "on_grid 6 b" and "0 \<le> b" and "b \<le> 10 ^ 12"
  defines "c \<equiv> calculate_line_tax b tc d cur" and "p \<equiv> currency_decimals cur"
  shows "cal_net c + cal_tax c = cal_gross c" and "on_grid p (cal_net c)" and "on_grid p (cal_tax c)"
    and "0 \<le> cal_net c" and "0 \<le> cal_tax c" and "cal_net c \<le> 10 ^ 12"
    and "tc_is_inclusive tc \<Longrightarrow> cal_gross c = quantize_money b p"
    and "\<not> tc_is_inclusive tc \<Longrightarrow> cal_net c = quantize_money b p \<and>
      cal_tax c = quantize_money (cal_net c * (tc_rate_percent tc / 100)) p"
proof -
  let ?n = "quantize_money b p"
  define r where "r = tc_rate_percent tc / 100"
  note R = rate_exact [OF assms(1), folded r_def]
  have q: "0 \<le> ?n" "?n \<le> 10 ^ 12" "on_grid 6 ?n"
    using assms(3,4) quantize_nonneg quantize_le on_grid_6 [of cur ?n] by (simp_all add: quantize_money_def p_def)
  have "ddiv b (1 + r) \<le> b" by (rule ddiv_le [OF assms(2-4) R(3,5)])
  moreover have "0 \<le> ddiv b (1 + r)" using assms(3) R(5) by (intro ddiv_nonneg) simp_all
  ultimately have i: "0 \<le> quantize_money (ddiv b (1 + r)) p"
    "quantize_money (ddiv b (1 + r)) p \<le> ?n"
    unfolding quantize_money_def by (simp_all add: quantize_nonneg quantize_mono)
  have m: "dmul ?n r = ?n * r"
    by (rule dmul_exact) (use q R in simp_all)
  have t: "0 \<le> quantize_money (?n * r) p"
    unfolding quantize_money_def [of "_ * _"] by (rule quantize_nonneg) (use q(1) R(5) in simp)
  show "cal_net c + cal_tax c = cal_gross c"
    by (simp add: c_def calculate_line_tax_def Let_def)
  show "on_grid p (cal_net c)" "on_grid p (cal_tax c)"
    by (simp_all add: c_def p_def calculate_line_tax_def Let_def on_grid_diff)
  show "0 \<le> cal_net c" "0 \<le> cal_tax c" "cal_net c \<le> 10 ^ 12"
    using q i t R(1,2) m unfolding c_def calculate_line_tax_def Let_def p_def by simp_all
  show "tc_is_inclusive tc \<Longrightarrow> cal_gross c = ?n"
    by (simp add: c_def p_def calculate_line_tax_def Let_def)
  show "\<not> tc_is_inclusive tc \<Longrightarrow> cal_net c = ?n \<and>
      cal_tax c = quantize_money (cal_net c * (tc_rate_percent tc / 100)) p"
    unfolding r_def [symmetric] using R(1) m by (simp add: c_def p_def calculate_line_tax_def Let_def)
qed

subsection \<open>Grouping\<close>

type_synonym taxed_line = "tax_code \<times> tax_direction \<times> tax_calculation"

definition line_key :: "taxed_line \<Rightarrow> string \<times> tax_direction" where
  "line_key l = (tc_code (fst l), fst (snd l))"

definition key_nets :: "string \<times> tax_direction \<Rightarrow> taxed_line list \<Rightarrow> decimal list" where
  "key_nets k ls = map (\<lambda>l. cal_net (snd (snd l))) (filter (\<lambda>l. line_key l = k) ls)"

definition tax_groups :: "taxed_line list \<Rightarrow> tax_group list" where
  "tax_groups ls = fold (\<lambda>(tc, d, c). add_to_group tc d c) ls []"

lemma add_to_group_keys:
  "distinct (map group_key gs) \<Longrightarrow>
   distinct (map group_key (add_to_group tc d c gs)) \<and>
   group_key ` set (add_to_group tc d c gs) = insert (tc_code tc, d) (group_key ` set gs)"
  by (induction gs) (auto simp: group_key_def)

lemma add_to_group_mem:
  assumes "g \<in> set (add_to_group tc d c gs)" and "distinct (map group_key gs)"
  shows "g \<in> set gs \<and> group_key g \<noteq> (tc_code tc, d) \<or>
    (tc_code tc, d) \<notin> group_key ` set gs \<and> g = \<lparr>tg_tax_code = tc, tg_direction = d, tg_account = cal_account c,
       tg_net = cal_net c, tg_line_nets = [cal_net c]\<rparr> \<or>
    (\<exists>h \<in> set gs. group_key h = (tc_code tc, d) \<and>
       g = h\<lparr>tg_net := tg_net h + cal_net c, tg_line_nets := tg_line_nets h @ [cal_net c]\<rparr>)"
  using assms by (induction gs) (auto simp: rev_image_eqI split: if_splits)

lemma sum_add_to_group: "sum_list (map tg_net (add_to_group tc d c gs)) = sum_list (map tg_net gs) + cal_net c"
  by (induction gs) auto

definition group_ok :: "taxed_line list \<Rightarrow> tax_group \<Rightarrow> bool" where
  "group_ok ls g \<longleftrightarrow> tg_line_nets g = key_nets (group_key g) ls \<and> tg_net g = sum_list (tg_line_nets g) \<and>
     tg_line_nets g \<noteq> [] \<and> tg_tax_code g \<in> fst ` set ls"

lemma tax_groups_ok:
  "distinct (map group_key (tax_groups ls)) \<and> group_key ` set (tax_groups ls) = line_key ` set ls \<and>
   sum_list (map tg_net (tax_groups ls)) = sum_list (map (\<lambda>l. cal_net (snd (snd l))) ls) \<and>
   (\<forall>g \<in> set (tax_groups ls). group_ok ls g)"
proof (induction ls rule: rev_induct)
  case (snoc l ls)
  obtain tc d c where l: "l = (tc, d, c)" by (cases l)
  let ?gs = "tax_groups ls"
  have step: "tax_groups (ls @ [l]) = add_to_group tc d c ?gs" by (simp add: tax_groups_def l)
  have dist: "distinct (map group_key ?gs)" and keys: "group_key ` set ?gs = line_key ` set ls"
    and ok: "\<forall>g \<in> set ?gs. group_ok ls g" using snoc.IH by blast+
  have nets: "key_nets k (ls @ [l]) = key_nets k ls @ (if k = (tc_code tc, d) then [cal_net c] else [])" for k
    by (auto simp: key_nets_def line_key_def l)
  have "group_ok (ls @ [l]) g" if "g \<in> set (add_to_group tc d c ?gs)" for g
    using add_to_group_mem [OF that dist]
  proof (elim disjE bexE conjE)
    assume "g \<in> set ?gs" "group_key g \<noteq> (tc_code tc, d)"
    then show ?thesis using ok by (auto simp: group_ok_def nets)
  next
    assume n: "(tc_code tc, d) \<notin> group_key ` set ?gs" and g: "g = \<lparr>tg_tax_code = tc, tg_direction = d, tg_account = cal_account c,
       tg_net = cal_net c, tg_line_nets = [cal_net c]\<rparr>"
    have "key_nets (tc_code tc, d) ls = []" using n unfolding keys by (auto simp: key_nets_def filter_empty_conv image_iff)
    moreover have "fst l = tc" by (simp add: l)
    ultimately show ?thesis by (simp add: group_ok_def nets g group_key_def)
  next
    fix h assume h: "h \<in> set ?gs" "group_key h = (tc_code tc, d)"
      and g: "g = h\<lparr>tg_net := tg_net h + cal_net c, tg_line_nets := tg_line_nets h @ [cal_net c]\<rparr>"
    have "group_key g = group_key h" by (simp add: g group_key_def)
    then show ?thesis using ok h by (auto simp: group_ok_def nets g)
  qed
  moreover have "line_key l = (tc_code tc, d)" "cal_net (snd (snd l)) = cal_net c" by (simp_all add: line_key_def l)
  ultimately show ?case
    using add_to_group_keys [OF dist, of tc d c] keys snoc.IH unfolding step by (simp add: sum_add_to_group)
qed (simp add: tax_groups_def)

lemma key_nets_sum_le:
  assumes "\<And>l. l \<in> set ls \<Longrightarrow> 0 \<le> cal_net (snd (snd l))"
  shows "sum_list (key_nets k ls) \<le> sum_list (map (\<lambda>l. cal_net (snd (snd l))) ls)"
  using assms by (induction ls) (auto simp: key_nets_def add_increasing)

subsection \<open>Tax of a group\<close>

lemma quantize_shift:
  assumes "on_grid p n" and "0 \<le> n" and "0 \<le> x"
  shows "quantize ROUND_HALF_UP p (n + x) = n + quantize ROUND_HALF_UP p x"
proof -
  obtain k :: int where k: "n = of_int k / 10 ^ p" using assms(1) by (rule on_gridE)
  have "(n + x) * 10 ^ p + 1 / 2 = of_int k + (x * 10 ^ p + 1 / 2)" by (simp add: k distrib_right)
  then have "\<lfloor>(n + x) * 10 ^ p + 1 / 2\<rfloor> = k + \<lfloor>x * 10 ^ p + 1 / 2\<rfloor>" by (simp only: int_add_floor)
  then show ?thesis using assms(2,3) by (simp add: quantize_def scale_round_def round_half_up_def k add_divide_distrib)
qed

text \<open>Whether the price includes the tax or not, the tax of a group is its net times the rate, rounded once.\<close>

lemma group_tax_props:
  fixes cur :: string
  assumes "rate_ok (tg_tax_code g)" and "on_grid (currency_decimals cur) (tg_net g)" and "0 \<le> tg_net g" and "tg_net g \<le> 10 ^ 12"
  defines "r \<equiv> tc_rate_percent (tg_tax_code g) / 100" and "p \<equiv> currency_decimals cur"
  shows "group_tax p g = quantize_money (tg_net g * r) p"
    and "0 \<le> group_tax p g" and "on_grid p (group_tax p g)" and "group_tax p g * 10 ^ p < 10 ^ 26"
proof -
  note R = rate_exact [OF assms(1), folded r_def]
  let ?n = "tg_net g"
  have g6: "on_grid 6 ?n" using assms(2) by (rule on_grid_6)
  have m: "dmul ?n r = ?n * r" "dmul ?n (1 + r) = ?n + ?n * r"
    using dmul_exact [OF g6 _ assms(3,4)] R by (simp_all add: distrib_left)
  have "quantize_money (?n + ?n * r) p = ?n + quantize_money (?n * r) p"
    using quantize_shift [OF assms(2,3)] assms(3) R(5) by (simp add: quantize_money_def p_def)
  then show eq: "group_tax p g = quantize_money (?n * r) p"
    using R(1,2) m by (simp add: group_tax_def)
  have nn: "0 \<le> ?n * r" using assms(3) R(5) by simp
  then show pos: "0 \<le> group_tax p g" and "on_grid p (group_tax p g)"
    unfolding eq by (simp_all add: quantize_money_def quantize_nonneg)
  have "?n * r \<le> 10 ^ 12 * 10" by (rule mult_mono) (use assms(3,4) R(5,6) in simp_all)
  moreover have "10 ^ 12 * 10 = (10 :: rat) ^ 13" by simp
  ultimately have "quantize_money (?n * r) p \<le> quantize_money (10 ^ 13) p"
    unfolding quantize_money_def by (metis quantize_mono)
  also have "\<dots> = 10 ^ 13"
    using on_grid_of_int_div [of p "10 ^ 13 * 10 ^ p"] by (simp add: quantize_money_def quantize_grid)
  finally have le: "group_tax p g \<le> 10 ^ 13" unfolding eq .
  have "(10::rat) ^ p \<le> 10 ^ 6"
    unfolding p_def by (rule power_increasing) (use currency_decimals_le [of cur] in \<open>simp_all add: MONEY_SCALE_def\<close>)
  then have "group_tax p g * 10 ^ p \<le> 10 ^ 13 * 10 ^ 6" by (intro mult_mono [OF le]) simp_all
  then show "group_tax p g * 10 ^ p < 10 ^ 26" by simp
qed

lemma group_line_exact:
  assumes nets: "\<forall>l \<in> set ls. 0 \<le> cal_net (snd (snd l)) \<and> on_grid p (cal_net (snd (snd l))) \<and> rate_ok (fst l)"
    and total: "sum_list (map (\<lambda>l. cal_net (snd (snd l))) ls) \<le> 10 ^ 12" and len: "length ls \<le> 10 ^ 26"
    and g: "g \<in> set (tax_groups ls)" and p: "p = currency_decimals cur"
  shows "sum_list (tl_line_tax (group_line p g)) = tl_tax (group_line p g)"
    and "length (tl_line_tax (group_line p g)) = length (key_nets (group_key g) ls)"
    and "tl_tax (group_line p g) = quantize_money (tg_net g * (tc_rate_percent (tg_tax_code g) / 100)) p"
proof -
  have ok: "tg_line_nets g = key_nets (group_key g) ls" "tg_net g = sum_list (tg_line_nets g)" "tg_line_nets g \<noteq> []"
    "tg_tax_code g \<in> fst ` set ls" using tax_groups_ok [of ls] g by (auto simp: group_ok_def)
  have w: "0 \<le> w \<and> on_grid p w" if "w \<in> set (tg_line_nets g)" for w
    using that nets unfolding ok(1) key_nets_def by auto
  have "rate_ok (tg_tax_code g)" using ok(4) nets by auto
  moreover have "on_grid p (tg_net g)" "0 \<le> tg_net g"
    unfolding ok(2) using w by (auto intro: on_grid_sum_list sum_list_nonneg)
  moreover have "tg_net g \<le> 10 ^ 12"
    using key_nets_sum_le [of ls "group_key g"] nets total unfolding ok(2) ok(1) by fastforce
  ultimately have T: "group_tax p g = quantize_money (tg_net g * (tc_rate_percent (tg_tax_code g) / 100)) p"
    "on_grid p (group_tax p g)" "\<bar>group_tax p g\<bar> * 10 ^ p < 10 ^ 26"
    using group_tax_props [of g cur] by (simp_all add: p)
  have "length (tg_line_nets g) \<le> length ls" unfolding ok(1) key_nets_def by simp
  then have "length (tg_line_nets g) \<le> 10 ^ 26" using len by simp
  then have "sum_list (allocate (group_tax p g) (tg_line_nets g) p) = group_tax p g"
    using allocate_sums_to_total [OF ok(3) _ T(2,3)] w by blast
  then show "sum_list (tl_line_tax (group_line p g)) = tl_tax (group_line p g)"
    "length (tl_line_tax (group_line p g)) = length (key_nets (group_key g) ls)"
    "tl_tax (group_line p g) = quantize_money (tg_net g * (tc_rate_percent (tg_tax_code g) / 100)) p"
    using T(1) length_allocate [of _ "tg_line_nets g"] ok(1) by (simp_all add: group_line_def)
qed

subsection \<open>Properties\<close>


definition VAT20 :: tax_code where
  "VAT20 = \<lparr>tc_id = 1, tc_tenant = 1, tc_code = ''VAT20'', tc_name = ''VAT'', tc_rate_percent = 20,
     tc_jurisdiction = None, tc_is_inclusive = False, tc_is_active = True, tc_payable_account = Some 5,
     tc_receivable_account = Some 6\<rparr>"

lemma VAT20_ok: "rate_ok VAT20" "rate_ok (VAT20\<lparr>tc_is_inclusive := True\<rparr>)"
  by code_simp+


text \<open>
  C39. Tax of a document: there is one tax line per code and direction, the taxable nets add up to
  the net total and the taxes to the tax total; the tax of a line is its taxable net times the
  percentage, rounded half up once; and it is split back over the document lines of its group
  without losing a cent: one share per line, adding up to exactly the posted tax.
\<close>

theorem document_tax_exact:
  assumes lines: "\<forall>(b, tc, d) \<in> set lines. rate_ok tc \<and> on_grid MONEY_SCALE b \<and> 0 \<le> b \<and> b \<le> 10 ^ 12"
    and total: "dts_net_total (calculate_document_tax lines cur) \<le> 10 ^ 12" and len: "length lines \<le> 10 ^ 26"
  shows "let s = calculate_document_tax lines cur; p = currency_decimals cur in
    dts_gross_total s = dts_net_total s + dts_tax_total s \<and>
    dts_net_total s = sum_list (map tl_taxable_net (dts_tax_lines s)) \<and>
    dts_tax_total s = sum_list (map tl_tax (dts_tax_lines s)) \<and>
    distinct (map (\<lambda>l. (tl_code l, tl_direction l)) (dts_tax_lines s)) \<and>
    (\<forall>l \<in> set (dts_tax_lines s). sum_list (tl_line_tax l) = tl_tax l \<and>
       length (tl_line_tax l) = length (filter (\<lambda>(_, tc, d). (tc_code tc, d) = (tl_code l, tl_direction l)) lines) \<and>
       (\<exists>(b, tc, d) \<in> set lines. tc_code tc = tl_code l \<and>
          tl_tax l = quantize_money (tl_taxable_net l * (tc_rate_percent tc / 100)) p))"
proof -
  define p where "p = currency_decimals cur"
  define ls where "ls = map (\<lambda>(b, tc, d). (tc, d, calculate_line_tax b tc d cur)) lines"
  let ?s = "calculate_document_tax lines cur"
  have S: "dts_tax_lines ?s = map (group_line p) (tax_groups ls)" "dts_net_total ?s = sum_list (map (\<lambda>l. cal_net (snd (snd l))) ls)"
    "dts_gross_total ?s = dts_net_total ?s + dts_tax_total ?s" "dts_tax_total ?s = sum_list (map tl_tax (dts_tax_lines ?s))"
    by (simp_all add: calculate_document_tax_def tax_groups_def ls_def p_def Let_def case_prod_beta o_def)
  note G = tax_groups_ok [of ls]
  have nets: "0 \<le> cal_net (snd (snd l)) \<and> on_grid p (cal_net (snd (snd l))) \<and> rate_ok (fst l)" if "l \<in> set ls" for l
    using that lines line_tax_props(2,4) [where cur = cur] by (auto simp: ls_def p_def MONEY_SCALE_def)
  have len': "length ls \<le> 10 ^ 26" using len by (simp add: ls_def)
  have nets': "\<forall>l \<in> set ls. 0 \<le> cal_net (snd (snd l)) \<and> on_grid p (cal_net (snd (snd l))) \<and> rate_ok (fst l)"
    using nets by blast
  note grp = group_line_exact [OF nets' total [unfolded S(2)] len' _ p_def]
  have cnt: "length (key_nets k ls) = length (filter (\<lambda>(_, tc, d). (tc_code tc, d) = k) lines)" for k
    by (simp add: key_nets_def ls_def filter_map o_def line_key_def case_prod_unfold)
  have "\<exists>(b, tc, d) \<in> set lines. tc_code tc = tl_code l \<and>
      tl_tax l = quantize_money (tl_taxable_net l * (tc_rate_percent tc / 100)) p"
    "sum_list (tl_line_tax l) = tl_tax l"
    "length (tl_line_tax l) = length (filter (\<lambda>(_, tc, d). (tc_code tc, d) = (tl_code l, tl_direction l)) lines)"
    if "l \<in> set (dts_tax_lines ?s)" for l
  proof -
    obtain g where g: "g \<in> set (tax_groups ls)" and l: "l = group_line p g" using \<open>l \<in> _\<close> unfolding S(1) by auto
    have "tg_tax_code g \<in> fst ` set ls" using G g by (simp add: group_ok_def)
    then obtain b d where "(b, tg_tax_code g, d) \<in> set lines" by (auto simp: ls_def)
    moreover have "tl_code l = tc_code (tg_tax_code g)" "tl_taxable_net l = tg_net g" "(tl_code l, tl_direction l) = group_key g"
      by (simp_all add: l group_line_def group_key_def)
    moreover note grp(1) [OF g] grp(2) [OF g] grp(3) [OF g] cnt [of "group_key g"]
    ultimately show "\<exists>(b, tc, d) \<in> set lines. tc_code tc = tl_code l \<and>
        tl_tax l = quantize_money (tl_taxable_net l * (tc_rate_percent tc / 100)) p"
      "sum_list (tl_line_tax l) = tl_tax l"
      "length (tl_line_tax l) = length (filter (\<lambda>(_, tc, d). (tc_code tc, d) = (tl_code l, tl_direction l)) lines)"
      by (auto simp: l)
  qed
  moreover have "distinct (map (\<lambda>l. (tl_code l, tl_direction l)) (dts_tax_lines ?s))"
    "dts_net_total ?s = sum_list (map tl_taxable_net (dts_tax_lines ?s))"
    using G unfolding S by (simp_all add: group_line_def o_def group_key_def [abs_def])
  ultimately show ?thesis using S(3,4) unfolding Let_def p_def by blast
qed

text \<open>The totals do not depend on the split, so they evaluate without it.\<close>

lemma document_totals:
  "dts_tax_total (calculate_document_tax lines cur) = sum_list (map (group_tax (currency_decimals cur))
     (tax_groups (map (\<lambda>(b, tc, d). (tc, d, calculate_line_tax b tc d cur)) lines)))"
  "dts_net_total (calculate_document_tax lines cur) =
     sum_list (map (\<lambda>(b, tc, d). cal_net (calculate_line_tax b tc d cur)) lines)"
  by (simp_all add: calculate_document_tax_def tax_groups_def group_line_def Let_def o_def case_prod_unfold)

text \<open>A line of 10.03 at 20 %: a tax of 2.01.\<close>

theorem document_tax_exact_witness:
  "dts_tax_total (calculate_document_tax [(1003 / 100, VAT20, INPUT)] ''USD'') = 201 / 100 \<and>
   dts_gross_total (calculate_document_tax [(1003 / 100, VAT20, INPUT)] ''USD'') =
     dts_net_total (calculate_document_tax [(1003 / 100, VAT20, INPUT)] ''USD'') + 201 / 100"
proof -
  let ?ls = "[(1003 / 100, VAT20, INPUT)]"
  have "on_grid MONEY_SCALE (1003 / 100)" by code_simp
  then have "\<forall>(b, tc, d) \<in> set ?ls. rate_ok tc \<and> on_grid MONEY_SCALE b \<and> 0 \<le> b \<and> b \<le> 10 ^ 12"
    using VAT20_ok(1) by simp
  moreover have "dts_net_total (calculate_document_tax ?ls ''USD'') \<le> 10 ^ 12"
    "dts_tax_total (calculate_document_tax ?ls ''USD'') = 201 / 100" unfolding document_totals by code_simp+
  ultimately show ?thesis using document_tax_exact [of ?ls "''USD''"] by (simp add: Let_def)
qed

text \<open>
  The gross of a document with inclusive prices need not be the sum of its prices: three prices of
  0.99 including 20 % have a net of 2.49 and a tax of 0.50, a gross of 2.99.
\<close>

lemma inclusive_document_drifts:
  "dts_net_total (calculate_document_tax (replicate 3 (99 / 100, VAT20\<lparr>tc_is_inclusive := True\<rparr>, OUTPUT)) ''USD'') = 249 / 100"
  "dts_tax_total (calculate_document_tax (replicate 3 (99 / 100, VAT20\<lparr>tc_is_inclusive := True\<rparr>, OUTPUT)) ''USD'') = 50 / 100"
proof -
  define tc where "tc = VAT20\<lparr>tc_is_inclusive := True\<rparr>"
  define c where "c = calculate_line_tax (99 / 100) tc OUTPUT ''USD''"
  let ?ls = "replicate 3 (99 / 100, tc, OUTPUT)"
  let ?g = "\<lparr>tg_tax_code = tc, tg_direction = OUTPUT, tg_account = cal_account c, tg_net = 249 / 100,
    tg_line_nets = [83 / 100, 83 / 100, 83 / 100]\<rparr>"
  have c: "cal_net c = 83 / 100" unfolding c_def tc_def by code_simp
  have grid: "on_grid (currency_decimals ''USD'') (tg_net ?g)" by code_simp
  have "group_tax (currency_decimals ''USD'') ?g =
      quantize_money (249 / 100 * (tc_rate_percent tc / 100)) (currency_decimals ''USD'')"
    using group_tax_props(1) [of ?g, OF _ grid] VAT20_ok(2) by (simp add: tc_def)
  also have "\<dots> = 50 / 100" unfolding tc_def by code_simp
  finally have "group_tax (currency_decimals ''USD'') ?g = 50 / 100" .
  moreover have "tax_groups (map (\<lambda>(b, tc, d). (tc, d, calculate_line_tax b tc d ''USD'')) ?ls) = [?g]"
    by (simp add: tax_groups_def numeral_3_eq_3 group_key_def c flip: c_def)
  ultimately show "dts_tax_total (calculate_document_tax (replicate 3 (99 / 100, VAT20\<lparr>tc_is_inclusive := True\<rparr>, OUTPUT)) ''USD'') = 50 / 100"
    unfolding document_totals tc_def by simp
  show "dts_net_total (calculate_document_tax (replicate 3 (99 / 100, VAT20\<lparr>tc_is_inclusive := True\<rparr>, OUTPUT)) ''USD'') = 249 / 100"
    unfolding document_totals tc_def [symmetric] by (simp add: numeral_3_eq_3 c flip: c_def)
qed

end
