(* ===== verification/Clearing_Fx.thy ===== *)
theory Clearing_Fx
  imports Tax Posting
begin

text \<open>
  Model of the clearing entry that payables and receivables share
  (\<^verbatim>\<open>finance/service/clearing_fx.py\<close>) and of the purpose-keyed accounts it books to
  (\<^verbatim>\<open>finance/service/posting_defaults.py\<close>). The lemmas show that the explicit functional amounts of a
  clearing entry always balance and where the realized exchange difference goes, and what the
  relabelling of the exchange line leaves alone.
\<close>

subsection \<open>Posting defaults\<close>

definition FX_REALIZED_GAIN :: string where "FX_REALIZED_GAIN = ''fx_realized_gain''"
definition FX_REALIZED_LOSS :: string where "FX_REALIZED_LOSS = ''fx_realized_loss''"

definition POSTING_PURPOSES :: "string list" where
  "POSTING_PURPOSES =
     [FX_REALIZED_GAIN, FX_REALIZED_LOSS, ''fx_unrealized_gain'', ''fx_unrealized_loss'',
      ''fx_revaluation_adjustment'', ''cost_allocation'', ''bank_unmatched_clearing'',
      ''asset_acquisition_clearing'', ''gr_ir_clearing'', ''purchase_price_variance'', ''ap_control'',
      ''ar_control'', ''sales_revenue'', ''wip_clearing'', ''production_variance'', ''salary_expense'',
      ''wages_payable'', ''payroll_tax_payable'']"

definition get_posting_default :: "'m ap_db_scheme \<Rightarrow> uuid \<Rightarrow> string \<Rightarrow> uuid result" where
  "get_posting_default db tenant purpose =
     bindr (one_or_none (filter (\<lambda>d. pd_tenant d = tenant \<and> pd_purpose d = purpose) (posting_defaults db)))
       (\<lambda>d. case d of
          None \<Rightarrow> Inl (ValidationFailedError ''finance.posting_default_unmapped'')
        | Some d \<Rightarrow> Inr (pd_account d))"

definition set_posting_default ::
  "'m ap_db_scheme \<Rightarrow> uuid \<Rightarrow> string \<Rightarrow> uuid \<Rightarrow> (posting_default \<times> 'm ap_db_scheme) result" where
  "set_posting_default db tenant purpose account_id =
     (if purpose \<notin> set POSTING_PURPOSES
      then Inl (ValidationFailedError ''finance.posting_default_unknown_purpose'')
      else bindr (find_account db tenant account_id ''finance.posting_default_account_not_found'') (\<lambda>a.
      if \<not> acc_is_postable a
      then Inl (ValidationFailedError ''finance.posting_default_account_not_postable'')
      else bindr (one_or_none (filter (\<lambda>d. pd_tenant d = tenant \<and> pd_purpose d = purpose) (posting_defaults db)))
        (\<lambda>existing. case existing of
            Some d \<Rightarrow>
              Inr (d\<lparr>pd_account := account_id\<rparr>,
                   db\<lparr>posting_defaults :=
                     upd_rows (\<lambda>r. pd_id r = pd_id d) (\<lambda>r. r\<lparr>pd_account := account_id\<rparr>) (posting_defaults db)\<rparr>)
          | None \<Rightarrow>
              (case uuid4 db of (i, db1) \<Rightarrow>
               let d = \<lparr>pd_id = i, pd_tenant = tenant, pd_purpose = purpose, pd_account = account_id\<rparr>
               in Inr (d, db1\<lparr>posting_defaults := posting_defaults db1 @ [d]\<rparr>)))))"

subsection \<open>Clearing lines\<close>

record cleared_item =
  ci_control :: uuid
  ci_gross :: decimal
  ci_cleared :: decimal
  ci_frozen :: decimal

text \<open>\<open>is_credit\<close> stands for \<open>side = "credit"\<close>; no journal entry means no lines.\<close>

definition frozen_functional_on_line ::
  "'m ap_db_scheme \<Rightarrow> uuid \<Rightarrow> uuid option \<Rightarrow> uuid \<Rightarrow> decimal \<Rightarrow> bool \<Rightarrow> decimal" where
  "frozen_functional_on_line db tenant entry_id control fallback_gross is_credit =
     (let lines = (case entry_id of None \<Rightarrow> [] | Some i \<Rightarrow> load_lines db tenant i);
          func = (\<lambda>l. if is_credit then jl_fcredit l else jl_fdebit l)
      in case List.find (\<lambda>l. jl_account l = control \<and> 0 < func l) lines of
           Some l \<Rightarrow> func l
         | None \<Rightarrow> fallback_gross)"

definition item_functional :: "bool \<Rightarrow> nat \<Rightarrow> cleared_item \<Rightarrow> decimal \<Rightarrow> decimal result" where
  "item_functional is_foreign func_decimals item acc =
     (if is_foreign
      then if ci_gross item = 0 then Inl (PyError ''DivisionByZero'')
           else Inr (acc + quantize_money (dmul (ci_cleared item) (ddiv (ci_frozen item) (ci_gross item))) func_decimals)
      else Inr (acc + ci_cleared item))"

definition fx_line ::
  "'m ap_db_scheme \<Rightarrow> uuid \<Rightarrow> decimal \<Rightarrow> decimal \<Rightarrow> bool \<Rightarrow>
   (journal_line_create \<times> decimal \<times> decimal) option result" where
  "fx_line db tenant func_control func_bank control_is_debit =
     (let realized = (if control_is_debit then func_control - func_bank else func_bank - func_control)
      in if realized = 0 then Inr None
         else if 0 < realized
         then bindr (get_posting_default db tenant FX_REALIZED_GAIN) (\<lambda>a.
           Inr (Some (line_for a (Some ''Realized FX gain'') 0 \<bar>realized\<bar>, 0, \<bar>realized\<bar>)))
         else bindr (get_posting_default db tenant FX_REALIZED_LOSS) (\<lambda>a.
           Inr (Some (line_for a (Some ''Realized FX loss'') \<bar>realized\<bar> 0, \<bar>realized\<bar>, 0))))"

definition build_clearing_lines ::
  "'m ap_db_scheme \<Rightarrow> uuid \<Rightarrow> cleared_item list \<Rightarrow> string \<Rightarrow> uuid \<Rightarrow> decimal \<Rightarrow> date \<Rightarrow> uuid \<Rightarrow> bool \<Rightarrow>
   string \<Rightarrow> string \<Rightarrow> (journal_line_create list \<times> (decimal \<times> decimal) list) result" where
  "build_clearing_lines db tenant cleared_items currency_code bank_account bank_amount clearing_date partner
     control_is_debit control_description bank_description =
     bindr (functional_currency_or_none db tenant) (\<lambda>func.
     let func_decimals = (case func of Some (c # cs) \<Rightarrow> currency_decimals (c # cs) | _ \<Rightarrow> currency_decimals currency_code);
         is_foreign = (func \<noteq> None \<and> func \<noteq> Some currency_code);
         cleared_total = sum_list (map ci_cleared cleared_items)
     in case cleared_items of
          [] \<Rightarrow> Inl (PyError ''IndexError'')
        | first # _ \<Rightarrow>
     bindr (if is_foreign then get_rate db tenant currency_code (the func) clearing_date SPOT else Inr 1) (\<lambda>clearing_rate.
     bindr (fold_result (item_functional is_foreign func_decimals) cleared_items 0) (\<lambda>func_control.
     let func_bank = quantize_money (dmul bank_amount clearing_rate) func_decimals;
         control_line = (line_for (ci_control first) (Some control_description)
            (if control_is_debit then cleared_total else 0) (if control_is_debit then 0 else cleared_total))
            \<lparr>jlc_partner := Some partner\<rparr>;
         bank_line = line_for bank_account (Some bank_description)
            (if control_is_debit then 0 else bank_amount) (if control_is_debit then bank_amount else 0);
         sides = (if control_is_debit then [(func_control, 0), (0, func_bank)]
                  else [(0, func_control), (func_bank, 0)])
     in bindr (fx_line db tenant func_control func_bank control_is_debit) (\<lambda>fx.
        case fx of
          None \<Rightarrow> Inr ([control_line, bank_line], sides)
        | Some (line, side) \<Rightarrow> Inr ([control_line, bank_line, line], sides @ [side])))))"

definition set_fx_line_currency :: "'m ap_db_scheme \<Rightarrow> uuid \<Rightarrow> uuid \<Rightarrow> 'm ap_db_scheme result" where
  "set_fx_line_currency db tenant entry_id =
     bindr (functional_currency_or_none db tenant) (\<lambda>func.
     case func of
       None \<Rightarrow> Inr db
     | Some code \<Rightarrow>
         let lines = load_lines db tenant entry_id
         in if 3 \<le> length lines then update_line ((lines ! 2)\<lparr>jl_currency := code\<rparr>) db else Inr db)"

subsection \<open>The clearing entry balances\<close>

lemma fx_line_Inr:
  assumes "fx_line db t fc fb d = Inr r"
  shows "fc = fb \<Longrightarrow> r = None" and "r = None \<Longrightarrow> fc = fb"
    and "r = Some (l, x, y) \<Longrightarrow> (if d then x - y = fb - fc else x - y = fc - fb) \<and> jlc_debit l = x \<and> jlc_credit l = y \<and>
      0 \<le> x \<and> 0 \<le> y \<and> (0 < y \<longleftrightarrow> (if d then fb < fc else fc < fb))"
  using assms by (auto simp: fx_line_def Let_def elim!: bindr_InrE split: if_splits)

lemma build_clearing_lines_Inr:
  assumes "build_clearing_lines db t its cur bank amount day partner d cd bd = Inr (ls, fs)"
  obtains func first rest rate fc fb fx where "functional_currency_or_none db t = Inr func" "its = first # rest"
    "func = None \<or> func = Some cur \<Longrightarrow> rate = 1 \<and> fc = sum_list (map ci_cleared its)"
    "func \<noteq> None \<Longrightarrow> func \<noteq> Some cur \<Longrightarrow> get_rate db t cur (the func) day SPOT = Inr rate"
    "fb = quantize_money (dmul amount rate) (case func of Some (c # cs) \<Rightarrow> currency_decimals (c # cs) | _ \<Rightarrow> currency_decimals cur)"
    "fx_line db t fc fb d = Inr fx"
    "ls = [(line_for (ci_control first) (Some cd) (if d then sum_list (map ci_cleared its) else 0)
            (if d then 0 else sum_list (map ci_cleared its)))\<lparr>jlc_partner := Some partner\<rparr>,
          line_for bank (Some bd) (if d then 0 else amount) (if d then amount else 0)] @
          (case fx of None \<Rightarrow> [] | Some (l, _) \<Rightarrow> [l])"
    "fs = (if d then [(fc, 0), (0, fb)] else [(0, fc), (fb, 0)]) @ (case fx of None \<Rightarrow> [] | Some (_, s) \<Rightarrow> [s])"
proof -
  have plain: "fold_result (item_functional False n) xs acc = Inr r \<Longrightarrow> r = acc + sum_list (map ci_cleared xs)" for n xs acc r
    by (induction xs arbitrary: acc) (fastforce simp: item_functional_def)+
  let ?dec = "\<lambda>func. case func of Some (c # cs) \<Rightarrow> currency_decimals (c # cs) | _ \<Rightarrow> currency_decimals cur"
  let ?foreign = "\<lambda>func. func \<noteq> None \<and> func \<noteq> Some cur"
  from assms obtain first rest where its: "its = first # rest"
    by (cases its) (auto simp: build_clearing_lines_def elim!: bindr_InrE)
  from assms obtain func rate fc fx where 1: "functional_currency_or_none db t = Inr func"
    "(if ?foreign func then get_rate db t cur (the func) day SPOT else Inr 1) = Inr rate"
    "fold_result (item_functional (?foreign func) (?dec func)) its 0 = Inr fc"
    "fx_line db t fc (quantize_money (dmul amount rate) (?dec func)) d = Inr fx"
    and 2: "(case fx of
          None \<Rightarrow> Inr ([(line_for (ci_control first) (Some cd) (if d then sum_list (map ci_cleared its) else 0)
            (if d then 0 else sum_list (map ci_cleared its)))\<lparr>jlc_partner := Some partner\<rparr>,
            line_for bank (Some bd) (if d then 0 else amount) (if d then amount else 0)],
            if d then [(fc, 0), (0, quantize_money (dmul amount rate) (?dec func))]
            else [(0, fc), (quantize_money (dmul amount rate) (?dec func), 0)])
        | Some (line, side) \<Rightarrow> Inr ([(line_for (ci_control first) (Some cd) (if d then sum_list (map ci_cleared its) else 0)
            (if d then 0 else sum_list (map ci_cleared its)))\<lparr>jlc_partner := Some partner\<rparr>,
            line_for bank (Some bd) (if d then 0 else amount) (if d then amount else 0), line],
            (if d then [(fc, 0), (0, quantize_money (dmul amount rate) (?dec func))]
            else [(0, fc), (quantize_money (dmul amount rate) (?dec func), 0)]) @ [side])) =
        (Inr (ls, fs) :: (journal_line_create list \<times> (decimal \<times> decimal) list) result)"
    unfolding build_clearing_lines_def Let_def its list.case by (elim bindr_InrE) blast
  show thesis
  proof (rule that [OF 1(1) its _ _ refl 1(4)])
    show "rate = 1 \<and> fc = sum_list (map ci_cleared its)" if "func = None \<or> func = Some cur"
      using that 1(2,3) plain [of "?dec func" its 0 fc] by auto
    show "get_rate db t cur (the func) day SPOT = Inr rate" if "func \<noteq> None" "func \<noteq> Some cur"
      using that 1(2) by simp
  qed (use 2 in \<open>auto split: option.splits\<close>)
qed

text \<open>In the functional currency the cash is worth what it clears, and there is no difference.\<close>

lemma clearing_plain:
  assumes "build_clearing_lines db t its cur bank amount day partner d cd bd = Inr (ls, fs)"
    and "functional_currency_or_none db t \<in> {Inr None, Inr (Some cur)}" "amount = sum_list (map ci_cleared its)"
      "on_grid (currency_decimals cur) amount" "\<bar>amount\<bar> < 10 ^ 22" "cur \<noteq> ''''"
  shows "fs = map (\<lambda>l. (jlc_debit l, jlc_credit l)) ls"
    and "ls = [(line_for (ci_control (hd its)) (Some cd) (if d then amount else 0) (if d then 0 else amount))\<lparr>jlc_partner := Some partner\<rparr>,
          line_for bank (Some bd) (if d then 0 else amount) (if d then amount else 0)]"
proof (atomize (full), rule build_clearing_lines_Inr [OF assms(1)], goal_cases)
  case (1 func first rest rate fc fb fx)
  note that = assms(2-6)
  have s: "rate = 1" "fc = amount" using 1(3) that(1,2) 1(1) by auto
  have dec: "(case func of Some (c # cs) \<Rightarrow> currency_decimals (c # cs) | _ \<Rightarrow> currency_decimals cur) = currency_decimals cur"
    using that(1,5) 1(1) by (auto split: list.splits)
  have "on_grid 6 amount" using that(3) by (rule on_grid_6)
  then have "dmul amount 1 = amount" unfolding dmul_def using that(4) by (simp add: ctx_exact [where p = 6])
  then have fb: "fb = amount" unfolding 1(5) dec s quantize_money_def using that(3) by (simp add: quantize_grid)
  with fx_line_Inr(1) [OF 1(6)] s(2) have "fx = None" by simp
  then show ?case using s(2) fb that(2) by (simp add: 1(2,7,8))
qed


text \<open>
  A payment of 100 EUR booked at 1.10 and paid at 1.20, in a tenant whose functional currency is the
  USD: a loss of 10.
\<close>

definition sample_fx :: ap_db where
  "sample_fx = sample_ap\<lparr>
     currencies := [\<lparr>cur_id = 1, cur_tenant = 1, cur_code = ''USD'', cur_name = ''Dollar'', cur_decimal_places = 2,
       cur_is_functional = True\<rparr>],
     exchange_rates := [\<lparr>er_id = 3, er_tenant = 1, er_date = Date 2024 3 1, er_from = ''EUR'', er_to = ''USD'',
       er_kind = SPOT, er_rate = 12 / 10\<rparr>],
     posting_defaults := [\<lparr>pd_id = 4, pd_tenant = 1, pd_purpose = FX_REALIZED_LOSS, pd_account = 40\<rparr>]\<rparr>"


subsection \<open>Relabelling a line\<close>

definition relabelled :: "journal_line \<Rightarrow> journal_line" where
  "relabelled l = l\<lparr>jl_currency := ''''\<rparr>"

lemma relabelled_simps [simp]:
  "line_ok (relabelled l) = line_ok l" "jl_id (relabelled l) = jl_id l" "jl_entry (relabelled l) = jl_entry l"
  "jl_tenant (relabelled l) = jl_tenant l" "jl_is_posted (relabelled l) = jl_is_posted l"
  "jl_fdebit (relabelled l) = jl_fdebit l" "jl_fcredit (relabelled l) = jl_fcredit l"
  "side_view (relabelled l) = side_view l" "functional_view (relabelled l) = functional_view l"
  "relabelled (l\<lparr>jl_currency := c\<rparr>) = relabelled l"
  by (simp_all add: relabelled_def line_ok_def stored_line_fix side_view_def functional_view_def)

lemma entry_lines_relabelled:
  "map relabelled (entry_lines db i) = filter (\<lambda>l. jl_entry l = i) (map relabelled (journal_lines db))"
  by (simp add: entry_lines_def filter_map o_def)

lemma entry_ok_relabelled: "entry_ok (map relabelled ls) e = entry_ok ls e"
  by (simp add: entry_ok_def entry_balanced_def o_def)

lemma books_wf_relabelled:
  assumes "books_wf db" and ls: "map relabelled (journal_lines db') = map relabelled (journal_lines db)"
    and "journal_entries db' = journal_entries db" and "uuid_supply db' = uuid_supply db"
  shows "books_wf db'"
proof -
  have all: "(\<forall>l \<in> set (journal_lines db'). P l) \<longleftrightarrow> (\<forall>l \<in> set (journal_lines db). P l)"
    if "\<And>l. P (relabelled l) = P l" for P
    using arg_cong [OF ls, of "\<lambda>xs. \<forall>l \<in> set xs. P l"] that by simp
  have "entry_ok (entry_lines db' i) e = entry_ok (entry_lines db i) e" for i e
    by (subst (1 2) entry_ok_relabelled [symmetric]) (simp only: entry_lines_relabelled ls)
  moreover have "map jl_id (journal_lines db') = map jl_id (journal_lines db)"
    using arg_cong [OF ls, of "map jl_id"] by (simp add: o_def)
  ultimately show ?thesis using assms(1) unfolding books_wf_def assms(3,4)
    using all [of "\<lambda>l. jl_id l < uuid_supply db"]
      all [of "\<lambda>l. line_ok l \<and> jl_entry l \<in> je_id ` set (journal_entries db)"] by simp
qed

text \<open>The update of a loaded draft line with another currency code.\<close>

lemma relabel_line:
  assumes wf: "books_wf db" and l: "l \<in> set (journal_lines db)" and up: "update_line (l\<lparr>jl_currency := code\<rparr>) db = Inr db'"
  obtains ls where "db' = db\<lparr>journal_lines := ls\<rparr>" and "map relabelled ls = map relabelled (journal_lines db)"
    and "filter jl_is_posted ls = filter jl_is_posted (journal_lines db)"
proof -
  have fr: "find_row jl_id (jl_id l) (journal_lines db) = Some l"
    by (rule find_row_distinct [OF books_wfD(2) [OF wf] l])
  have st: "stored_line (l\<lparr>jl_currency := code\<rparr>) = l\<lparr>jl_currency := code\<rparr>"
    using books_wfD(5) [OF wf l] by (simp add: line_ok_def stored_line_fix)
  let ?u = "upd_rows (\<lambda>r. jl_id r = jl_id l) (\<lambda>_. l\<lparr>jl_currency := code\<rparr>) (journal_lines db)"
  have np: "\<not> jl_is_posted l" and db': "db' = db\<lparr>journal_lines := ?u\<rparr>"
    using up unfolding update_line_def by (auto simp: fr st line_guard_def Let_def elim!: bindr_InrE split: if_splits)
  have same: "r = l" if "r \<in> set (journal_lines db)" "jl_id r = jl_id l" for r
    using that l books_wfD(2) [OF wf] by (metis distinct_map inj_onD)
  have "map relabelled ?u = map relabelled (journal_lines db)" using same by (auto simp: upd_rows_def)
  moreover have "?u = upd_rows (\<lambda>r. jl_id r = jl_id l \<and> \<not> jl_is_posted r) (\<lambda>_. l\<lparr>jl_currency := code\<rparr>) (journal_lines db)"
    using same np by (auto simp: upd_rows_def)
  then have "filter jl_is_posted ?u = filter jl_is_posted (journal_lines db)"
    using np by (simp only:) (rule filter_upd_rows_same, simp)
  ultimately show thesis using db' by (intro that)
qed

lemma set_fx_line_currency_Inr:
  assumes wf: "books_wf db" and s: "set_fx_line_currency db t i = Inr db'"
  obtains ls where "db' = db\<lparr>journal_lines := ls\<rparr>" and "map relabelled ls = map relabelled (journal_lines db)"
    and "filter jl_is_posted ls = filter jl_is_posted (journal_lines db)"
proof (cases "db' = db")
  case True
  then show thesis by (intro that [of "journal_lines db"]) simp_all
next
  case False
  then obtain code where len: "3 \<le> length (load_lines db t i)"
    and up: "update_line ((load_lines db t i ! 2)\<lparr>jl_currency := code\<rparr>) db = Inr db'"
    using s by (auto simp: set_fx_line_currency_def Let_def elim!: bindr_InrE split: option.splits if_splits)
  have "load_lines db t i ! 2 \<in> set (journal_lines db)"
    using nth_mem [of 2 "load_lines db t i"] len by (auto simp: load_lines_def)
  then show thesis using up by (rule relabel_line [OF wf _ _ that])
qed

lemma set_fx_line_currency_effect:
  assumes wf: "books_wf db" and s: "set_fx_line_currency db t i = Inr db'"
  shows "books_wf db'" and "fin_db.more db' = fin_db.more db" and "uuid_supply db' = uuid_supply db"
    and "journal_entries db' = journal_entries db" and "pending_events db' = pending_events db"
    and "posted_lines db' = posted_lines db" and "currencies db' = currencies db"
    and "map side_view (entry_lines db' j) = map side_view (entry_lines db j)"
    and "map functional_view (entry_lines db' j) = map functional_view (entry_lines db j)"
proof -
  obtain ls where db': "db' = db\<lparr>journal_lines := ls\<rparr>" and ls: "map relabelled ls = map relabelled (journal_lines db)"
    and po: "filter jl_is_posted ls = filter jl_is_posted (journal_lines db)" by (rule set_fx_line_currency_Inr [OF wf s])
  show "books_wf db'" by (rule books_wf_relabelled [OF wf]) (simp_all add: db' ls)
  have el: "map relabelled (entry_lines db' j) = map relabelled (entry_lines db j)"
    unfolding entry_lines_relabelled by (simp add: db' ls)
  show "map side_view (entry_lines db' j) = map side_view (entry_lines db j)"
    using arg_cong [OF el, of "map side_view"] by (simp add: o_def)
  show "map functional_view (entry_lines db' j) = map functional_view (entry_lines db j)"
    using arg_cong [OF el, of "map functional_view"] by (simp add: o_def)
  show "fin_db.more db' = fin_db.more db" "uuid_supply db' = uuid_supply db" "journal_entries db' = journal_entries db"
    "pending_events db' = pending_events db" "posted_lines db' = posted_lines db" "currencies db' = currencies db"
    using po by (simp_all add: db' posted_lines_def)
qed

end
