(* ===== verification/Vendor_Bills.thy ===== *)
theory Vendor_Bills
  imports Tax Posting
begin

text \<open>
  Model of the vendor-bill lifecycle (\<^verbatim>\<open>finance/service/vendor_bills.py\<close>): \<open>create_vendor_bill\<close> and
  \<open>post_vendor_bill\<close> as whole handlers. The lemmas show that a bill's totals are those of its lines,
  and that posting books exactly the bill's lines, once.
\<close>

subsection \<open>Constants and payloads\<close>

definition AP_BILL_DOC_TYPE :: string where "AP_BILL_DOC_TYPE = ''finance.vendor_bill''"
definition AP_BILL_SEQUENCE_NAME :: string where "AP_BILL_SEQUENCE_NAME = ''finance.vendor_bill''"
definition AP_BILL_NUMBER_PREFIX :: string where "AP_BILL_NUMBER_PREFIX = ''BILL''"
definition AP_BILL_NUMBER_PADDING :: int where "AP_BILL_NUMBER_PADDING = 5"
definition AP_BILL_POSTS_LINK :: string where "AP_BILL_POSTS_LINK = ''posts''"
definition AP_PARTNER_TYPE :: string where "AP_PARTNER_TYPE = ''VENDOR''"

record vendor_bill_line_create =
  vblc_account :: uuid
  vblc_description :: "string option"
  vblc_net :: decimal
  vblc_tax_code :: "uuid option"
  vblc_cost_center :: "uuid option"
  vblc_project :: "uuid option"

record vendor_bill_create =
  vbc_partner :: uuid
  vbc_partner_name :: string
  vbc_date :: date
  vbc_due_date :: date
  vbc_currency :: string
  vbc_ap_account :: uuid
  vbc_external_ref :: "string option"
  vbc_description :: "string option"
  vbc_lines :: "vendor_bill_line_create list"

subsection \<open>Draft bills\<close>

definition line_tax_code :: "'m ap_db_scheme \<Rightarrow> uuid \<Rightarrow> uuid \<Rightarrow> string \<Rightarrow> tax_code result" where
  "line_tax_code db tenant i code =
     bindr (one_or_none (filter (\<lambda>c. tc_tenant c = tenant \<and> tc_id c = i) (tax_codes db)))
       (\<lambda>c. case c of None \<Rightarrow> Inl (ValidationFailedError code) | Some c \<Rightarrow> Inr c)"

definition get_vendor_bill :: "'m ap_db_scheme \<Rightarrow> uuid \<Rightarrow> uuid \<Rightarrow> vendor_bill result" where
  "get_vendor_bill db tenant i =
     (case find_row vb_id i (vendor_bills db) of
        None \<Rightarrow> Inl (NotFoundError ''finance.vendor_bill_not_found'')
      | Some b \<Rightarrow>
          if vb_tenant b \<noteq> tenant then Inl (NotFoundError ''finance.vendor_bill_not_found'') else Inr b)"

definition get_vendor_bill_lines :: "'m ap_db_scheme \<Rightarrow> uuid \<Rightarrow> uuid \<Rightarrow> vendor_bill_line list" where
  "get_vendor_bill_lines db tenant i =
     sort_key vbl_number (filter (\<lambda>l. vbl_tenant l = tenant \<and> vbl_bill l = i) (vendor_bill_lines db))"

text \<open>The body of the loop over the payload's lines: the net and the tax of one line.\<close>

definition bill_line_amounts ::
  "'m ap_db_scheme \<Rightarrow> uuid \<Rightarrow> string \<Rightarrow> vendor_bill_line_create \<Rightarrow> (decimal \<times> decimal) result" where
  "bill_line_amounts db tenant cur line =
     bindr (find_account db tenant (vblc_account line) ''finance.ap_account_not_found'') (\<lambda>_.
     let n = quantize_for_currency (vblc_net line) cur
     in case vblc_tax_code line of
          None \<Rightarrow> Inr (n, 0)
        | Some i \<Rightarrow>
            bindr (line_tax_code db tenant i ''finance.ap_tax_code_not_found'') (\<lambda>tc.
            let calc = calculate_line_tax n tc INPUT cur in Inr (cal_net calc, cal_tax calc)))"

primrec bill_rows ::
  "'m ap_db_scheme \<Rightarrow> uuid \<Rightarrow> string \<Rightarrow> nat \<Rightarrow> vendor_bill_line_create list \<Rightarrow> vendor_bill_line list result" where
  "bill_rows db tenant cur n [] = Inr []"
| "bill_rows db tenant cur n (l # ls) =
     bindr (bill_line_amounts db tenant cur l) (\<lambda>(net_amount, tax).
     bindr (bill_rows db tenant cur (Suc n) ls) (\<lambda>rows.
     Inr (\<lparr>vbl_id = 0, vbl_tenant = tenant, vbl_bill = 0, vbl_number = n, vbl_account = vblc_account l,
           vbl_description = vblc_description l, vbl_net = net_amount, vbl_tax_code = vblc_tax_code l,
           vbl_tax = tax, vbl_cost_center = vblc_cost_center l, vbl_project = vblc_project l\<rparr> # rows)))"

definition stored_bill :: "vendor_bill \<Rightarrow> vendor_bill" where
  "stored_bill b = b\<lparr>vb_gross := store_money (vb_gross b), vb_tax := store_money (vb_tax b),
     vb_net := store_money (vb_net b), vb_open := store_money (vb_open b)\<rparr>"

definition stored_bill_line :: "vendor_bill_line \<Rightarrow> vendor_bill_line" where
  "stored_bill_line l = l\<lparr>vbl_net := store_money (vbl_net l), vbl_tax := store_money (vbl_tax l)\<rparr>"

definition add_bill_line :: "uuid \<Rightarrow> vendor_bill_line \<Rightarrow> 'm ap_db_scheme \<Rightarrow> 'm ap_db_scheme" where
  "add_bill_line bill_id row db =
     (case uuid4 db of (i, db1) \<Rightarrow>
      db1\<lparr>vendor_bill_lines := vendor_bill_lines db1 @ [stored_bill_line (row\<lparr>vbl_id := i, vbl_bill := bill_id\<rparr>)]\<rparr>)"

definition create_vendor_bill ::
  "'m ap_db_scheme \<Rightarrow> uuid \<Rightarrow> vendor_bill_create \<Rightarrow> (vendor_bill \<times> 'm ap_db_scheme) result" where
  "create_vendor_bill db tenant payload =
     (if vbc_lines payload = [] then Inl (ValidationFailedError ''finance.vendor_bill_no_lines'')
      else bindr (find_account db tenant (vbc_ap_account payload) ''finance.ap_account_not_found'') (\<lambda>_.
      bindr (bill_rows db tenant (vbc_currency payload) 1 (vbc_lines payload)) (\<lambda>rows.
      case uuid4 db of (bill_id, db1) \<Rightarrow>
      bindr (register_document db1 tenant AP_BILL_DOC_TYPE bill_id None
               (Some (bill_status_str BILL_DRAFT))) (\<lambda>(document, db2).
      let bill = \<lparr>vb_id = bill_id, vb_tenant = tenant, vb_document = doc_pk document,
            vb_partner = vbc_partner payload, vb_partner_name = vbc_partner_name payload,
            vb_external_ref = vbc_external_ref payload, vb_number = None, vb_date = vbc_date payload,
            vb_due_date = vbc_due_date payload, vb_currency = vbc_currency payload,
            vb_status = BILL_DRAFT, vb_ap_account = vbc_ap_account payload, vb_entry = None,
            vb_gross = sum_list (map (\<lambda>r. vbl_net r + vbl_tax r) rows),
            vb_tax = sum_list (map vbl_tax rows), vb_net = sum_list (map vbl_net rows), vb_open = 0,
            vb_description = vbc_description payload\<rparr>
      in Inr (bill, fold (add_bill_line bill_id) rows
                (db2\<lparr>vendor_bills := vendor_bills db2 @ [stored_bill bill]\<rparr>))))))"

subsection \<open>Posting a bill\<close>

text \<open>\<open>tax_account_by_code\<close>, a dict from tax code to receivable account.\<close>

definition resolve_tax_account ::
  "'m ap_db_scheme \<Rightarrow> uuid \<Rightarrow> vendor_bill_line \<Rightarrow> (uuid \<times> uuid) list \<Rightarrow> (uuid \<times> uuid) list result" where
  "resolve_tax_account db tenant line accts =
     (case vbl_tax_code line of
        None \<Rightarrow> Inr accts
      | Some i \<Rightarrow>
          if vbl_tax line = 0 \<or> map_of accts i \<noteq> None then Inr accts
          else bindr (line_tax_code db tenant i ''finance.ap_tax_code_not_found'') (\<lambda>tc.
            case tc_receivable_account tc of
              None \<Rightarrow> Inl (ValidationFailedError ''finance.ap_tax_account_unwired'')
            | Some a \<Rightarrow> Inr (accts @ [(i, a)])))"

definition resolve_tax_accounts ::
  "'m ap_db_scheme \<Rightarrow> uuid \<Rightarrow> vendor_bill_line list \<Rightarrow> (uuid \<times> uuid) list result" where
  "resolve_tax_accounts db tenant lines = fold_result (resolve_tax_account db tenant) lines []"

definition bill_line_postings ::
  "(uuid \<times> uuid) list \<Rightarrow> vendor_bill_line \<Rightarrow> journal_line_create list \<Rightarrow> journal_line_create list result" where
  "bill_line_postings accts line acc =
     (let acc1 = acc @ [(line_for (vbl_account line) (vbl_description line) (vbl_net line) 0)
            \<lparr>jlc_cost_center := vbl_cost_center line, jlc_project := vbl_project line\<rparr>]
      in case vbl_tax_code line of
           None \<Rightarrow> Inr acc1
         | Some i \<Rightarrow>
             if vbl_tax line = 0 then Inr acc1
             else case map_of accts i of
                    None \<Rightarrow> Inl (PyError ''KeyError'')
                  | Some a \<Rightarrow> Inr (acc1 @ [line_for a (Some ''Input tax'') (vbl_tax line) 0]))"

definition bill_journal_lines ::
  "vendor_bill \<Rightarrow> vendor_bill_line list \<Rightarrow> (uuid \<times> uuid) list \<Rightarrow> journal_line_create list result" where
  "bill_journal_lines bill lines accts =
     bindr (fold_result (bill_line_postings accts) lines []) (\<lambda>acc.
     Inr (acc @ [(line_for (vb_ap_account bill) (Some (''AP '' @ vb_partner_name bill)) 0 (vb_gross bill))
       \<lparr>jlc_partner_type := Some AP_PARTNER_TYPE, jlc_partner := Some (vb_partner bill)\<rparr>]))"

definition mark_posted :: "string \<Rightarrow> uuid \<Rightarrow> vendor_bill \<Rightarrow> vendor_bill" where
  "mark_posted number entry_id b =
     b\<lparr>vb_number := Some number, vb_entry := Some entry_id, vb_open := vb_gross b, vb_status := BILL_POSTED\<rparr>"

definition post_vendor_bill ::
  "'m ap_db_scheme \<Rightarrow> uuid \<Rightarrow> uuid \<Rightarrow> date option \<Rightarrow> (vendor_bill \<times> 'm ap_db_scheme) result" where
  "post_vendor_bill db tenant bill_id posting_date =
     bindr (get_vendor_bill db tenant bill_id) (\<lambda>bill.
     if vb_status bill = BILL_POSTED then Inr (bill, db)
     else if vb_status bill \<noteq> BILL_DRAFT then Inl (ConflictError ''finance.vendor_bill_not_draft'')
     else let lines = get_vendor_bill_lines db tenant bill_id
     in bindr (resolve_tax_accounts db tenant lines) (\<lambda>accts.
     bindr (bill_journal_lines bill lines accts) (\<lambda>jlines.
     bindr (create_draft_entry db tenant
              \<lparr>jec_posting_date = (case posting_date of Some d \<Rightarrow> d | None \<Rightarrow> vb_date bill),
               jec_currency = vb_currency bill,
               jec_description = Some (''Vendor bill '' @ vb_partner_name bill),
               jec_document_type = AP_INVOICE, jec_lines = jlines\<rparr> None) (\<lambda>(entry, db1).
     bindr (post_entry db1 tenant (je_id entry) None False) (\<lambda>(_, db2).
     bindr (ensure_sequence db2 tenant AP_BILL_SEQUENCE_NAME AP_BILL_NUMBER_PREFIX AP_BILL_NUMBER_PADDING True)
       (\<lambda>(_, db3).
     bindr (claim_number db3 tenant AP_BILL_SEQUENCE_NAME (vb_date bill)) (\<lambda>(bill_number, db4).
     let bill' = mark_posted bill_number (je_id entry) bill;
         db5 = db4\<lparr>vendor_bills :=
           upd_rows (\<lambda>b. vb_id b = bill_id) (mark_posted bill_number (je_id entry)) (vendor_bills db4)\<rparr>
     in bindr (set_document_status db5 tenant (vb_document bill) (Some (bill_status_str BILL_POSTED))
                 (Some bill_number)) (\<lambda>db6.
     bindr (link_documents db6 tenant (vb_document bill) (je_document entry) (Some AP_BILL_POSTS_LINK)) (\<lambda>(_, db7).
     Inr (bill', publish (VendorBillPosted tenant bill_id bill_number (je_id entry) (vb_partner bill)
            (vb_currency bill) (vb_gross bill) (vb_tax bill) (vb_net bill)) db7))))))))))"

subsection \<open>Frames\<close>

lemma ap_frame_fin:
  fixes db db' :: "'m ap_db_scheme"
  assumes "fin_db.more db' = fin_db.more db"
  shows "tax_codes db' = tax_codes db" "posting_defaults db' = posting_defaults db"
    "vendor_bills db' = vendor_bills db" "vendor_bill_lines db' = vendor_bill_lines db"
    "vendor_payments db' = vendor_payments db" "vendor_payment_allocations db' = vendor_payment_allocations db"
    "ap_db.more db' = ap_db.more db"
proof -
  note eq = fin_more_update [OF assms]
  show "tax_codes db' = tax_codes db" using arg_cong [OF eq, of tax_codes] by simp
  show "posting_defaults db' = posting_defaults db" using arg_cong [OF eq, of posting_defaults] by simp
  show "vendor_bills db' = vendor_bills db" using arg_cong [OF eq, of vendor_bills] by simp
  show "vendor_bill_lines db' = vendor_bill_lines db" using arg_cong [OF eq, of vendor_bill_lines] by simp
  show "vendor_payments db' = vendor_payments db" using arg_cong [OF eq, of vendor_payments] by simp
  show "vendor_payment_allocations db' = vendor_payment_allocations db"
    using arg_cong [OF eq, of vendor_payment_allocations] by simp
  show "ap_db.more db' = ap_db.more db" using arg_cong [OF eq, of ap_db.more] by simp
qed

lemmas ap_frame = ap_frame_fin [OF fin_frame(8)]

subsection \<open>The invariant\<close>

definition lines_of :: "vendor_bill \<Rightarrow> vendor_bill_line list \<Rightarrow> vendor_bill_line list" where
  "lines_of b ls = filter (\<lambda>l. vbl_tenant l = vb_tenant b \<and> vbl_bill l = vb_id b) ls"

definition allocated :: "uuid \<Rightarrow> vendor_payment_allocation list \<Rightarrow> decimal" where
  "allocated i as = sum_list (map vpa_amount (filter (\<lambda>a. vpa_bill a = i) as))"

text \<open>
  A bill's totals are those of its lines, and what is open on it is the gross less the allocations;
  the status says how far it is paid.
\<close>

definition bill_ok :: "vendor_bill_line list \<Rightarrow> vendor_payment_allocation list \<Rightarrow> vendor_bill \<Rightarrow> bool" where
  "bill_ok ls as b \<longleftrightarrow>
     on_grid (currency_decimals (vb_currency b)) (vb_gross b) \<and>
     on_grid (currency_decimals (vb_currency b)) (vb_open b) \<and> vb_gross b = vb_net b + vb_tax b \<and>
     vb_net b = sum_list (map vbl_net (lines_of b ls)) \<and> vb_tax b = sum_list (map vbl_tax (lines_of b ls)) \<and>
     (case vb_status b of
        BILL_DRAFT \<Rightarrow> vb_open b = 0 \<and> allocated (vb_id b) as = 0
      | BILL_POSTED \<Rightarrow> vb_open b = vb_gross b \<and> 0 < vb_gross b \<and> allocated (vb_id b) as = 0
      | BILL_PARTIALLY_PAID \<Rightarrow> 0 < vb_open b \<and> 0 < allocated (vb_id b) as \<and> vb_open b + allocated (vb_id b) as = vb_gross b
      | BILL_PAID \<Rightarrow> vb_open b = 0 \<and> 0 < vb_gross b \<and> allocated (vb_id b) as = vb_gross b
      | BILL_REVERSED \<Rightarrow> False)"

definition ap_wf :: "'m ap_db_scheme \<Rightarrow> bool" where
  "ap_wf db \<longleftrightarrow> books_wf db \<and> distinct (map vb_id (vendor_bills db)) \<and>
     (\<forall>b \<in> set (vendor_bills db). vb_id b < uuid_supply db \<and>
        bill_ok (vendor_bill_lines db) (vendor_payment_allocations db) b) \<and>
     (\<forall>l \<in> set (vendor_bill_lines db). vbl_bill l \<in> vb_id ` set (vendor_bills db) \<and>
        on_grid MONEY_SCALE (vbl_net l) \<and> on_grid MONEY_SCALE (vbl_tax l)) \<and>
     (\<forall>a \<in> set (vendor_payment_allocations db). vpa_bill a \<in> vb_id ` set (vendor_bills db) \<and> 0 < vpa_amount a \<and>
        on_grid MONEY_SCALE (vpa_amount a))"

lemma ap_wfD:
  assumes "ap_wf db"
  shows "books_wf db" "distinct (map vb_id (vendor_bills db))"
    "\<And>b. b \<in> set (vendor_bills db) \<Longrightarrow> vb_id b < uuid_supply db"
    "\<And>b. b \<in> set (vendor_bills db) \<Longrightarrow> bill_ok (vendor_bill_lines db) (vendor_payment_allocations db) b"
    "\<And>l. l \<in> set (vendor_bill_lines db) \<Longrightarrow> vbl_bill l \<in> vb_id ` set (vendor_bills db)"
    "\<And>l. l \<in> set (vendor_bill_lines db) \<Longrightarrow> on_grid MONEY_SCALE (vbl_net l) \<and> on_grid MONEY_SCALE (vbl_tax l)"
    "\<And>a. a \<in> set (vendor_payment_allocations db) \<Longrightarrow> vpa_bill a \<in> vb_id ` set (vendor_bills db) \<and> 0 < vpa_amount a \<and>
      on_grid MONEY_SCALE (vpa_amount a)"
  using assms unfolding ap_wf_def by blast+

lemma ap_wf_frame:
  assumes "ap_wf db" and "books_wf db'" and "fin_db.more db' = fin_db.more db" and "uuid_supply db \<le> uuid_supply db'"
  shows "ap_wf db'"
  using assms(1,2,4) unfolding ap_wf_def ap_frame_fin [OF assms(3)] by (meson less_le_trans)

subsection \<open>Drafts\<close>

lemma line_tax_grid:
  "on_grid (currency_decimals cur) (cal_net (calculate_line_tax b tc d cur))"
  "on_grid (currency_decimals cur) (cal_tax (calculate_line_tax b tc d cur))"
  by (simp_all add: calculate_line_tax_def Let_def on_grid_diff)

lemma bill_line_amounts_grid:
  assumes "bill_line_amounts db t cur l = Inr (n, x)"
  shows "on_grid (currency_decimals cur) n" and "on_grid (currency_decimals cur) x"
  using assms line_tax_grid [of cur]
  by (auto simp: bill_line_amounts_def quantize_for_currency_def Let_def elim!: bindr_InrE split: option.splits)

lemma bill_rows_props:
  "bill_rows db t cur n ls = Inr rows \<Longrightarrow> map vbl_number rows = [n..<n + length ls] \<and>
   (\<forall>r \<in> set rows. vbl_tenant r = t \<and> on_grid (currency_decimals cur) (vbl_net r) \<and> on_grid (currency_decimals cur) (vbl_tax r))"
proof (induction ls arbitrary: n rows)
  case (Cons l ls)
  then obtain a x rest where a: "bill_line_amounts db t cur l = Inr (a, x)" and rest: "bill_rows db t cur (Suc n) ls = Inr rest"
    and rows: "rows = \<lparr>vbl_id = 0, vbl_tenant = t, vbl_bill = 0, vbl_number = n, vbl_account = vblc_account l,
           vbl_description = vblc_description l, vbl_net = a, vbl_tax_code = vblc_tax_code l,
           vbl_tax = x, vbl_cost_center = vblc_cost_center l, vbl_project = vblc_project l\<rparr> # rest"
    by (auto elim!: bindr_InrE)
  from Cons.IH [OF rest] bill_line_amounts_grid [OF a] show ?case by (simp add: rows upt_conv_Cons del: upt_Suc)
qed simp

definition numbered_lines :: "uuid \<Rightarrow> nat \<Rightarrow> vendor_bill_line list \<Rightarrow> vendor_bill_line list" where
  "numbered_lines b k rows = map (\<lambda>(i, r). stored_bill_line (r\<lparr>vbl_id := i, vbl_bill := b\<rparr>)) (zip [k..<k + length rows] rows)"

lemma fold_add_bill_line:
  "fold (add_bill_line b) rows db = db\<lparr>uuid_supply := uuid_supply db + length rows,
     vendor_bill_lines := vendor_bill_lines db @ numbered_lines b (uuid_supply db) rows\<rparr>"
proof (induction rows arbitrary: db)
  case (Cons r rows)
  show ?case
    unfolding fold_Cons comp_apply Cons
    by (simp add: add_bill_line_def uuid4_def numbered_lines_def upt_conv_Cons del: upt_Suc)
qed (simp add: numbered_lines_def)

lemma numbered_lines_props:
  assumes "\<forall>r \<in> set rows. on_grid MONEY_SCALE (vbl_net r) \<and> on_grid MONEY_SCALE (vbl_tax r)"
  shows "map vbl_net (numbered_lines b k rows) = map vbl_net rows" and "map vbl_tax (numbered_lines b k rows) = map vbl_tax rows"
    and "map vbl_number (numbered_lines b k rows) = map vbl_number rows"
    and "map vbl_tenant (numbered_lines b k rows) = map vbl_tenant rows"
    and "l \<in> set (numbered_lines b k rows) \<Longrightarrow> vbl_bill l = b"
proof -
  have aux: "map g (numbered_lines b k rows) = map g rows"
    if "\<And>i r. r \<in> set rows \<Longrightarrow> g (stored_bill_line (r\<lparr>vbl_id := i, vbl_bill := b\<rparr>)) = g r" for g :: "vendor_bill_line \<Rightarrow> 'z"
  proof -
    have "map g (numbered_lines b k rows) = map (g \<circ> snd) (zip [k..<k + length rows] rows)"
      using that by (auto simp: numbered_lines_def dest: set_zip_rightD)
    also have "\<dots> = map g rows" by (simp flip: map_map)
    finally show ?thesis .
  qed
  show "map vbl_net (numbered_lines b k rows) = map vbl_net rows" "map vbl_tax (numbered_lines b k rows) = map vbl_tax rows"
    "map vbl_number (numbered_lines b k rows) = map vbl_number rows" "map vbl_tenant (numbered_lines b k rows) = map vbl_tenant rows"
    using assms by (auto intro!: aux simp: stored_bill_line_def store_money_grid)
  show "l \<in> set (numbered_lines b k rows) \<Longrightarrow> vbl_bill l = b"
    by (auto simp: numbered_lines_def stored_bill_line_def)
qed

lemma create_vendor_bill_Inr:
  assumes "create_vendor_bill db t p = Inr (b, db')"
  obtains rows d where "bill_rows db t (vbc_currency p) 1 (vbc_lines p) = Inr rows" and "vbc_lines p \<noteq> []"
    and "b = \<lparr>vb_id = uuid_supply db, vb_tenant = t, vb_document = doc_pk d,
            vb_partner = vbc_partner p, vb_partner_name = vbc_partner_name p,
            vb_external_ref = vbc_external_ref p, vb_number = None, vb_date = vbc_date p,
            vb_due_date = vbc_due_date p, vb_currency = vbc_currency p,
            vb_status = BILL_DRAFT, vb_ap_account = vbc_ap_account p, vb_entry = None,
            vb_gross = sum_list (map (\<lambda>r. vbl_net r + vbl_tax r) rows),
            vb_tax = sum_list (map vbl_tax rows), vb_net = sum_list (map vbl_net rows), vb_open = 0,
            vb_description = vbc_description p\<rparr>"
    and "db' = db\<lparr>uuid_supply := Suc (Suc (uuid_supply db)) + length rows, documents := documents db @ [d],
       vendor_bills := vendor_bills db @ [stored_bill b],
       vendor_bill_lines := vendor_bill_lines db @ numbered_lines (uuid_supply db) (Suc (Suc (uuid_supply db))) rows\<rparr>"
proof -
  from assms obtain rows d db2 where rows: "bill_rows db t (vbc_currency p) 1 (vbc_lines p) = Inr rows" "vbc_lines p \<noteq> []"
    and reg: "register_document (db\<lparr>uuid_supply := Suc (uuid_supply db)\<rparr>) t AP_BILL_DOC_TYPE (uuid_supply db) None
               (Some (bill_status_str BILL_DRAFT)) = Inr (d, db2)"
    and b: "b = \<lparr>vb_id = uuid_supply db, vb_tenant = t, vb_document = doc_pk d,
            vb_partner = vbc_partner p, vb_partner_name = vbc_partner_name p,
            vb_external_ref = vbc_external_ref p, vb_number = None, vb_date = vbc_date p,
            vb_due_date = vbc_due_date p, vb_currency = vbc_currency p,
            vb_status = BILL_DRAFT, vb_ap_account = vbc_ap_account p, vb_entry = None,
            vb_gross = sum_list (map (\<lambda>r. vbl_net r + vbl_tax r) rows),
            vb_tax = sum_list (map vbl_tax rows), vb_net = sum_list (map vbl_net rows), vb_open = 0,
            vb_description = vbc_description p\<rparr>"
    and db': "db' = fold (add_bill_line (uuid_supply db)) rows (db2\<lparr>vendor_bills := vendor_bills db2 @ [stored_bill b]\<rparr>)"
    unfolding create_vendor_bill_def uuid4_def Let_def prod.case by (clarsimp simp: if_Inl_Inr elim!: bindr_InrE)
  have "db' = db\<lparr>uuid_supply := Suc (Suc (uuid_supply db)) + length rows, documents := documents db @ [d],
       vendor_bills := vendor_bills db @ [stored_bill b],
       vendor_bill_lines := vendor_bill_lines db @ numbered_lines (uuid_supply db) (Suc (Suc (uuid_supply db))) rows\<rparr>"
    unfolding db' fold_add_bill_line register_document_Inr(2) [OF reg] by simp
  then show thesis using rows b by (intro that)
qed

lemma create_vendor_bill_effect:
  assumes wf: "ap_wf db" and cr: "create_vendor_bill db t p = Inr (b, db')"
  shows "ap_wf db'" and "vendor_bills db' = vendor_bills db @ [b]" and "vb_status b = BILL_DRAFT" and "vb_open b = 0"
    and "vb_gross b = vb_net b + vb_tax b" and "vb_net b = sum_list (map vbl_net (lines_of b (vendor_bill_lines db')))"
    and "vb_tax b = sum_list (map vbl_tax (lines_of b (vendor_bill_lines db')))"
    and "map vbl_number (lines_of b (vendor_bill_lines db')) = [1..<Suc (length (vbc_lines p))]"
    and "on_grid (currency_decimals (vbc_currency p)) (vb_gross b)"
    and "journal_entries db' = journal_entries db" and "journal_lines db' = journal_lines db"
    and "pending_events db' = pending_events db" and "vendor_payment_allocations db' = vendor_payment_allocations db"
proof (atomize (full), rule create_vendor_bill_Inr [OF cr], goal_cases)
  case (1 rows d)
  note b = 1(3) and db' = 1(4)
  define new where "new = numbered_lines (uuid_supply db) (Suc (Suc (uuid_supply db))) rows"
  note R = bill_rows_props [OF 1(1)] and W = ap_wfD [OF wf]
  have g6: "on_grid MONEY_SCALE x" if "on_grid (currency_decimals (vbc_currency p)) x" for x
    using that by (rule on_grid_mono) simp
  have grid: "\<forall>r \<in> set rows. on_grid MONEY_SCALE (vbl_net r) \<and> on_grid MONEY_SCALE (vbl_tax r)"
    using R g6 by blast
  note N = numbered_lines_props [OF grid, where b = "uuid_supply db" and k = "Suc (Suc (uuid_supply db))", folded new_def]
  have sum: "on_grid (currency_decimals (vbc_currency p)) (sum_list (map f rows))"
    if "\<And>r. r \<in> set rows \<Longrightarrow> on_grid (currency_decimals (vbc_currency p)) (f r)" for f
    by (intro on_grid_sum_list) (use that in auto)
  have gs: "on_grid (currency_decimals (vbc_currency p)) (vb_gross b)" "on_grid (currency_decimals (vbc_currency p)) (vb_tax b)"
    "on_grid (currency_decimals (vbc_currency p)) (vb_net b)"
    unfolding b using R by (auto intro!: sum intro: on_grid_add)
  then have st: "stored_bill b = b" using g6 store_money_grid by (simp add: stored_bill_def b)
  have gross: "vb_gross b = vb_net b + vb_tax b" by (simp add: b sum_list_addf)
  have img: "vbl_tenant ` set new = vbl_tenant ` set rows" "vbl_net ` set new = vbl_net ` set rows"
    "vbl_tax ` set new = vbl_tax ` set rows" 
    using arg_cong [OF N(4), of set] arg_cong [OF N(1), of set] arg_cong [OF N(2), of set] by simp_all
  have ten: "\<forall>l \<in> set new. vbl_tenant l = t" using img(1) R by force
  have "filter (\<lambda>l. vbl_tenant l = t \<and> vbl_bill l = uuid_supply db) (vendor_bill_lines db) = []"
    using W(3,5) by (fastforce simp: filter_empty_conv)
  moreover have "filter (\<lambda>l. vbl_tenant l = t \<and> vbl_bill l = uuid_supply db) new = new"
    using ten N(5) by (intro filter_True) blast
  ultimately have own: "lines_of b (vendor_bill_lines db') = new" unfolding db' new_def [symmetric] lines_of_def by (simp add: b)
  have other: "lines_of c (vendor_bill_lines db') = lines_of c (vendor_bill_lines db)" if "c \<in> set (vendor_bills db)" for c
    using N(5) W(3) [OF that] unfolding db' new_def [symmetric] lines_of_def by (auto simp: filter_empty_conv)
  have noal: "allocated (uuid_supply db) (vendor_payment_allocations db) = 0"
    unfolding allocated_def using W(3,7) by (subst filter_False) fastforce+
  have net: "vb_net b = sum_list (map vbl_net new)" "vb_tax b = sum_list (map vbl_tax new)" using N(1,2) by (simp_all add: b)
  have "bill_ok (vendor_bill_lines db') (vendor_payment_allocations db) b"
    unfolding bill_ok_def own using gross net noal gs(1) by (simp add: b)
  moreover have "bill_ok (vendor_bill_lines db') (vendor_payment_allocations db) c" if "c \<in> set (vendor_bills db)" for c
    using W(4) [OF that] unfolding bill_ok_def other [OF that] .
  moreover have "books_wf db'" by (rule books_wf_frame [OF W(1)]) (simp_all add: db')
  moreover have "on_grid MONEY_SCALE (vbl_net l) \<and> on_grid MONEY_SCALE (vbl_tax l)" if "l \<in> set new" for l
    using imageI [OF that, of vbl_net] imageI [OF that, of vbl_tax] grid unfolding img(2,3) by force
  moreover have T: "vendor_bills db' = vendor_bills db @ [b]" "vendor_bill_lines db' = vendor_bill_lines db @ new"
    "vendor_payment_allocations db' = vendor_payment_allocations db" "uuid_supply db < uuid_supply db'"
    by (simp_all add: db' st new_def)
  moreover have id: "vb_id b = uuid_supply db" by (simp add: b)
  moreover have "uuid_supply db \<notin> vb_id ` set (vendor_bills db)" using W(3) by force
  ultimately have "ap_wf db'"
    using W N(5) unfolding ap_wf_def T by (auto simp: id less_trans [OF _ T(4)])
  then show ?case
    using own gross net gs(1) R N(3) T by (simp add: db' b del: upt_Suc)
qed

subsection \<open>The lines a bill posts\<close>

definition taxed :: "vendor_bill_line \<Rightarrow> bool" where
  "taxed l \<longleftrightarrow> vbl_tax_code l \<noteq> None \<and> vbl_tax l \<noteq> 0"

definition tax_account :: "(uuid \<times> uuid) list \<Rightarrow> vendor_bill_line \<Rightarrow> uuid" where
  "tax_account accts l = the (map_of accts (the (vbl_tax_code l)))"

text \<open>The debits of a bill, one per line and one more per taxed line, and its credit.\<close>

definition bill_sides :: "(uuid \<times> uuid) list \<Rightarrow> vendor_bill \<Rightarrow> vendor_bill_line list \<Rightarrow> (uuid \<times> decimal \<times> decimal \<times> uuid option) multiset" where
  "bill_sides accts b ls =
     mset (map (\<lambda>l. (vbl_account l, vbl_net l, 0, None)) ls) +
     mset (map (\<lambda>l. (tax_account accts l, vbl_tax l, 0, None)) (filter taxed ls)) +
     {#(vb_ap_account b, 0, vb_gross b, Some (vb_partner b))#}"

lemma bill_postings_view:
  "fold_result (bill_line_postings accts) ls acc = Inr acc' \<Longrightarrow>
   \<forall>l \<in> set ls. on_grid MONEY_SCALE (vbl_net l) \<and> on_grid MONEY_SCALE (vbl_tax l) \<Longrightarrow>
   mset (map payload_view acc') = mset (map payload_view acc) +
     mset (map (\<lambda>l. (vbl_account l, vbl_net l, 0, None)) ls) +
     mset (map (\<lambda>l. (tax_account accts l, vbl_tax l, 0, None)) (filter taxed ls))"
proof (induction ls arbitrary: acc)
  case (Cons l ls)
  then obtain acc1 where s: "bill_line_postings accts l acc = Inr acc1"
    and r: "fold_result (bill_line_postings accts) ls acc1 = Inr acc'" by auto
  have "mset (map payload_view acc1) = mset (map payload_view acc) + {#(vbl_account l, vbl_net l, 0, None)#} +
      (if taxed l then {#(tax_account accts l, vbl_tax l, 0, None)#} else {#})"
    using s Cons.prems(2)
    by (auto simp: bill_line_postings_def taxed_def tax_account_def payload_view_def store_money_grid Let_def line_for_def
        split: option.splits if_splits)
  with Cons.IH [OF r] Cons.prems(2) show ?case by (simp add: ac_simps)
qed simp

lemma bill_journal_lines_view:
  assumes "bill_journal_lines b ls accts = Inr jls" and "on_grid MONEY_SCALE (vb_gross b)"
    and "\<forall>l \<in> set ls. on_grid MONEY_SCALE (vbl_net l) \<and> on_grid MONEY_SCALE (vbl_tax l)"
  shows "mset (map payload_view jls) = bill_sides accts b ls"
proof -
  from assms(1) obtain acc where f: "fold_result (bill_line_postings accts) ls [] = Inr acc"
    and j: "jls = acc @ [(line_for (vb_ap_account b) (Some (''AP '' @ vb_partner_name b)) 0 (vb_gross b))
       \<lparr>jlc_partner_type := Some AP_PARTNER_TYPE, jlc_partner := Some (vb_partner b)\<rparr>]"
    by (auto simp: bill_journal_lines_def)
  show ?thesis using bill_postings_view [OF f assms(3)] assms(2)
    by (simp add: j bill_sides_def payload_view_def store_money_grid)
qed

lemma get_vendor_bill_Inr:
  "get_vendor_bill db t i = Inr b \<Longrightarrow>
   b \<in> set (vendor_bills db) \<and> vb_id b = i \<and> vb_tenant b = t \<and> find_row vb_id i (vendor_bills db) = Some b"
  by (auto simp: get_vendor_bill_def dest: find_row_Some_iff split: option.splits if_splits)

lemma bill_lines_mset: "vb_tenant b = t \<Longrightarrow> vb_id b = i \<Longrightarrow> mset (get_vendor_bill_lines db t i) = mset (lines_of b (vendor_bill_lines db))"
  by (simp add: get_vendor_bill_lines_def lines_of_def)

lemma bill_sides_mset: "mset ls = mset ls' \<Longrightarrow> bill_sides accts b ls = bill_sides accts b ls'"
  by (simp add: bill_sides_def mset_filter)

text \<open>Every taxed line has an account, the receivable account of a tax code.\<close>

lemma resolve_tax_accounts_fold:
  assumes "fold_result (resolve_tax_account db t) ls acc = Inr accts"
    and "Some ` snd ` set acc \<subseteq> tc_receivable_account ` set (tax_codes db)"
  shows "Some ` snd ` set accts \<subseteq> tc_receivable_account ` set (tax_codes db) \<and>
    (\<forall>i. map_of acc i \<noteq> None \<longrightarrow> map_of accts i \<noteq> None) \<and>
    (\<forall>l \<in> set ls. taxed l \<longrightarrow> map_of accts (the (vbl_tax_code l)) \<noteq> None)"
  using assms
proof (induction ls arbitrary: acc)
  case (Cons l ls)
  then obtain acc1 where s: "resolve_tax_account db t l acc = Inr acc1"
    and r: "fold_result (resolve_tax_account db t) ls acc1 = Inr accts" by auto
  have "Some ` snd ` set acc1 \<subseteq> tc_receivable_account ` set (tax_codes db) \<and>
      (\<forall>i. map_of acc i \<noteq> None \<longrightarrow> map_of acc1 i \<noteq> None) \<and> (taxed l \<longrightarrow> map_of acc1 (the (vbl_tax_code l)) \<noteq> None)"
    using s Cons.prems(2)
    by (auto simp: resolve_tax_account_def taxed_def line_tax_code_def one_or_none_Inr_iff map_add_def
        elim!: bindr_InrE dest!: filter_ConsD split: option.splits if_splits)
      (metis imageI, metis (no_types) image_eqI snd_conv subsetD)
  then show ?case using Cons.IH [OF r] by auto
qed auto

lemma tax_account_wired:
  assumes "resolve_tax_accounts db t ls = Inr accts" and "l \<in> set ls" and "taxed l"
  shows "\<exists>c \<in> set (tax_codes db). tc_receivable_account c = Some (tax_account accts l)"
proof -
  note R = resolve_tax_accounts_fold [OF assms(1) [unfolded resolve_tax_accounts_def]]
  then obtain x where x: "map_of accts (the (vbl_tax_code l)) = Some x" using assms(2,3) by fastforce
  then have "x \<in> snd ` set accts" using map_of_SomeD [OF x] by force
  then have "Some x \<in> tc_receivable_account ` set (tax_codes db)" using R by auto
  then show ?thesis using x by (auto simp: tax_account_def)
qed

subsection \<open>Posting\<close>

lemma mark_posted_simps [simp]:
  "vb_id (mark_posted n e b) = vb_id b" "vb_tenant (mark_posted n e b) = vb_tenant b"
  "vb_status (mark_posted n e b) = BILL_POSTED" "vb_open (mark_posted n e b) = vb_gross b"
  "vb_gross (mark_posted n e b) = vb_gross b" "vb_net (mark_posted n e b) = vb_net b" "vb_tax (mark_posted n e b) = vb_tax b"
  "lines_of (mark_posted n e b) ls = lines_of b ls" "vb_currency (mark_posted n e b) = vb_currency b"
  by (simp_all add: mark_posted_def lines_of_def)

lemma post_vendor_bill_Inr:
  assumes "post_vendor_bill db t i d = Inr (b', db')" and "get_vendor_bill db t i = Inr b" and "vb_status b = BILL_DRAFT"
  obtains accts jls c e db1 e' db2 s db3 n db4 db6 k db7 where
    "resolve_tax_accounts db t (get_vendor_bill_lines db t i) = Inr accts"
    "bill_journal_lines b (get_vendor_bill_lines db t i) accts = Inr jls"
    "create_draft_entry db t c None = Inr (e, db1)" "jec_lines c = jls" "jec_document_type c = AP_INVOICE"
    "jec_posting_date c = (case d of Some d \<Rightarrow> d | None \<Rightarrow> vb_date b)" "jec_currency c = vb_currency b"
    "post_entry db1 t (je_id e) None False = Inr (e', db2)"
    "ensure_sequence db2 t AP_BILL_SEQUENCE_NAME AP_BILL_NUMBER_PREFIX AP_BILL_NUMBER_PADDING True = Inr (s, db3)"
    "claim_number db3 t AP_BILL_SEQUENCE_NAME (vb_date b) = Inr (n, db4)"
    "set_document_status (db4\<lparr>vendor_bills := upd_rows (\<lambda>b. vb_id b = i) (mark_posted n (je_id e)) (vendor_bills db4)\<rparr>) t
       (vb_document b) (Some (bill_status_str BILL_POSTED)) (Some n) = Inr db6"
    "link_documents db6 t (vb_document b) (je_document e) (Some AP_BILL_POSTS_LINK) = Inr (k, db7)"
    "b' = mark_posted n (je_id e) b"
    "db' = publish (VendorBillPosted t i n (je_id e) (vb_partner b) (vb_currency b) (vb_gross b) (vb_tax b) (vb_net b)) db7"
  using assms(1) unfolding post_vendor_bill_def assms(2) Let_def by (clarsimp simp: assms(3) elim!: bindr_InrE)

lemma ap_wf_mark_posted:
  assumes wf: "ap_wf db" and b: "b \<in> set (vendor_bills db)" "vb_id b = i" "vb_status b = BILL_DRAFT" "0 < vb_gross b"
    and vb: "vendor_bills db' = upd_rows (\<lambda>x. vb_id x = i) (mark_posted n e) (vendor_bills db)"
    and vl: "vendor_bill_lines db' = vendor_bill_lines db" and va: "vendor_payment_allocations db' = vendor_payment_allocations db"
    and bk: "books_wf db'" and u: "uuid_supply db \<le> uuid_supply db'"
  shows "ap_wf db'"
proof -
  note W = ap_wfD [OF wf]
  have ids: "map vb_id (vendor_bills db') = map vb_id (vendor_bills db)" unfolding vb by (simp add: map_upd_rows)
  then have idset: "vb_id ` set (vendor_bills db') = vb_id ` set (vendor_bills db)" by (metis set_map)
  have "vb_id x < uuid_supply db' \<and> bill_ok (vendor_bill_lines db) (vendor_payment_allocations db) x"
    if x: "x \<in> set (vendor_bills db')" for x
  proof -
    from x obtain y where y: "y \<in> set (vendor_bills db)" "x = (if vb_id y = i then mark_posted n e y else y)"
      unfolding vb upd_rows_def by auto
    show ?thesis
    proof (cases "vb_id y = i")
      case True
      then have "y = b" using W(2) y(1) b(1,2) by (metis distinct_map inj_onD)
      then show ?thesis using y(2) True W(3,4) [OF b(1)] b u by (auto simp: bill_ok_def)
    next
      case False
      then show ?thesis using y W(3,4) [OF y(1)] u by auto
    qed
  qed
  then show ?thesis using W bk ids unfolding ap_wf_def idset vl va by auto
qed

text \<open>
  What posting a draft bill does, as one lemma for the properties and the payment run.
\<close>

definition bill_booked :: "'m ap_db_scheme \<Rightarrow> 'm ap_db_scheme \<Rightarrow> date \<Rightarrow> vendor_bill \<Rightarrow> vendor_bill \<Rightarrow> bool" where
  "bill_booked db db' d b b' \<longleftrightarrow>
     (\<exists>e accts. journal_entries db' = journal_entries db @ [e] \<and> vb_entry b' = Some (je_id e) \<and>
        je_status e = POSTED \<and> je_document_type e = AP_INVOICE \<and> je_tenant e = vb_tenant b \<and> je_posting_date e = d \<and>
        je_currency e = vb_currency b \<and> entry_balanced (entry_lines db' (je_id e)) \<and>
        resolve_tax_accounts db (vb_tenant b) (get_vendor_bill_lines db (vb_tenant b) (vb_id b)) = Inr accts \<and>
        mset (map side_view (entry_lines db' (je_id e))) = bill_sides accts b (lines_of b (vendor_bill_lines db)) \<and>
        mset (posted_lines db') = mset (posted_lines db) + mset (entry_lines db' (je_id e)) \<and>
        (functional_currency_or_none db (vb_tenant b) \<in> {Inr None, Inr (Some (vb_currency b))} \<longrightarrow>
           mset (map functional_view (entry_lines db' (je_id e))) =
             image_mset (\<lambda>(a, d, c, _). (a, d, c)) (bill_sides accts b (lines_of b (vendor_bill_lines db)))) \<and>
        (\<exists>l. l \<in> set (doc_links db') \<and> dl_predecessor l = vb_document b \<and> dl_successor l = je_document e))"

lemma post_vendor_bill_effect:
  assumes wf: "ap_wf db" and po: "post_vendor_bill db t i d = Inr (b', db')"
    and g: "get_vendor_bill db t i = Inr b" and st: "vb_status b = BILL_DRAFT"
  shows "ap_wf db'" and "bill_booked db db' (case d of Some d \<Rightarrow> d | None \<Rightarrow> vb_date b) b b'"
    and "\<exists>n e. b' = mark_posted n e b \<and> vendor_bills db' = upd_rows (\<lambda>b. vb_id b = i) (mark_posted n e) (vendor_bills db)"
    and "vendor_payment_allocations db' = vendor_payment_allocations db" and "tax_codes db' = tax_codes db"
    and "currencies db' = currencies db" and "vendor_bill_lines db' = vendor_bill_lines db"
proof (atomize (full), rule post_vendor_bill_Inr [OF po g st], goal_cases)
  case (1 accts jls c e db1 e' db2 s db3 n db4 db6 k db7)
  note W = ap_wfD [OF wf] and G = get_vendor_bill_Inr [OF g]
  note B = booking_effect [OF W(1) 1(3,8)]
  have m4: "core_db.more db4 = core_db.more db2" "uuid_supply db2 \<le> uuid_supply db4"
    using ensure_sequence_frame(1,2) [OF 1(9)] claim_number_frame(7,8) [OF 1(10)] by simp_all
  let ?db5 = "db4\<lparr>vendor_bills := upd_rows (\<lambda>b. vb_id b = i) (mark_posted n (je_id e)) (vendor_bills db4)\<rparr>"
  note S = set_document_status_frame [OF 1(11)] and K = link_documents_frame [OF 1(12)] and L = link_documents_Inr [OF 1(12)]
  have m7: "core_db.more db7 = core_db.more ?db5" "uuid_supply db4 \<le> uuid_supply db7" using S K by simp_all
  have f4: "fin_db.more db4 = fin_db.more db" using fin_frame(8) [OF m4(1)] B(2) by simp
  have J: "journal_entries db' = journal_entries db2" "journal_lines db' = journal_lines db2"
    using fin_frame(6,7) [OF m7(1)] fin_frame(6,7) [OF m4(1)] by (simp_all add: 1(14) publish_def)
  have V: "vendor_bills db' = upd_rows (\<lambda>b. vb_id b = i) (mark_posted n (je_id e)) (vendor_bills db)"
    "vendor_bill_lines db' = vendor_bill_lines db" "vendor_payment_allocations db' = vendor_payment_allocations db"
    using ap_frame(3,4,6) [OF m7(1)] ap_frame_fin(3,4,6) [OF f4] by (simp_all add: 1(14) publish_def)
  have U: "uuid_supply db \<le> uuid_supply db'" "uuid_supply db2 \<le> uuid_supply db'"
    using B(3) m4(2) m7(2) by (simp_all add: 1(14) publish_def)
  have bk: "books_wf db'" using B(1) by (rule books_wf_frame) (simp add: J U)
  have ls: "mset (get_vendor_bill_lines db t i) = mset (lines_of b (vendor_bill_lines db))"
    by (rule bill_lines_mset) (use G in simp_all)
  then have "\<forall>l \<in> set (get_vendor_bill_lines db t i). on_grid MONEY_SCALE (vbl_net l) \<and> on_grid MONEY_SCALE (vbl_tax l)"
    using W(6) by (auto simp: get_vendor_bill_lines_def)
  moreover have "on_grid MONEY_SCALE (vb_gross b)"
    using W(4) [of b] G on_grid_mono [of "currency_decimals (vb_currency b)" "vb_gross b" MONEY_SCALE]
    unfolding bill_ok_def by (meson currency_decimals_le)
  ultimately have jls: "mset (map payload_view jls) = bill_sides accts b (lines_of b (vendor_bill_lines db))"
    using bill_journal_lines_view [OF 1(2)] bill_sides_mset [OF ls] by simp
  then have sides: "mset (map side_view (entry_lines db2 (je_id e'))) = bill_sides accts b (lines_of b (vendor_bill_lines db))"
    using B(15) by (simp add: 1(4))
  have fview: "functional_currency_or_none db (vb_tenant b) \<in> {Inr None, Inr (Some (vb_currency b))} \<longrightarrow>
      mset (map functional_view (entry_lines db2 (je_id e'))) =
        image_mset (\<lambda>(a, d, c, _). (a, d, c)) (bill_sides accts b (lines_of b (vendor_bill_lines db)))"
    using booking_functional [OF W(1) 1(3,8)] 1(4,7) G unfolding jls [symmetric] plain_sides
    by (auto simp: image_mset.compositionality)
  from sides have "(vb_ap_account b, 0, vb_gross b, Some (vb_partner b)) \<in># mset (map side_view (entry_lines db2 (je_id e')))"
    by (simp add: bill_sides_def)
  then obtain l where l: "l \<in> set (entry_lines db2 (je_id e'))" "side_view l = (vb_ap_account b, 0, vb_gross b, Some (vb_partner b))"
    by auto
  then have "line_ok l" using books_wfD(5) [OF B(1)] by (simp add: entry_lines_def)
  with l(2) have pos: "0 < vb_gross b" by (auto simp: line_ok_def one_side_def side_view_def)
  have ap: "ap_wf db'" by (rule ap_wf_mark_posted [OF wf _ _ st pos V bk U(1)]) (use G in simp_all)
  have doc: "doc_links db' = doc_links db7" by (simp add: 1(14) publish_def)
  have L': "entry_lines db' j = entry_lines db2 j" "posted_lines db' = posted_lines db2" for j
    by (simp_all add: entry_lines_def posted_lines_def J)
  have be: "vb_entry b' = Some (je_id e')" by (simp add: 1(13) mark_posted_def B(11))
  have lk: "\<exists>l. l \<in> set (doc_links db7) \<and> dl_predecessor l = vb_document b \<and> dl_successor l = je_document e'"
    using L(1,3,4) B(12) by metis
  have res: "resolve_tax_accounts db (vb_tenant b) (get_vendor_bill_lines db (vb_tenant b) (vb_id b)) = Inr accts"
    using 1(1) G by simp
  have "bill_booked db db' (case d of Some d \<Rightarrow> d | None \<Rightarrow> vb_date b) b b'"
    unfolding bill_booked_def L' J(1) doc
    by (intro exI [of _ e'] exI [of _ accts] conjI B(4,5,13,14) sides fview be lk res) (use B(7-10) 1(5-7) G in simp_all)
  moreover have "tax_codes db' = tax_codes db" "currencies db' = currencies db"
    using ap_frame(1) [OF m7(1)] ap_frame_fin(1) [OF f4] fin_frame(4) [OF m7(1)] fin_frame(4) [OF m4(1)] B(16)
    by (simp_all add: 1(14) publish_def)
  ultimately show ?case using ap V 1(13) by blast
qed

subsection \<open>Properties\<close>

text \<open>
  A draft bill adds up: the gross is the net plus the tax, and these are the sums over the bill's
  own lines, which are the payload's lines numbered from 1; the amounts are whole minor units of
  the currency; nothing is open and nothing is booked yet; and the subledger stays well formed.
\<close>

theorem draft_bill_adds_up:
  assumes "ap_wf db" and "create_vendor_bill db t p = Inr (b, db')"
  shows "ap_wf db' \<and> vendor_bills db' = vendor_bills db @ [b] \<and> vb_status b = BILL_DRAFT \<and> vb_open b = 0 \<and>
    vb_gross b = vb_net b + vb_tax b \<and>
    vb_net b = sum_list (map vbl_net (lines_of b (vendor_bill_lines db'))) \<and>
    vb_tax b = sum_list (map vbl_tax (lines_of b (vendor_bill_lines db'))) \<and>
    map vbl_number (lines_of b (vendor_bill_lines db')) = [1..<Suc (length (vbc_lines p))] \<and>
    on_grid (currency_decimals (vbc_currency p)) (vb_gross b) \<and>
    journal_entries db' = journal_entries db \<and> journal_lines db' = journal_lines db"
  using create_vendor_bill_effect [OF assms] by (simp del: upt_Suc)

text \<open>
  C30. Posting a draft bill books exactly the bill, once: one new posted AP_INVOICE entry of the bill's
  currency on the posting date, balanced, whose lines are a debit per bill line, a debit per taxed
  line on the tax code's receivable account and one credit of the gross on the AP control account
  keyed by the vendor; the bill is open with its gross, and its document is linked to the entry's.
  Posting it again changes nothing.
\<close>

theorem posting_books_the_bill:
  assumes "ap_wf db" and "get_vendor_bill db t i = Inr b" and "vb_status b = BILL_DRAFT"
    and "post_vendor_bill db t i d = Inr (b', db')"
  shows "ap_wf db' \<and> vb_status b' = BILL_POSTED \<and> vb_open b' = vb_gross b \<and> vb_number b' \<noteq> None \<and>
    bill_booked db db' (case d of Some d \<Rightarrow> d | None \<Rightarrow> vb_date b) b b' \<and>
    post_vendor_bill db' t i d' = Inr (b', db')"
proof -
  note E = post_vendor_bill_effect [OF assms(1,4,2,3)] and G = get_vendor_bill_Inr [OF assms(2)]
  from E(3) obtain n e where b': "b' = mark_posted n e b"
    and vb: "vendor_bills db' = upd_rows (\<lambda>b. vb_id b = i) (mark_posted n e) (vendor_bills db)" by blast
  have "find_row vb_id i (vendor_bills db') = Some b'"
    using G by (simp add: vb find_row_upd_rows b')
  then have "get_vendor_bill db' t i = Inr b'" using G by (simp add: get_vendor_bill_def b')
  then have "post_vendor_bill db' t i d' = Inr (b', db')" by (simp add: post_vendor_bill_def b')
  then show ?thesis using E(1,2) by (simp add: b') (simp add: mark_posted_def)
qed

text \<open>A bill of 15.00 for the sample tenant.\<close>

definition sample_bill :: vendor_bill_create where
  "sample_bill = \<lparr>vbc_partner = 7, vbc_partner_name = ''ACME'', vbc_date = Date 2024 3 4, vbc_due_date = Date 2024 3 20,
     vbc_currency = ''USD'', vbc_ap_account = 20, vbc_external_ref = None, vbc_description = None,
     vbc_lines = [\<lparr>vblc_account = 10, vblc_description = None, vblc_net = 15, vblc_tax_code = None,
       vblc_cost_center = None, vblc_project = None\<rparr>]\<rparr>"

definition billed :: ap_db where
  "billed = snd (projr (create_vendor_bill sample_ap 1 sample_bill))"

definition posted_bill :: ap_db where
  "posted_bill = snd (projr (post_vendor_bill billed 1 50 None))"

lemma sample_ap_wf: "ap_wf sample_ap"
  by (simp add: ap_wf_def books_wf_def sample_ap_def)

lemma billed_Inr: obtains b where "create_vendor_bill sample_ap 1 sample_bill = Inr (b, billed)"
proof -
  have "is_ok (create_vendor_bill sample_ap 1 sample_bill)" by code_simp
  then show thesis using that by (auto simp: billed_def elim!: is_okE)
qed

lemma billed_wf: "ap_wf billed"
  by (rule billed_Inr) (rule create_vendor_bill_effect(1) [OF sample_ap_wf])

theorem draft_bill_adds_up_witness:
  "\<exists>b. create_vendor_bill sample_ap 1 sample_bill = Inr (b, billed) \<and> vendor_bills billed = [b] \<and>
     vb_gross b = vb_net b + vb_tax b"
proof (rule billed_Inr)
  fix b assume c: "create_vendor_bill sample_ap 1 sample_bill = Inr (b, billed)"
  have "vendor_bills sample_ap = []" by (simp add: sample_ap_def)
  with draft_bill_adds_up [OF sample_ap_wf c] c show ?thesis by auto
qed

lemma billed_draft: obtains b where "get_vendor_bill billed 1 50 = Inr b" and "vb_status b = BILL_DRAFT"
proof -
  have "case get_vendor_bill billed 1 50 of Inl _ \<Rightarrow> False | Inr b \<Rightarrow> vb_status b = BILL_DRAFT" by code_simp
  then show thesis using that by (auto split: sum.splits)
qed

lemma posted_bill_Inr: obtains b where "post_vendor_bill billed 1 50 None = Inr (b, posted_bill)"
proof -
  have "is_ok (post_vendor_bill billed 1 50 None)" by code_simp
  then show thesis using that by (auto simp: posted_bill_def elim!: is_okE)
qed

theorem posting_books_the_bill_witness:
  "\<exists>b. post_vendor_bill billed 1 50 None = Inr (b, posted_bill) \<and> vb_status b = BILL_POSTED \<and>
     post_vendor_bill posted_bill 1 50 None = Inr (b, posted_bill)"
proof (rule billed_draft)
  fix b assume b: "get_vendor_bill billed 1 50 = Inr b" "vb_status b = BILL_DRAFT"
  obtain b' where "post_vendor_bill billed 1 50 None = Inr (b', posted_bill)" by (rule posted_bill_Inr)
  with posting_books_the_bill [OF billed_wf b this] show ?thesis by blast
qed

end
