(* ===== verification/Open_Items.thy ===== *)
theory Open_Items
  imports Money
begin

text \<open>
  The contract of an open-item subledger, shared by payables and receivables: an item has a gross
  and an open amount and a phase, allocations settle items in part or in full, and settling reduces
  what is open. The locale \<open>open_items\<close> states what a subledger provides; its lemmas show that what is
  open is always the gross less the allocations, however many items a payment settles.
\<close>

datatype phase = Unposted | Open | Partly | Cleared | Void

locale open_items =
  fixes item_id :: "'b \<Rightarrow> nat" and gross opn :: "'b \<Rightarrow> decimal" and phase_of :: "'b \<Rightarrow> phase"
    and scale :: "'b \<Rightarrow> nat" and settle :: "decimal \<Rightarrow> 'b \<Rightarrow> 'b" and alloc_item :: "'a \<Rightarrow> nat" and alloc_amount :: "'a \<Rightarrow> decimal"
  assumes settle_id: "item_id (settle x b) = item_id b"
    and scale_le: "scale b \<le> MONEY_SCALE"
    and settle_scale: "scale (settle x b) = scale b"
    and settle_gross: "gross (settle x b) = gross b"
    and settle_open: "on_grid MONEY_SCALE (opn b) \<Longrightarrow> on_grid MONEY_SCALE x \<Longrightarrow> opn (settle x b) = opn b - x"
    and settle_phase: "phase_of (settle x b) = (if opn b = x then Cleared else Partly)"
begin

definition settled :: "nat \<Rightarrow> 'a list \<Rightarrow> decimal" where
  "settled i as = sum_list (map alloc_amount (filter (\<lambda>a. alloc_item a = i) as))"

definition item_ok :: "'a list \<Rightarrow> 'b \<Rightarrow> bool" where
  "item_ok as b \<longleftrightarrow> on_grid (scale b) (gross b) \<and> on_grid (scale b) (opn b) \<and>
     (case phase_of b of
        Unposted \<Rightarrow> opn b = 0 \<and> settled (item_id b) as = 0
      | Open \<Rightarrow> opn b = gross b \<and> 0 < gross b \<and> settled (item_id b) as = 0
      | Partly \<Rightarrow> 0 < opn b \<and> 0 < settled (item_id b) as \<and> opn b + settled (item_id b) as = gross b
      | Cleared \<Rightarrow> opn b = 0 \<and> 0 < gross b \<and> settled (item_id b) as = gross b
      | Void \<Rightarrow> False)"

definition payable :: "'b \<Rightarrow> bool" where
  "payable b \<longleftrightarrow> phase_of b \<in> {Open, Partly}"

text \<open>Settling the items of a payment, one after the other, and the allocations it records.\<close>

definition settle_all :: "('b \<times> decimal) list \<Rightarrow> 'b list \<Rightarrow> 'b list" where
  "settle_all ps bs = fold (\<lambda>p. upd_rows (\<lambda>b. item_id b = item_id (fst p)) (settle (snd p))) ps bs"

definition pays :: "('b \<times> decimal) list \<Rightarrow> 'a list \<Rightarrow> bool" where
  "pays ps new \<longleftrightarrow> map (\<lambda>a. (alloc_item a, alloc_amount a)) new = map (\<lambda>p. (item_id (fst p), snd p)) ps"

lemma settled_append: "settled i (as @ bs) = settled i as + settled i bs"
  by (simp add: settled_def)

lemma settle_on_scale: "on_grid (scale b) (opn b) \<Longrightarrow> on_grid (scale b) x \<Longrightarrow> opn (settle x b) = opn b - x"
  using on_grid_mono [OF _ scale_le] by (intro settle_open) auto

lemma settle_ok:
  assumes "item_ok as b" and "payable b" and "0 < x" and "x \<le> opn b" and "on_grid (scale b) x"
    and "settled (item_id b) new = x"
  shows "item_ok (as @ new) (settle x b)"
proof -
  have "opn (settle x b) = opn b - x" using assms(1,5) by (intro settle_on_scale) (simp_all add: item_ok_def)
  then show ?thesis
    using assms by (auto simp: item_ok_def payable_def settle_gross settle_phase settle_id settle_scale settled_append
        intro!: on_grid_diff split: phase.splits)
qed

lemma map_id_settle_all: "map item_id (settle_all ps bs) = map item_id bs"
  unfolding settle_all_def
  by (induction ps arbitrary: bs) (auto simp: upd_rows_def settle_id)

text \<open>With every item settled at most once, settling all of them is settling each by its amount.\<close>

lemma settle_all_map:
  assumes "distinct (map (item_id \<circ> fst) ps)"
  shows "settle_all ps bs =
    map (\<lambda>b. case map_of (map (\<lambda>p. (item_id (fst p), snd p)) ps) (item_id b) of Some x \<Rightarrow> settle x b | None \<Rightarrow> b) bs"
  using assms
proof (induction ps arbitrary: bs)
  case (Cons p ps)
  have "map_of (map (\<lambda>p. (item_id (fst p), snd p)) ps) (item_id (fst p)) = None"
    using Cons.prems by (auto simp: map_of_eq_None_iff image_iff)
  then show ?case
    using Cons by (auto simp: settle_all_def upd_rows_def settle_id split: option.splits)
qed (simp add: settle_all_def map_idI)

lemma settled_pays:
  assumes "pays ps new" and "distinct (map (item_id \<circ> fst) ps)"
  shows "settled i new = (case map_of (map (\<lambda>p. (item_id (fst p), snd p)) ps) i of Some x \<Rightarrow> x | None \<Rightarrow> 0)"
proof -
  have "settled i new = sum_list (map snd (filter (\<lambda>q. fst q = i) (map (\<lambda>a. (alloc_item a, alloc_amount a)) new)))"
    by (simp add: settled_def filter_map o_def)
  also have "\<dots> = sum_list (map snd (filter (\<lambda>q. fst q = i) (map (\<lambda>p. (item_id (fst p), snd p)) ps)))"
    using assms(1) by (simp add: pays_def)
  also have "\<dots> = (case map_of (map (\<lambda>p. (item_id (fst p), snd p)) ps) i of Some x \<Rightarrow> x | None \<Rightarrow> 0)"
    using assms(2)
  proof (induction ps)
    case (Cons p ps)
    have "filter (\<lambda>q. fst q = i) (map (\<lambda>p. (item_id (fst p), snd p)) ps) = []" if "item_id (fst p) = i"
      using Cons.prems that by (auto simp: filter_empty_conv image_iff)
    then show ?case using Cons by (cases "item_id (fst p) = i") simp_all
  qed simp
  finally show ?thesis .
qed

definition may_pay :: "'b list \<Rightarrow> 'b \<times> decimal \<Rightarrow> bool" where
  "may_pay bs p \<longleftrightarrow> fst p \<in> set bs \<and> payable (fst p) \<and> 0 < snd p \<and> snd p \<le> opn (fst p) \<and>
     on_grid (scale (fst p)) (snd p)"

lemma settle_all_ok:
  assumes ok: "\<forall>b \<in> set bs. item_ok as b" and ids: "distinct (map item_id bs)"
    and ps: "\<forall>p \<in> set ps. may_pay bs p" "distinct (map (item_id \<circ> fst) ps)" and new: "pays ps new"
  shows "\<forall>b \<in> set (settle_all ps bs). item_ok (as @ new) b"
proof -
  let ?m = "map_of (map (\<lambda>p. (item_id (fst p), snd p)) ps)"
  have "item_ok (as @ new) (case ?m (item_id b) of Some x \<Rightarrow> settle x b | None \<Rightarrow> b)" if b: "b \<in> set bs" for b
  proof (cases "?m (item_id b)")
    case None
    then have "settled (item_id b) new = 0" by (simp add: settled_pays [OF new ps(2)])
    then show ?thesis using ok b None by (auto simp: item_ok_def settled_append split: phase.splits)
  next
    case (Some x)
    then obtain p where p: "p \<in> set ps" "item_id (fst p) = item_id b" "snd p = x" by (auto dest!: map_of_SomeD)
    then have "fst p = b" using ps(1) ids b by (auto simp: may_pay_def distinct_map dest: inj_onD)
    then show ?thesis
      using settle_ok [of as b x new] ok b ps(1) p Some by (auto simp: may_pay_def settled_pays [OF new ps(2)])
  qed
  then show ?thesis unfolding settle_all_map [OF ps(2)] by auto
qed

text \<open>What is open on all items falls by exactly what is paid.\<close>

lemma sum_open_settle_all:
  assumes "\<forall>b \<in> set bs. on_grid (scale b) (opn b)" and ids: "distinct (map item_id bs)"
    and ps: "\<forall>p \<in> set ps. may_pay bs p" "distinct (map (item_id \<circ> fst) ps)"
  shows "sum_list (map opn (settle_all ps bs)) = sum_list (map opn bs) - sum_list (map snd ps)"
proof -
  let ?m = "map_of (map (\<lambda>p. (item_id (fst p), snd p)) ps)" and ?x = "\<lambda>m i. case m i of Some x \<Rightarrow> x | None \<Rightarrow> (0 :: decimal)"
  have "opn (case ?m (item_id b) of Some x \<Rightarrow> settle x b | None \<Rightarrow> b) = opn b - ?x ?m (item_id b)" if "b \<in> set bs" for b
  proof (cases "?m (item_id b)")
    case (Some x)
    then obtain p where p: "p \<in> set ps" "item_id (fst p) = item_id b" "snd p = x" by (auto dest!: map_of_SomeD)
    then have "fst p = b" using ps(1) ids that by (auto simp: may_pay_def distinct_map dest: inj_onD)
    then show ?thesis using Some assms(1) that ps(1) p by (auto simp: may_pay_def settle_on_scale)
  qed simp
  then have "sum_list (map opn (settle_all ps bs)) = sum_list (map (\<lambda>b. opn b - ?x ?m (item_id b)) bs)"
    unfolding settle_all_map [OF ps(2)] by (auto simp: o_def intro!: arg_cong [of _ _ sum_list])
  also have "\<dots> = sum_list (map opn bs) - sum_list (map (\<lambda>b. ?x ?m (item_id b)) bs)"
    by (simp add: sum_list_subtractf)
  also have "sum_list (map (\<lambda>b. ?x ?m (item_id b)) bs) = sum_list (map snd ps)"
    using ps
  proof (induction ps)
    case (Cons p ps)
    let ?m = "map_of (map (\<lambda>p. (item_id (fst p), snd p)) ps)"
    have none: "?m (item_id (fst p)) = None" using Cons.prems(2) by (auto simp: map_of_eq_None_iff image_iff)
    have "sum_list (map (\<lambda>b. if item_id b = item_id (fst p) then snd p else 0) bs) = snd p"
    proof -
      have "filter (\<lambda>b. item_id b = item_id (fst p)) bs = [fst p]"
        using ids Cons.prems(1) by (intro filter_id) (auto simp: may_pay_def)
      then show ?thesis by (simp flip: sum_filter_if)
    qed
    moreover have "?x (?m(item_id (fst p) \<mapsto> snd p)) (item_id b) =
      (if item_id b = item_id (fst p) then snd p else 0) + ?x ?m (item_id b)" for b
      using none by auto
    ultimately show ?case using Cons by (simp add: sum_list_addf)
  qed simp
  finally show ?thesis .
qed

end

end
