(* ===== verification/Vendor_Payments.thy ===== *)
theory Vendor_Payments
  imports Clearing_Fx Vendor_Bills Open_Items
begin

text \<open>
  Model of vendor payments (\<^verbatim>\<open>finance/service/vendor_payments.py\<close>, \<^verbatim>\<open>payment_clearing.py\<close>): the
  validation of the allocations, the clearing entry, the payment document, and the payment run.
  The lemmas show that what is open on a bill is always its gross less what was paid on it, for
  any sequence of operations, and that a payment run pays exactly what is due.
\<close>

subsection \<open>Payloads and validation\<close>

definition AP_PAYMENT_DOC_TYPE :: string where "AP_PAYMENT_DOC_TYPE = ''finance.vendor_payment''"
definition AP_PAYMENT_SEQUENCE_NAME :: string where "AP_PAYMENT_SEQUENCE_NAME = ''finance.vendor_payment''"
definition AP_PAYMENT_NUMBER_PREFIX :: string where "AP_PAYMENT_NUMBER_PREFIX = ''PAY''"
definition AP_PAYMENT_NUMBER_PADDING :: int where "AP_PAYMENT_NUMBER_PADDING = 5"
definition AP_PAYMENT_PAYS_LINK :: string where "AP_PAYMENT_PAYS_LINK = ''pays''"

record payment_allocation_create =
  pac_bill :: uuid
  pac_amount :: decimal

record vendor_payment_create =
  vpc_partner :: uuid
  vpc_partner_name :: string
  vpc_date :: date
  vpc_currency :: string
  vpc_bank_account :: uuid
  vpc_amount :: decimal
  vpc_description :: "string option"
  vpc_allocations :: "payment_allocation_create list"

definition validated_allocation ::
  "'m ap_db_scheme \<Rightarrow> uuid \<Rightarrow> uuid \<Rightarrow> string \<Rightarrow> payment_allocation_create \<Rightarrow> (vendor_bill \<times> decimal) result" where
  "validated_allocation db tenant partner cur alloc =
     (case find_row vb_id (pac_bill alloc) (vendor_bills db) of
        None \<Rightarrow> Inl (ValidationFailedError ''finance.vendor_bill_not_found'')
      | Some bill \<Rightarrow>
          if vb_tenant bill \<noteq> tenant then Inl (ValidationFailedError ''finance.vendor_bill_not_found'')
          else if vb_status bill \<notin> {BILL_POSTED, BILL_PARTIALLY_PAID}
          then Inl (ConflictError ''finance.bill_not_open'')
          else if vb_partner bill \<noteq> partner then Inl (ValidationFailedError ''finance.payment_partner_mismatch'')
          else if vb_currency bill \<noteq> cur then Inl (ValidationFailedError ''finance.payment_currency_mismatch'')
          else let amount = quantize_money (pac_amount alloc) (currency_decimals cur)
          in if amount \<le> 0 then Inl (ValidationFailedError ''finance.payment_allocation_not_positive'')
          else if vb_open bill < amount then Inl (ValidationFailedError ''finance.payment_overallocated'')
          else Inr (bill, amount))"

primrec validated_pairs ::
  "'m ap_db_scheme \<Rightarrow> uuid \<Rightarrow> uuid \<Rightarrow> string \<Rightarrow> payment_allocation_create list \<Rightarrow> (vendor_bill \<times> decimal) list result" where
  "validated_pairs db tenant partner cur [] = Inr []"
| "validated_pairs db tenant partner cur (a # as) =
     bindr (validated_allocation db tenant partner cur a) (\<lambda>p.
     bindr (validated_pairs db tenant partner cur as) (\<lambda>ps. Inr (p # ps)))"

definition validated_clearing ::
  "'m ap_db_scheme \<Rightarrow> uuid \<Rightarrow> uuid \<Rightarrow> string \<Rightarrow> payment_allocation_create list \<Rightarrow> (vendor_bill \<times> decimal) list result" where
  "validated_clearing db tenant partner cur allocations =
     (if allocations = [] then Inl (ValidationFailedError ''finance.payment_no_allocations'')
      else validated_pairs db tenant partner cur allocations)"

definition bill_item :: "'m ap_db_scheme \<Rightarrow> uuid \<Rightarrow> vendor_bill \<times> decimal \<Rightarrow> cleared_item" where
  "bill_item db tenant p =
     \<lparr>ci_control = vb_ap_account (fst p), ci_gross = vb_gross (fst p), ci_cleared = snd p,
      ci_frozen = frozen_functional_on_line db tenant (vb_entry (fst p)) (vb_ap_account (fst p)) (vb_gross (fst p)) True\<rparr>"

definition build_payment_lines ::
  "'m ap_db_scheme \<Rightarrow> uuid \<Rightarrow> (vendor_bill \<times> decimal) list \<Rightarrow> string \<Rightarrow> uuid \<Rightarrow> decimal \<Rightarrow> date \<Rightarrow>
   (journal_line_create list \<times> (decimal \<times> decimal) list) result" where
  "build_payment_lines db tenant pairs cur bank amount day =
     (case pairs of
        [] \<Rightarrow> Inl (PyError ''IndexError'')
      | p # _ \<Rightarrow>
          build_clearing_lines db tenant (map (bill_item db tenant) pairs) cur bank amount day
            (vb_partner (fst p)) True ''AP clearing'' ''Bank payment'')"

subsection \<open>The payment\<close>

definition reduce_open :: "decimal \<Rightarrow> vendor_bill \<Rightarrow> vendor_bill" where
  "reduce_open amount b =
     (let left = vb_open b - amount
      in b\<lparr>vb_open := store_money left, vb_status := (if left = 0 then BILL_PAID else BILL_PARTIALLY_PAID)\<rparr>)"

text \<open>One turn of the loop over the pairs; a payment clears a bill at most once (a unique constraint).\<close>

definition clear_bill :: "uuid \<Rightarrow> uuid \<Rightarrow> vendor_bill \<times> decimal \<Rightarrow> 'm ap_db_scheme \<Rightarrow> 'm ap_db_scheme result" where
  "clear_bill tenant payment p db =
     (case uuid4 (db\<lparr>vendor_bills :=
            upd_rows (\<lambda>b. vb_id b = vb_id (fst p)) (reduce_open (snd p)) (vendor_bills db)\<rparr>) of (i, db1) \<Rightarrow>
      if \<exists>a \<in> set (vendor_payment_allocations db1). vpa_tenant a = tenant \<and> vpa_payment a = payment \<and>
           vpa_bill a = vb_id (fst p)
      then Inl (IntegrityError ''uq_fin_vendor_payment_allocations_payment_bill'')
      else Inr (db1\<lparr>vendor_payment_allocations := vendor_payment_allocations db1 @
             [\<lparr>vpa_id = i, vpa_tenant = tenant, vpa_payment = payment, vpa_bill = vb_id (fst p),
               vpa_amount = store_money (snd p)\<rparr>]\<rparr>))"

definition link_paid :: "uuid \<Rightarrow> uuid \<Rightarrow> vendor_bill \<times> decimal \<Rightarrow> 'm ap_db_scheme \<Rightarrow> 'm ap_db_scheme result" where
  "link_paid tenant payment_document p db =
     bindr (link_documents db tenant payment_document (vb_document (fst p)) (Some AP_PAYMENT_PAYS_LINK)) (\<lambda>(_, db1). Inr db1)"

definition record_payment ::
  "'m ap_db_scheme \<Rightarrow> uuid \<Rightarrow> vendor_payment_create \<Rightarrow> decimal \<Rightarrow> (vendor_bill \<times> decimal) list \<Rightarrow> uuid \<Rightarrow> uuid \<Rightarrow>
   (vendor_payment \<times> 'm ap_db_scheme) result" where
  "record_payment db tenant payload amount pairs entry_id entry_document =
     (case uuid4 db of (payment_id, db1) \<Rightarrow>
      bindr (register_document db1 tenant AP_PAYMENT_DOC_TYPE payment_id None (Some ''POSTED'')) (\<lambda>(document, db2).
      bindr (ensure_sequence db2 tenant AP_PAYMENT_SEQUENCE_NAME AP_PAYMENT_NUMBER_PREFIX
               AP_PAYMENT_NUMBER_PADDING True) (\<lambda>(_, db3).
      bindr (claim_number db3 tenant AP_PAYMENT_SEQUENCE_NAME (vpc_date payload)) (\<lambda>(number, db4).
      let payment = \<lparr>vp_id = payment_id, vp_tenant = tenant, vp_document = doc_pk document,
            vp_partner = vpc_partner payload, vp_partner_name = vpc_partner_name payload,
            vp_number = Some number, vp_date = vpc_date payload, vp_currency = vpc_currency payload,
            vp_bank_account = vpc_bank_account payload, vp_amount = amount, vp_entry = Some entry_id,
            vp_description = vpc_description payload\<rparr>
      in bindr (fold_result (clear_bill tenant payment_id) pairs
                  (db4\<lparr>vendor_payments := vendor_payments db4 @ [payment\<lparr>vp_amount := store_money amount\<rparr>]\<rparr>)) (\<lambda>db5.
      bindr (set_document_status db5 tenant (doc_pk document) (Some ''POSTED'') (Some number)) (\<lambda>db6.
      bindr (link_documents db6 tenant (doc_pk document) entry_document (Some ''posts'')) (\<lambda>(_, db7).
      bindr (fold_result (link_paid tenant (doc_pk document)) pairs db7) (\<lambda>db8.
      Inr (payment, publish (VendorPaymentPosted tenant payment_id number entry_id (vpc_partner payload)
             (vpc_currency payload) amount (map (vb_id \<circ> fst) pairs)) db8)))))))))"

definition create_and_post_payment ::
  "'m ap_db_scheme \<Rightarrow> uuid \<Rightarrow> vendor_payment_create \<Rightarrow> (vendor_payment \<times> 'm ap_db_scheme) result" where
  "create_and_post_payment db tenant payload =
     bindr (find_account db tenant (vpc_bank_account payload) ''finance.ap_bank_account_not_found'') (\<lambda>_.
     bindr (validated_clearing db tenant (vpc_partner payload) (vpc_currency payload) (vpc_allocations payload)) (\<lambda>pairs.
     let amount = quantize_money (vpc_amount payload) (currency_decimals (vpc_currency payload))
     in if amount \<noteq> sum_list (map snd pairs)
        then Inl (ValidationFailedError ''finance.payment_allocation_sum_mismatch'')
        else bindr (build_payment_lines db tenant pairs (vpc_currency payload) (vpc_bank_account payload) amount
                      (vpc_date payload)) (\<lambda>(lines, functional_amounts).
        bindr (create_draft_entry db tenant
                 \<lparr>jec_posting_date = vpc_date payload, jec_currency = vpc_currency payload,
                  jec_description = Some (''Vendor payment '' @ vpc_partner_name payload),
                  jec_document_type = PAYMENT, jec_lines = lines\<rparr> (Some functional_amounts)) (\<lambda>(entry, db1).
        bindr (set_fx_line_currency db1 tenant (je_id entry)) (\<lambda>db2.
        bindr (post_entry db2 tenant (je_id entry) None True) (\<lambda>(_, db3).
        record_payment db3 tenant payload amount pairs (je_id entry) (je_document entry)))))))"

subsection \<open>The payment run\<close>

definition due_bills :: "'m ap_db_scheme \<Rightarrow> uuid \<Rightarrow> date \<Rightarrow> uuid option \<Rightarrow> vendor_bill list" where
  "due_bills db tenant up_to partner =
     sort_key (\<lambda>b. (vb_partner b, vb_due_date b))
       (filter (\<lambda>b. vb_tenant b = tenant \<and> vb_status b \<in> {BILL_POSTED, BILL_PARTIALLY_PAID} \<and> 0 < vb_open b \<and>
          vb_due_date b \<le> up_to \<and> (case partner of None \<Rightarrow> True | Some p \<Rightarrow> vb_partner b = p)) (vendor_bills db))"

text \<open>\<^verbatim>\<open>groups[(bill.partner_id, bill.currency_code)].append(bill)\<close> on a dict in insertion order.\<close>

fun group_bill ::
  "vendor_bill \<Rightarrow> ((uuid \<times> string) \<times> vendor_bill list) list \<Rightarrow> ((uuid \<times> string) \<times> vendor_bill list) list" where
  "group_bill b [] = [((vb_partner b, vb_currency b), [b])]"
| "group_bill b ((k, bs) # gs) =
     (if k = (vb_partner b, vb_currency b) then (k, bs @ [b]) # gs else (k, bs) # group_bill b gs)"

definition isoformat :: "date \<Rightarrow> string" where
  "isoformat d = zfill (nat_str (nat (dyear d))) 4 @ ''-'' @ zfill (nat_str (nat (dmonth d))) 2 @ ''-'' @
     zfill (nat_str (nat (dday d))) 2"

definition group_payment ::
  "date \<Rightarrow> uuid \<Rightarrow> (uuid \<times> string) \<times> vendor_bill list \<Rightarrow> vendor_payment_create" where
  "group_payment run_date bank g =
     \<lparr>vpc_partner = fst (fst g), vpc_partner_name = vb_partner_name (hd (snd g)), vpc_date = run_date,
      vpc_currency = snd (fst g), vpc_bank_account = bank, vpc_amount = sum_list (map vb_open (snd g)),
      vpc_description = Some (''Payment run '' @ isoformat run_date),
      vpc_allocations = map (\<lambda>b. \<lparr>pac_bill = vb_id b, pac_amount = vb_open b\<rparr>) (snd g)\<rparr>"

definition pay_group ::
  "uuid \<Rightarrow> date \<Rightarrow> uuid \<Rightarrow> (uuid \<times> string) \<times> vendor_bill list \<Rightarrow> vendor_payment list \<times> 'm ap_db_scheme \<Rightarrow>
   (vendor_payment list \<times> 'm ap_db_scheme) result" where
  "pay_group tenant run_date bank g s =
     bindr (create_and_post_payment (snd s) tenant (group_payment run_date bank g)) (\<lambda>(p, db').
     Inr (fst s @ [p], db'))"

definition run_payment_batch ::
  "'m ap_db_scheme \<Rightarrow> uuid \<Rightarrow> date \<Rightarrow> uuid \<Rightarrow> uuid option \<Rightarrow> date option \<Rightarrow>
   (vendor_payment list \<times> 'm ap_db_scheme) result" where
  "run_payment_batch db tenant up_to bank partner payment_date =
     (let run_date = (case payment_date of Some d \<Rightarrow> d | None \<Rightarrow> up_to);
          groups = fold group_bill (due_bills db tenant up_to partner) []
      in fold_result (pay_group tenant run_date bank) groups ([], db))"

subsection \<open>Open items\<close>

definition bill_phase :: "vendor_bill \<Rightarrow> phase" where
  "bill_phase b = (case vb_status b of BILL_DRAFT \<Rightarrow> Unposted | BILL_POSTED \<Rightarrow> Open | BILL_PARTIALLY_PAID \<Rightarrow> Partly
     | BILL_PAID \<Rightarrow> Cleared | BILL_REVERSED \<Rightarrow> Void)"

lemma reduce_open_simps [simp]:
  "vb_id (reduce_open x b) = vb_id b" "vb_gross (reduce_open x b) = vb_gross b" "vb_tenant (reduce_open x b) = vb_tenant b"
  "vb_net (reduce_open x b) = vb_net b" "vb_tax (reduce_open x b) = vb_tax b" "vb_currency (reduce_open x b) = vb_currency b"
  "vb_partner (reduce_open x b) = vb_partner b" "vb_due_date (reduce_open x b) = vb_due_date b"
  "vb_ap_account (reduce_open x b) = vb_ap_account b" "lines_of (reduce_open x b) ls = lines_of b ls"
  by (simp_all add: reduce_open_def Let_def lines_of_def)

interpretation ap: open_items vb_id vb_gross vb_open bill_phase "\<lambda>b. currency_decimals (vb_currency b)" reduce_open
    vpa_bill vpa_amount
  by unfold_locales (auto simp: reduce_open_def Let_def bill_phase_def store_money_grid on_grid_diff)

lemma settled_allocated: "ap.settled = allocated"
  by (intro ext) (simp add: ap.settled_def allocated_def)

lemma bill_ok_item:
  "bill_ok ls as b \<longleftrightarrow> vb_gross b = vb_net b + vb_tax b \<and> vb_net b = sum_list (map vbl_net (lines_of b ls)) \<and>
     vb_tax b = sum_list (map vbl_tax (lines_of b ls)) \<and> ap.item_ok as b"
  by (cases "vb_status b") (auto simp: bill_ok_def ap.item_ok_def settled_allocated bill_phase_def)

lemma payable_iff: "ap.payable b \<longleftrightarrow> vb_status b \<in> {BILL_POSTED, BILL_PARTIALLY_PAID}"
  by (cases "vb_status b") (simp_all add: ap.payable_def bill_phase_def)

subsection \<open>Validation and clearing\<close>

lemma validated_allocation_Inr:
  assumes "validated_allocation db t partner cur a = Inr p"
  shows "ap.may_pay (vendor_bills db) p" and "vb_tenant (fst p) = t" and "vb_partner (fst p) = partner"
    and "vb_currency (fst p) = cur" and "vb_id (fst p) = pac_bill a" and "snd p = quantize_money (pac_amount a) (currency_decimals cur)"
  using assms
  by (auto simp: validated_allocation_def Let_def ap.may_pay_def payable_iff quantize_money_grid
      dest!: find_row_Some_iff split: option.splits if_splits)

lemma validated_pairs_Inr:
  assumes "validated_pairs db t partner cur as = Inr ps"
  shows "list_all2 (\<lambda>a p. validated_allocation db t partner cur a = Inr p) as ps"
  using assms by (induction as arbitrary: ps) (auto elim!: bindr_InrE)

lemma fold_clear_bill:
  assumes "fold_result (clear_bill t pid) ps db = Inr db'" and "\<forall>p \<in> set ps. on_grid MONEY_SCALE (snd p)"
  shows "\<exists>new. db' = db\<lparr>uuid_supply := uuid_supply db + length ps, vendor_bills := ap.settle_all ps (vendor_bills db),
      vendor_payment_allocations := vendor_payment_allocations db @ new\<rparr> \<and> ap.pays ps new \<and>
      (\<forall>a \<in> set new. vpa_payment a = pid \<and> vpa_tenant a = t) \<and> distinct (map (vb_id \<circ> fst) ps) \<and>
      (\<forall>p \<in> set ps. \<forall>a \<in> set (vendor_payment_allocations db).
         \<not> (vpa_tenant a = t \<and> vpa_payment a = pid \<and> vpa_bill a = vb_id (fst p)))"
  using assms
proof (induction ps arbitrary: db)
  case Nil
  then have "db' = db" by simp
  then show ?case by (intro exI [of _ "[]"]) (simp add: ap.settle_all_def ap.pays_def)
next
  case (Cons p ps)
  let ?a = "\<lparr>vpa_id = uuid_supply db, vpa_tenant = t, vpa_payment = pid, vpa_bill = vb_id (fst p), vpa_amount = store_money (snd p)\<rparr>"
  let ?db = "db\<lparr>uuid_supply := Suc (uuid_supply db), vendor_bills :=
      upd_rows (\<lambda>b. vb_id b = vb_id (fst p)) (reduce_open (snd p)) (vendor_bills db),
      vendor_payment_allocations := vendor_payment_allocations db @ [?a]\<rparr>"
  obtain db1 where c: "clear_bill t pid p db = Inr db1" and f1: "fold_result (clear_bill t pid) ps db1 = Inr db'"
    using Cons.prems(1) by (auto elim!: bindr_InrE)
  have db1: "db1 = ?db"
    and new: "\<forall>a \<in> set (vendor_payment_allocations db). \<not> (vpa_tenant a = t \<and> vpa_payment a = pid \<and> vpa_bill a = vb_id (fst p))"
    using c by (auto simp: clear_bill_def uuid4_def split: if_splits)
  note f = f1 [unfolded db1]
  have g: "\<forall>p \<in> set ps. on_grid MONEY_SCALE (snd p)" using Cons.prems(2) by simp
  from Cons.IH [OF f g] obtain as where db': "db' = ?db\<lparr>uuid_supply := uuid_supply ?db + length ps, vendor_bills := ap.settle_all ps (vendor_bills ?db),
      vendor_payment_allocations := vendor_payment_allocations ?db @ as\<rparr>" and as: "ap.pays ps as"
      "\<forall>a \<in> set as. vpa_payment a = pid \<and> vpa_tenant a = t" "distinct (map (vb_id \<circ> fst) ps)"
      "\<forall>p \<in> set ps. \<forall>a \<in> set (vendor_payment_allocations ?db). \<not> (vpa_tenant a = t \<and> vpa_payment a = pid \<and> vpa_bill a = vb_id (fst p))"
    by blast
  show ?case
  proof (intro exI [of _ "?a # as"] conjI)
    show "db' = db\<lparr>uuid_supply := uuid_supply db + length (p # ps), vendor_bills := ap.settle_all (p # ps) (vendor_bills db),
      vendor_payment_allocations := vendor_payment_allocations db @ ?a # as\<rparr>"
      unfolding db' by (simp add: ap.settle_all_def)
    show "ap.pays (p # ps) (?a # as)" using as(1) Cons.prems(2) by (simp add: ap.pays_def store_money_grid)
    show "distinct (map (vb_id \<circ> fst) (p # ps))" using as(3,4) by auto
  qed (use as new in auto)
qed

lemma payment_tables_core:
  fixes db db' :: "'m ap_db_scheme"
  assumes "core_db.more db' = core_db.more db"
  shows "core_db.more (db'\<lparr>vendor_payments := ps, uuid_supply := u, vendor_bills := bs, vendor_payment_allocations := as\<rparr>) =
    core_db.more (db\<lparr>vendor_payments := ps, vendor_bills := bs, vendor_payment_allocations := as\<rparr>)"
  using assms by (cases db; cases db'; simp)

lemma fold_link_paid:
  assumes "fold_result (link_paid t d) ps db = Inr db'"
  shows "core_db.more db' = core_db.more db \<and> uuid_supply db \<le> uuid_supply db'"
  using assms
proof (induction ps arbitrary: db)
  case (Cons p ps)
  obtain db1 where c: "link_paid t d p db = Inr db1" and f: "fold_result (link_paid t d) ps db1 = Inr db'"
    using Cons.prems(1) by (auto elim!: bindr_InrE)
  from c obtain k where l: "link_documents db t d (vb_document (fst p)) (Some AP_PAYMENT_PAYS_LINK) = Inr (k, db1)"
    by (auto simp: link_paid_def elim!: bindr_InrE)
  show ?case using link_documents_frame(1,2) [OF l] Cons.IH [OF f] by simp
qed simp

lemma record_payment_effect:
  assumes "record_payment db t p amount ps eid edoc = Inr (pay, db')" and "\<forall>p \<in> set ps. on_grid MONEY_SCALE (snd p)"
  shows "\<exists>new. core_db.more db' = core_db.more (db\<lparr>vendor_payments := vendor_payments db @ [pay\<lparr>vp_amount := store_money amount\<rparr>],
      vendor_bills := ap.settle_all ps (vendor_bills db), vendor_payment_allocations := vendor_payment_allocations db @ new\<rparr>) \<and>
      ap.pays ps new \<and> (\<forall>a \<in> set new. vpa_payment a = vp_id pay \<and> vpa_tenant a = t) \<and> distinct (map (vb_id \<circ> fst) ps) \<and>
      uuid_supply db < uuid_supply db' \<and> vp_id pay = uuid_supply db \<and> vp_amount pay = amount \<and> vp_entry pay = Some eid \<and>
      vp_number pay \<noteq> None \<and> vp_tenant pay = t \<and> vp_partner pay = vpc_partner p \<and> vp_currency pay = vpc_currency p"
proof -
  obtain d db2 s db3 n db4 db5 db6 k db7 db8 where
    r: "register_document (db\<lparr>uuid_supply := Suc (uuid_supply db)\<rparr>) t AP_PAYMENT_DOC_TYPE (uuid_supply db) None (Some ''POSTED'') = Inr (d, db2)"
    and s: "ensure_sequence db2 t AP_PAYMENT_SEQUENCE_NAME AP_PAYMENT_NUMBER_PREFIX AP_PAYMENT_NUMBER_PADDING True = Inr (s, db3)"
    and n: "claim_number db3 t AP_PAYMENT_SEQUENCE_NAME (vpc_date p) = Inr (n, db4)"
    and pay: "pay = \<lparr>vp_id = uuid_supply db, vp_tenant = t, vp_document = doc_pk d,
            vp_partner = vpc_partner p, vp_partner_name = vpc_partner_name p,
            vp_number = Some n, vp_date = vpc_date p, vp_currency = vpc_currency p,
            vp_bank_account = vpc_bank_account p, vp_amount = amount, vp_entry = Some eid,
            vp_description = vpc_description p\<rparr>"
    and f: "fold_result (clear_bill t (uuid_supply db)) ps
       (db4\<lparr>vendor_payments := vendor_payments db4 @ [pay\<lparr>vp_amount := store_money amount\<rparr>]\<rparr>) = Inr db5"
    and d: "set_document_status db5 t (doc_pk d) (Some ''POSTED'') (Some n) = Inr db6"
    and k: "link_documents db6 t (doc_pk d) edoc (Some ''posts'') = Inr (k, db7)"
    and l: "fold_result (link_paid t (doc_pk d)) ps db7 = Inr db8"
    and db': "core_db.more db' = core_db.more db8" "uuid_supply db' = uuid_supply db8"
    using assms(1) unfolding record_payment_def uuid4_def Let_def prod.case
    by (clarsimp elim!: bindr_InrE)
  have m4: "core_db.more db4 = core_db.more db" "uuid_supply db < uuid_supply db4"
    using register_document_Inr(2) [OF r] ensure_sequence_frame(1,2) [OF s] claim_number_frame(7,8) [OF n] by simp_all
  note F = fold_clear_bill [OF f assms(2)]
  have m8: "core_db.more db' = core_db.more db5" "uuid_supply db5 \<le> uuid_supply db'"
    using db' set_document_status_frame(1,2) [OF d] link_documents_frame(1,2) [OF k] fold_link_paid [OF l] by simp_all
  from F obtain new where db5: "db5 = db4\<lparr>vendor_payments := vendor_payments db4 @ [pay\<lparr>vp_amount := store_money amount\<rparr>],
       uuid_supply := uuid_supply db4 + length ps, vendor_bills := ap.settle_all ps (vendor_bills db4),
       vendor_payment_allocations := vendor_payment_allocations db4 @ new\<rparr>"
    and new: "ap.pays ps new" "\<forall>a \<in> set new. vpa_payment a = uuid_supply db \<and> vpa_tenant a = t" "distinct (map (vb_id \<circ> fst) ps)"
    by auto
  have "core_db.more db5 = core_db.more (db\<lparr>vendor_payments := vendor_payments db @ [pay\<lparr>vp_amount := store_money amount\<rparr>],
      vendor_bills := ap.settle_all ps (vendor_bills db), vendor_payment_allocations := vendor_payment_allocations db @ new\<rparr>)"
    unfolding db5 payment_tables_core [OF m4(1)] ap_frame [OF m4(1)] ..
  then show ?thesis using m8 m4(2) new by (intro exI [of _ new]) (simp add: pay db5)
qed

subsection \<open>What a payment does\<close>

lemma settle_all_keeps:
  assumes "distinct (map (vb_id \<circ> fst) ps)" and "b' \<in> set (ap.settle_all ps bs)"
  obtains b where "b \<in> set bs" "b' = b \<or> (\<exists>x. b' = reduce_open x b)"
  using assms(2) unfolding ap.settle_all_map [OF assms(1)] by (fastforce split: option.splits)

lemma ap_wf_settle:
  assumes wf: "ap_wf db" and ps: "\<forall>p \<in> set ps. ap.may_pay (vendor_bills db) p" "distinct (map (vb_id \<circ> fst) ps)"
    and new: "ap.pays ps new" and bk: "books_wf db'" "uuid_supply db \<le> uuid_supply db'"
    and vb: "vendor_bills db' = ap.settle_all ps (vendor_bills db)" and vl: "vendor_bill_lines db' = vendor_bill_lines db"
    and va: "vendor_payment_allocations db' = vendor_payment_allocations db @ new"
  shows "ap_wf db'"
proof -
  note W = ap_wfD [OF wf]
  have ids: "map vb_id (vendor_bills db') = map vb_id (vendor_bills db)" unfolding vb by (rule ap.map_id_settle_all)
  then have idset: "vb_id ` set (vendor_bills db') = vb_id ` set (vendor_bills db)" by (metis set_map)
  have item: "ap.item_ok (vendor_payment_allocations db') b" if "b \<in> set (vendor_bills db')" for b
    using ap.settle_all_ok [OF _ W(2) ps new, of "vendor_payment_allocations db"] W(4) that unfolding vb va bill_ok_item by blast
  have tot: "vb_gross b = vb_net b + vb_tax b \<and> vb_net b = sum_list (map vbl_net (lines_of b (vendor_bill_lines db))) \<and>
      vb_tax b = sum_list (map vbl_tax (lines_of b (vendor_bill_lines db))) \<and> vb_id b < uuid_supply db'"
    if "b \<in> set (vendor_bills db')" for b
  proof (rule settle_all_keeps [OF ps(2) that [unfolded vb]])
    fix c
    assume c: "c \<in> set (vendor_bills db)" "b = c \<or> (\<exists>x. b = reduce_open x c)"
    have "vb_id c < uuid_supply db'" using W(3) [OF c(1)] bk(2) by simp
    then show ?thesis using W(4) [OF c(1)] c(2) by (auto simp: bill_ok_item)
  qed
  have al: "vpa_bill a \<in> vb_id ` set (vendor_bills db) \<and> 0 < vpa_amount a \<and> on_grid MONEY_SCALE (vpa_amount a)"
    if "a \<in> set new" for a
  proof -
    have "(vpa_bill a, vpa_amount a) \<in> set (map (\<lambda>a. (vpa_bill a, vpa_amount a)) new)" using that by force
    then have "(vpa_bill a, vpa_amount a) \<in> set (map (\<lambda>p. (vb_id (fst p), snd p)) ps)" 
      using new [unfolded ap.pays_def] by (simp only:)
    then obtain p where "p \<in> set ps" "vpa_bill a = vb_id (fst p)" "vpa_amount a = snd p" by auto
    then show ?thesis using ps(1) by (auto simp: ap.may_pay_def intro: on_grid_mono [OF _ currency_decimals_le])
  qed
  show ?thesis
    unfolding ap_wf_def idset vl
    using bk W(2,5-7) item tot al ids by (auto simp: va bill_ok_item)
qed

lemma create_and_post_payment_Inr:
  assumes "create_and_post_payment db t p = Inr (pay, db')"
  obtains ps ls fs c e db1 db2 e' db3 where
    "validated_clearing db t (vpc_partner p) (vpc_currency p) (vpc_allocations p) = Inr ps"
    "quantize_money (vpc_amount p) (currency_decimals (vpc_currency p)) = sum_list (map snd ps)"
    "build_payment_lines db t ps (vpc_currency p) (vpc_bank_account p) (sum_list (map snd ps)) (vpc_date p) = Inr (ls, fs)"
    "create_draft_entry db t c (Some fs) = Inr (e, db1)" "jec_lines c = ls" "jec_document_type c = PAYMENT"
    "jec_posting_date c = vpc_date p" "jec_currency c = vpc_currency p"
    "set_fx_line_currency db1 t (je_id e) = Inr db2" "post_entry db2 t (je_id e) None True = Inr (e', db3)"
    "record_payment db3 t p (sum_list (map snd ps)) ps (je_id e) (je_document e) = Inr (pay, db')"
  using assms unfolding create_and_post_payment_def Let_def
  by (clarsimp simp: if_Inl_Inr elim!: bindr_InrE)

lemma validated_clearing_Inr:
  assumes "validated_clearing db t partner cur as = Inr ps"
  shows "ps \<noteq> []" and "list_all2 (\<lambda>a p. validated_allocation db t partner cur a = Inr p) as ps"
    and "\<forall>p \<in> set ps. ap.may_pay (vendor_bills db) p \<and> vb_tenant (fst p) = t \<and> vb_partner (fst p) = partner \<and>
      vb_currency (fst p) = cur \<and> on_grid MONEY_SCALE (snd p)"
proof -
  show L: "list_all2 (\<lambda>a p. validated_allocation db t partner cur a = Inr p) as ps"
    using assms validated_pairs_Inr by (auto simp: validated_clearing_def split: if_splits)
  then show "ps \<noteq> []" using assms by (auto simp: validated_clearing_def split: if_splits)
  have "\<exists>a. validated_allocation db t partner cur a = Inr p" if "p \<in> set ps" for p
    using L that by (auto simp: list_all2_conv_all_nth in_set_conv_nth)
  then show "\<forall>p \<in> set ps. ap.may_pay (vendor_bills db) p \<and> vb_tenant (fst p) = t \<and> vb_partner (fst p) = partner \<and>
      vb_currency (fst p) = cur \<and> on_grid MONEY_SCALE (snd p)"
    using validated_allocation_Inr(1-4)
    by (fastforce simp: ap.may_pay_def intro: on_grid_mono [OF _ currency_decimals_le])
qed

lemma payment_effect:
  assumes wf: "ap_wf db" and pr: "create_and_post_payment db t p = Inr (pay, db')"
  obtains ps new e ls fs where
    "validated_clearing db t (vpc_partner p) (vpc_currency p) (vpc_allocations p) = Inr ps"
    "distinct (map (vb_id \<circ> fst) ps)" "vp_amount pay = sum_list (map snd ps)"
    "vendor_bills db' = ap.settle_all ps (vendor_bills db)" "vendor_bill_lines db' = vendor_bill_lines db"
    "vendor_payment_allocations db' = vendor_payment_allocations db @ new" "ap.pays ps new"
    "\<forall>a \<in> set new. vpa_payment a = vp_id pay \<and> vpa_tenant a = t"
    "vendor_payments db' = vendor_payments db @ [pay]" "vp_entry pay = Some (je_id e)" "vp_tenant pay = t" "vp_number pay \<noteq> None"
    "vp_partner pay = vpc_partner p" "vp_currency pay = vpc_currency p" "uuid_supply db \<le> vp_id pay" "vp_id pay < uuid_supply db'"
    "journal_entries db' = journal_entries db @ [e]" "je_status e = POSTED" "je_tenant e = t" "je_document_type e = PAYMENT"
    "je_posting_date e = vpc_date p" "entry_balanced (entry_lines db' (je_id e))"
    "mset (posted_lines db') = mset (posted_lines db) + mset (entry_lines db' (je_id e))"
    "build_payment_lines db t ps (vpc_currency p) (vpc_bank_account p) (sum_list (map snd ps)) (vpc_date p) = Inr (ls, fs)"
    "mset (map functional_view (entry_lines db' (je_id e))) = mset (map sides_view (zip ls fs))"
    "currencies db' = currencies db" "ap_wf db'" "tax_codes db' = tax_codes db"
proof (rule create_and_post_payment_Inr [OF pr])
  fix ps ls fs c e db1 db2 e' db3
  assume val: "validated_clearing db t (vpc_partner p) (vpc_currency p) (vpc_allocations p) = Inr ps"
    and am: "quantize_money (vpc_amount p) (currency_decimals (vpc_currency p)) = sum_list (map snd ps)"
    and bl: "build_payment_lines db t ps (vpc_currency p) (vpc_bank_account p) (sum_list (map snd ps)) (vpc_date p) = Inr (ls, fs)"
    and dr: "create_draft_entry db t c (Some fs) = Inr (e, db1)"
    and c: "jec_lines c = ls" "jec_document_type c = PAYMENT" "jec_posting_date c = vpc_date p" "jec_currency c = vpc_currency p"
    and fx: "set_fx_line_currency db1 t (je_id e) = Inr db2" and po: "post_entry db2 t (je_id e) None True = Inr (e', db3)"
    and rp: "record_payment db3 t p (sum_list (map snd ps)) ps (je_id e) (je_document e) = Inr (pay, db')"
  note W = ap_wfD [OF wf] and V = validated_clearing_Inr [OF val]
  note D = draft_effect [OF W(1) dr]
  note S = set_fx_line_currency_effect [OF D(1) fx]
  have es: "journal_entries db2 = journal_entries db @ [e]" using S(4) D(5) by simp
  note P = posting_effect [OF S(1) es po]
  have grid: "\<forall>p \<in> set ps. on_grid MONEY_SCALE (snd p)" using V(3) by blast
  from record_payment_effect [OF rp grid] obtain new where
    m: "core_db.more db' = core_db.more (db3\<lparr>vendor_payments := vendor_payments db3 @ [pay\<lparr>vp_amount := store_money (sum_list (map snd ps))\<rparr>],
      vendor_bills := ap.settle_all ps (vendor_bills db3), vendor_payment_allocations := vendor_payment_allocations db3 @ new\<rparr>)"
    and new: "ap.pays ps new" "\<forall>a \<in> set new. vpa_payment a = vp_id pay \<and> vpa_tenant a = t" "distinct (map (vb_id \<circ> fst) ps)"
    and r: "uuid_supply db3 < uuid_supply db'" "vp_id pay = uuid_supply db3" "vp_amount pay = sum_list (map snd ps)"
      "vp_entry pay = Some (je_id e)" "vp_number pay \<noteq> None" "vp_tenant pay = t"
      "vp_partner pay = vpc_partner p" "vp_currency pay = vpc_currency p"
    by blast
  have f3: "fin_db.more db3 = fin_db.more db" using P(2) S(2) D(2) by simp
  note A3 = ap_frame_fin [OF f3] and A = ap_frame [OF m] and F = fin_frame [OF m]
  have T: "vendor_bills db' = ap.settle_all ps (vendor_bills db)" "vendor_bill_lines db' = vendor_bill_lines db"
    "vendor_payment_allocations db' = vendor_payment_allocations db @ new" using A(3,4,6) A3 by simp_all
  have "on_grid MONEY_SCALE (sum_list (map snd ps))" by (rule on_grid_sum_list) (use grid in auto)
  then have "pay\<lparr>vp_amount := store_money (sum_list (map snd ps))\<rparr> = pay" using r(3) by (simp add: store_money_grid)
  then have vp: "vendor_payments db' = vendor_payments db @ [pay]" using A(5) A3(5) by simp
  have J: "journal_entries db' = journal_entries db @ [e']" "journal_lines db' = journal_lines db3"
    using F(6,7) P(4) by simp_all
  have L: "entry_lines db' j = entry_lines db3 j" "posted_lines db' = posted_lines db3" for j
    by (simp_all add: entry_lines_def posted_lines_def J(2))
  have bk: "books_wf db'" using P(1) by (rule books_wf_frame) (use r(1) F(6,7) in simp)
  have u: "uuid_supply db \<le> uuid_supply db3" using D(3) S(3) P(3) by simp
  have id: "vp_id pay < uuid_supply db'" using r(1,2) by simp
  have ap: "ap_wf db'"
    by (rule ap_wf_settle [OF wf _ new(3,1) bk _ T]) (use V(3) u r(1) in auto)
  have fs: "fs \<noteq> []" using bl by (auto simp: build_payment_lines_def split: list.splits elim!: build_clearing_lines_Inr)
  then have "functional_sides (Some fs) ls = fs" by (cases fs) (simp_all add: functional_sides_def)
  then have view: "mset (map functional_view (entry_lines db' (je_id e'))) = mset (map sides_view (zip ls fs))"
    using P(16) S(9) [of "je_id e"] D(9) unfolding L P(11) by (simp add: draft_sides_def c(1))
  show thesis
    by (rule that [OF val new(3) r(3) T new(1,2) vp _ r(6,5,7,8) _ id J(1) P(5) _ _ _ _ _ bl view _ ap])
      (use r u P D S c F L A(1) A3(1) in \<open>simp_all\<close>)
qed

subsection \<open>The run pays what is due\<close>

definition groups_ok :: "vendor_bill list \<Rightarrow> ((uuid \<times> string) \<times> vendor_bill list) list \<Rightarrow> bool" where
  "groups_ok bs gs \<longleftrightarrow> distinct (map fst gs) \<and> mset (concat (map snd gs)) = mset bs \<and>
     (\<forall>g \<in> set gs. snd g \<noteq> [] \<and> (\<forall>b \<in> set (snd g). (vb_partner b, vb_currency b) = fst g))"

lemma group_bill_keys: "fst ` set (group_bill b gs) = insert (vb_partner b, vb_currency b) (fst ` set gs)"
  by (induction b gs rule: group_bill.induct) auto

lemma group_bill_mem:
  "g \<in> set (group_bill b gs) \<Longrightarrow>
   g \<in> set gs \<or> (\<exists>bs. g = ((vb_partner b, vb_currency b), bs @ [b]) \<and> (bs = [] \<or> ((vb_partner b, vb_currency b), bs) \<in> set gs))"
proof (induction b gs rule: group_bill.induct)
  case (2 b k bs gs)
  then show ?case by (cases "k = (vb_partner b, vb_currency b)") auto
qed simp

lemma group_bill_ok:
  assumes "groups_ok bs gs"
  shows "groups_ok (bs @ [b]) (group_bill b gs)"
proof -
  have "mset (concat (map snd (group_bill b gs))) = mset (concat (map snd gs)) + {#b#}"
    by (induction b gs rule: group_bill.induct) auto
  moreover have "distinct (map fst gs) \<Longrightarrow> distinct (map fst (group_bill b gs))"
    by (induction b gs rule: group_bill.induct) (auto simp: group_bill_keys)
  moreover have "snd g \<noteq> [] \<and> (\<forall>b \<in> set (snd g). (vb_partner b, vb_currency b) = fst g)" if "g \<in> set (group_bill b gs)" for g
    using group_bill_mem [OF that] assms by (fastforce simp: groups_ok_def)
  ultimately show ?thesis using assms unfolding groups_ok_def by simp
qed

lemma groups_ok_fold: "groups_ok bs0 gs \<Longrightarrow> groups_ok (bs0 @ bs) (fold group_bill bs gs)"
proof (induction bs arbitrary: bs0 gs)
  case (Cons b bs)
  show ?case using Cons.IH [OF group_bill_ok [OF Cons.prems]] by simp
qed simp

abbreviation in_full :: "vendor_bill list \<Rightarrow> (vendor_bill \<times> decimal) list" where
  "in_full bs \<equiv> map (\<lambda>b. (b, vb_open b)) bs"

text \<open>The payment of one group validates to each of its bills with the whole open amount.\<close>

lemma group_pairs:
  assumes wf: "ap_wf db" and bs: "set bs \<subseteq> set (vendor_bills db)" "\<forall>b \<in> set bs. vb_currency b = cur"
    and val: "list_all2 (\<lambda>a p. validated_allocation db t partner cur a = Inr p)
      (map (\<lambda>b. \<lparr>pac_bill = vb_id b, pac_amount = vb_open b\<rparr>) bs) ps"
  shows "ps = in_full bs"
proof -
  have "p = (b, vb_open b)" if b: "b \<in> set bs"
    and p: "validated_allocation db t partner cur \<lparr>pac_bill = vb_id b, pac_amount = vb_open b\<rparr> = Inr p" for b p
  proof -
    note W = ap_wfD [OF wf] and V = validated_allocation_Inr [OF p]
    have bb: "b \<in> set (vendor_bills db)" "vb_currency b = cur" using b bs by auto
    have "fst p \<in> set (vendor_bills db)" using V(1) by (simp add: ap.may_pay_def)
    then have "fst p = b" using W(2) V(5) bb(1) by (auto simp: distinct_map dest: inj_onD)
    moreover have "on_grid (currency_decimals cur) (vb_open b)" using W(4) [OF bb(1)] bb(2) by (simp add: bill_ok_def)
    then have "snd p = vb_open b" using V(6) by (simp add: quantize_money_def quantize_grid)
    ultimately show ?thesis by (simp add: prod_eq_iff)
  qed
  note pair = this
  have "ps ! i = (bs ! i, vb_open (bs ! i))" if "i < length ps" for i
  proof -
    have len: "length bs = length ps" using list_all2_lengthD [OF val] by simp
    then have "bs ! i \<in> set bs" using that by simp
    moreover have "validated_allocation db t partner cur \<lparr>pac_bill = vb_id (bs ! i), pac_amount = vb_open (bs ! i)\<rparr> = Inr (ps ! i)"
      using list_all2_nthD2 [OF val that] len that by simp
    ultimately show ?thesis by (rule pair)
  qed
  then show ?thesis using list_all2_lengthD [OF val] by (intro nth_equalityI) simp_all
qed

lemma pay_group_effect:
  assumes wf: "ap_wf db" and g: "set (snd g) \<subseteq> set (vendor_bills db)" "\<forall>b \<in> set (snd g). (vb_partner b, vb_currency b) = fst g"
    and pg: "pay_group t d bank g (acc, db) = Inr (acc', db')"
  shows "ap_wf db' \<and> vendor_bills db' = ap.settle_all (in_full (snd g)) (vendor_bills db) \<and>
    (\<exists>pay. acc' = acc @ [pay] \<and> vp_amount pay = sum_list (map vb_open (snd g)) \<and> (vp_partner pay, vp_currency pay) = fst g)"
proof -
  obtain pay where cp: "create_and_post_payment db t (group_payment d bank g) = Inr (pay, db')" and acc: "acc' = acc @ [pay]"
    using pg by (auto simp: pay_group_def elim!: bindr_InrE)
  show ?thesis
  proof (rule payment_effect [OF wf cp], goal_cases)
    case (1 ps new e ls fs)
    have "ps = in_full (snd g)"
      by (rule group_pairs [OF wf g(1)]) (use g(2) validated_clearing_Inr(2) [OF 1(1)] in \<open>auto simp: group_payment_def prod_eq_iff\<close>)
    then show ?case using 1 acc by (simp add: o_def group_payment_def)
  qed
qed

lemma settle_all_append: "ap.settle_all (ps @ qs) bs = ap.settle_all qs (ap.settle_all ps bs)"
  by (simp add: ap.settle_all_def)

lemma settle_all_other:
  assumes "distinct (map (vb_id \<circ> fst) ps)" and "b \<in> set bs" and "vb_id b \<notin> vb_id ` fst ` set ps"
  shows "b \<in> set (ap.settle_all ps bs)"
proof -
  have "map_of (map (\<lambda>p. (vb_id (fst p), snd p)) ps) (vb_id b) = None"
    using assms(3) by (auto simp: map_of_eq_None_iff image_iff)
  then show ?thesis unfolding ap.settle_all_map [OF assms(1)] using assms(2) by (force simp: image_iff)
qed

lemma pay_groups_effect:
  assumes wf: "ap_wf db"
    and gs: "\<forall>g \<in> set gs. set (snd g) \<subseteq> set (vendor_bills db) \<and> (\<forall>b \<in> set (snd g). (vb_partner b, vb_currency b) = fst g)"
    and dist: "distinct (map vb_id (concat (map snd gs)))"
    and run: "fold_result (pay_group t d bank) gs (acc, db) = Inr (acc', db')"
  shows "ap_wf db' \<and> vendor_bills db' = ap.settle_all (in_full (concat (map snd gs))) (vendor_bills db) \<and>
    (\<exists>pays. acc' = acc @ pays \<and> map (\<lambda>p. ((vp_partner p, vp_currency p), vp_amount p)) pays =
       map (\<lambda>g. (fst g, sum_list (map vb_open (snd g)))) gs)"
  using assms
proof (induction gs arbitrary: acc db)
  case Nil
  then show ?case by (simp add: ap.settle_all_def)
next
  case (Cons g gs)
  obtain acc1 db1 where pg: "pay_group t d bank g (acc, db) = Inr (acc1, db1)"
    and rest: "fold_result (pay_group t d bank) gs (acc1, db1) = Inr (acc', db')"
    using Cons.prems(4) by (auto elim!: bindr_InrE)
  have g: "set (snd g) \<subseteq> set (vendor_bills db)" "\<forall>b \<in> set (snd g). (vb_partner b, vb_currency b) = fst g"
    using Cons.prems(2) by auto
  from pay_group_effect [OF Cons.prems(1) g pg] obtain pay where
    1: "ap_wf db1" "vendor_bills db1 = ap.settle_all (in_full (snd g)) (vendor_bills db)"
    "acc1 = acc @ [pay]" "vp_amount pay = sum_list (map vb_open (snd g))" "(vp_partner pay, vp_currency pay) = fst g" by blast
  have dg: "distinct (map (vb_id \<circ> fst) (in_full (snd g)))" using Cons.prems(3) by (simp add: o_def)
  have "set (snd h) \<subseteq> set (vendor_bills db1) \<and> (\<forall>b \<in> set (snd h). (vb_partner b, vb_currency b) = fst h)" if h: "h \<in> set gs" for h
  proof -
    have "b \<in> set (vendor_bills db1)" if b: "b \<in> set (snd h)" for b
    proof -
      have "vb_id b \<notin> vb_id ` set (snd g)" using Cons.prems(3) h b by auto
      moreover have "b \<in> set (vendor_bills db)" using Cons.prems(2) h b by auto
      ultimately show ?thesis unfolding 1(2) by (intro settle_all_other [OF dg]) (auto simp: image_image)
    qed
    then show ?thesis using Cons.prems(2) h by auto
  qed
  then have IH: "ap_wf db' \<and> vendor_bills db' = ap.settle_all (in_full (concat (map snd gs))) (vendor_bills db1) \<and>
    (\<exists>pays. acc' = acc1 @ pays \<and> map (\<lambda>p. ((vp_partner p, vp_currency p), vp_amount p)) pays =
       map (\<lambda>g. (fst g, sum_list (map vb_open (snd g)))) gs)"
    using Cons.IH [OF 1(1) _ _ rest] Cons.prems(3) by auto
  then obtain pays where "acc' = acc @ pay # pays" "map (\<lambda>p. ((vp_partner p, vp_currency p), vp_amount p)) pays =
       map (\<lambda>g. (fst g, sum_list (map vb_open (snd g)))) gs" using 1(3) by auto
  then show ?case using IH 1(4,5) by (simp add: settle_all_append 1(2))
qed

lemma due_bills_set:
  "set (due_bills db t up_to partner) = {b \<in> set (vendor_bills db). vb_tenant b = t \<and>
     vb_status b \<in> {BILL_POSTED, BILL_PARTIALLY_PAID} \<and> 0 < vb_open b \<and> vb_due_date b \<le> up_to \<and>
     (case partner of None \<Rightarrow> True | Some p \<Rightarrow> vb_partner b = p)}"
  unfolding due_bills_def by auto

lemma distinct_map_sort_filter:
  assumes "distinct (map f xs)"
  shows "distinct (map f (sort_key k (filter P xs)))"
proof -
  have "mset (map f (sort_key k (filter P xs))) = mset (map f (filter P xs))" by simp
  then have "distinct (map f (sort_key k (filter P xs))) = distinct (map f (filter P xs))" by (rule mset_eq_imp_distinct_iff)
  then show ?thesis using distinct_map_filter [OF assms] by blast
qed

lemma run_payment_batch_effect:
  assumes wf: "ap_wf db" and run: "run_payment_batch db t up_to bank partner pd = Inr (pays, db')"
  obtains gs where "groups_ok (due_bills db t up_to partner) gs" "distinct (map vb_id (concat (map snd gs)))"
    "ap_wf db'" "vendor_bills db' = ap.settle_all (in_full (concat (map snd gs))) (vendor_bills db)"
    "map (\<lambda>p. ((vp_partner p, vp_currency p), vp_amount p)) pays = map (\<lambda>g. (fst g, sum_list (map vb_open (snd g)))) gs"
proof -
  define gs where "gs = fold group_bill (due_bills db t up_to partner) []"
  have ok: "groups_ok (due_bills db t up_to partner) gs"
    using groups_ok_fold [of "[]" "[]" "due_bills db t up_to partner"] by (simp add: gs_def groups_ok_def)
  have "distinct (map vb_id (due_bills db t up_to partner))"
    unfolding due_bills_def by (intro distinct_map_sort_filter ap_wfD(2) [OF wf])
  then have dist: "distinct (map vb_id (concat (map snd gs)))"
    using ok unfolding groups_ok_def by (metis mset_eq_imp_distinct_iff mset_map)
  have "set (concat (map snd gs)) = set (due_bills db t up_to partner)"
    using ok unfolding groups_ok_def by (metis set_mset_mset)
  then have "set (snd g) \<subseteq> set (vendor_bills db)" if "g \<in> set gs" for g
    using due_bills_set [of db t up_to partner] that by (auto simp: set_concat)
  then have mem: "\<forall>g \<in> set gs. set (snd g) \<subseteq> set (vendor_bills db) \<and> (\<forall>b \<in> set (snd g). (vb_partner b, vb_currency b) = fst g)"
    using ok unfolding groups_ok_def by blast
  have "fold_result (pay_group t (case pd of Some d \<Rightarrow> d | None \<Rightarrow> up_to) bank) gs ([], db) = Inr (pays, db')"
    using run by (simp add: run_payment_batch_def Let_def gs_def)
  from pay_groups_effect [OF wf mem dist this] ok dist show thesis by (auto intro: that)
qed

lemma settle_in_full_cases:
  assumes "distinct (map vb_id bs)" and "set bs \<subseteq> set rows" and "distinct (map vb_id rows)"
  shows "ap.settle_all (in_full bs) rows = map (\<lambda>b. if b \<in> set bs then reduce_open (vb_open b) b else b) rows"
proof -
  have dist: "distinct (map (vb_id \<circ> fst) (in_full bs))" using assms(1) by (simp add: o_def)
  have "map_of (map (\<lambda>p. (vb_id (fst p), snd p)) (in_full bs)) (vb_id b) = (if b \<in> set bs then Some (vb_open b) else None)"
    if "b \<in> set rows" for b
  proof (cases "b \<in> set bs")
    case True
    then show ?thesis using assms(1) by (auto simp: o_def intro!: map_of_is_SomeI)
  next
    case False
    then have "vb_id b \<notin> vb_id ` set bs" using assms(2,3) that by (auto simp: distinct_map dest: inj_onD)
    then show ?thesis using False by (auto simp: map_of_eq_None_iff)
  qed
  then show ?thesis unfolding ap.settle_all_map [OF dist] by (intro map_cong) auto
qed

subsection \<open>Properties\<close>


text \<open>
  C31. A payment clears exactly what it says: its amount is the sum of the validated allocations, each
  bill named (once) is open, of the payment's vendor and currency and loses exactly its allocation,
  turning PAID when nothing is left, and no other bill changes; the allocations are recorded under
  the payment; and one balanced posted PAYMENT entry on the payment date is booked, whose
  functional amounts are those of the clearing lines.
\<close>

theorem payment_clears_bills:
  assumes "ap_wf db" and "create_and_post_payment db t p = Inr (pay, db')"
  shows "\<exists>ps new e ls fs. validated_clearing db t (vpc_partner p) (vpc_currency p) (vpc_allocations p) = Inr ps \<and>
    vp_amount pay = sum_list (map snd ps) \<and> vendor_payments db' = vendor_payments db @ [pay] \<and>
    (\<forall>(b, x) \<in> set ps. b \<in> set (vendor_bills db) \<and> vb_status b \<in> {BILL_POSTED, BILL_PARTIALLY_PAID} \<and>
       vb_partner b = vpc_partner p \<and> vb_currency b = vpc_currency p \<and> 0 < x \<and> x \<le> vb_open b) \<and>
    distinct (map (vb_id \<circ> fst) ps) \<and>
    vendor_bills db' = map (\<lambda>b. case map_of (map (\<lambda>(b, x). (vb_id b, x)) ps) (vb_id b) of
       None \<Rightarrow> b | Some x \<Rightarrow> b\<lparr>vb_open := vb_open b - x, vb_status := (if vb_open b = x then BILL_PAID else BILL_PARTIALLY_PAID)\<rparr>)
       (vendor_bills db) \<and>
    vendor_payment_allocations db' = vendor_payment_allocations db @ new \<and>
    map (\<lambda>a. (vpa_payment a, vpa_bill a, vpa_amount a)) new = map (\<lambda>(b, x). (vp_id pay, vb_id b, x)) ps \<and>
    journal_entries db' = journal_entries db @ [e] \<and> vp_entry pay = Some (je_id e) \<and> je_status e = POSTED \<and>
    je_document_type e = PAYMENT \<and> je_posting_date e = vpc_date p \<and> entry_balanced (entry_lines db' (je_id e)) \<and>
    build_payment_lines db t ps (vpc_currency p) (vpc_bank_account p) (vp_amount pay) (vpc_date p) = Inr (ls, fs) \<and>
    mset (map functional_view (entry_lines db' (je_id e))) = mset (map sides_view (zip ls fs)) \<and> ap_wf db'"
proof (rule payment_effect [OF assms], goal_cases)
  case (1 ps new e ls fs)
  note V = validated_clearing_Inr [OF 1(1)] and W = ap_wfD [OF assms(1)]
  have pairs: "\<forall>(b, x) \<in> set ps. b \<in> set (vendor_bills db) \<and> vb_status b \<in> {BILL_POSTED, BILL_PARTIALLY_PAID} \<and>
       vb_partner b = vpc_partner p \<and> vb_currency b = vpc_currency p \<and> 0 < x \<and> x \<le> vb_open b"
    using V(3) by (auto simp: ap.may_pay_def payable_iff)
  let ?m = "map_of (map (\<lambda>(b, x). (vb_id b, x)) ps)"
  have m: "map (\<lambda>p. (vb_id (fst p), snd p)) ps = map (\<lambda>(b, x). (vb_id b, x)) ps" by auto
  have "reduce_open x b = b\<lparr>vb_open := vb_open b - x, vb_status := (if vb_open b = x then BILL_PAID else BILL_PARTIALLY_PAID)\<rparr>"
    if b: "b \<in> set (vendor_bills db)" and x: "?m (vb_id b) = Some x" for b x
  proof -
    obtain c where c: "(c, x) \<in> set ps" "vb_id c = vb_id b" using x by (auto dest!: map_of_SomeD)
    then have "c = b" using pairs W(2) b by (auto simp: distinct_map dest: inj_onD)
    then have "on_grid (currency_decimals (vb_currency b)) x" using V(3) c(1) by (force simp: ap.may_pay_def)
    moreover have "on_grid (currency_decimals (vb_currency b)) (vb_open b)" using W(4) [OF b] by (simp add: bill_ok_def)
    ultimately have "store_money (vb_open b - x) = vb_open b - x"
      by (intro store_money_grid on_grid_mono [OF on_grid_diff currency_decimals_le])
    then show ?thesis by (simp add: reduce_open_def Let_def)
  qed
  then have rows: "vendor_bills db' = map (\<lambda>b. case ?m (vb_id b) of
       None \<Rightarrow> b | Some x \<Rightarrow> b\<lparr>vb_open := vb_open b - x, vb_status := (if vb_open b = x then BILL_PAID else BILL_PARTIALLY_PAID)\<rparr>)
       (vendor_bills db)"
    unfolding 1(4) ap.settle_all_map [OF 1(2)] m by (intro map_cong refl) (auto split: option.splits)
  have "map (\<lambda>a. (vp_id pay, vpa_bill a, vpa_amount a)) new = map (\<lambda>p. (vp_id pay, vb_id (fst p), snd p)) ps"
    using arg_cong [OF 1(7) [unfolded ap.pays_def], of "map (Pair (vp_id pay))"] by (simp add: o_def)
  moreover have "map (\<lambda>a. (vpa_payment a, vpa_bill a, vpa_amount a)) new = map (\<lambda>a. (vp_id pay, vpa_bill a, vpa_amount a)) new"
    using 1(8) by auto
  ultimately have al: "map (\<lambda>a. (vpa_payment a, vpa_bill a, vpa_amount a)) new = map (\<lambda>(b, x). (vp_id pay, vb_id b, x)) ps"
    by (simp add: split_def)
  show ?case
    by (intro exI [of _ ps] exI [of _ new] exI [of _ e] exI [of _ ls] exI [of _ fs] conjI rows al pairs 1(1,2,3,6,9,10,17,18))
      (use 1 in simp_all)
qed

text \<open>A payment of 10.00 on the sample bill, and a run that pays the bill in full.\<close>

definition sample_payment :: vendor_payment_create where
  "sample_payment = \<lparr>vpc_partner = 7, vpc_partner_name = ''ACME'', vpc_date = Date 2024 3 10, vpc_currency = ''USD'',
     vpc_bank_account = 30, vpc_amount = 10, vpc_description = None,
     vpc_allocations = [\<lparr>pac_bill = 50, pac_amount = 10\<rparr>]\<rparr>"

definition paid_bill :: ap_db where
  "paid_bill = snd (projr (create_and_post_payment posted_bill 1 sample_payment))"

lemma posted_bill_wf: "ap_wf posted_bill"
proof (rule billed_draft)
  fix b assume b: "get_vendor_bill billed 1 50 = Inr b" "vb_status b = BILL_DRAFT"
  obtain b' where "post_vendor_bill billed 1 50 None = Inr (b', posted_bill)" by (rule posted_bill_Inr)
  from post_vendor_bill_effect(1) [OF billed_wf this b] show ?thesis .
qed

lemma paid_bill_Inr: obtains pay where "create_and_post_payment posted_bill 1 sample_payment = Inr (pay, paid_bill)"
proof -
  have "is_ok (create_and_post_payment posted_bill 1 sample_payment)" by code_simp
  then show thesis using that by (auto simp: paid_bill_def elim!: is_okE)
qed

theorem payment_clears_bills_witness:
  "\<exists>pay e. create_and_post_payment posted_bill 1 sample_payment = Inr (pay, paid_bill) \<and>
     vendor_payments paid_bill = vendor_payments posted_bill @ [pay] \<and> je_status e = POSTED \<and> vp_entry pay = Some (je_id (e :: journal_entry))"
proof (rule paid_bill_Inr)
  fix pay assume p: "create_and_post_payment posted_bill 1 sample_payment = Inr (pay, paid_bill)"
  from payment_clears_bills [OF posted_bill_wf p] p show ?thesis by blast
qed


end
