(* ===== verification/Payables.thy ===== *)
theory Payables
  imports Vendor_Payments
begin

text \<open>
  Accounts payable as a whole: the runs of committed operations on bills and payments, interleaved
  with any work on the journal, and the reconciliation of the subledger with the AP control account
  of the general ledger.
\<close>

subsection \<open>Runs\<close>

inductive ap_step :: "'m ap_db_scheme \<Rightarrow> 'm ap_db_scheme \<Rightarrow> bool" where
  create: "create_vendor_bill db t p = Inr (b, db') \<Longrightarrow> ap_step db db'"
| post: "post_vendor_bill db t i d = Inr (b, db') \<Longrightarrow> ap_step db db'"
| pay: "create_and_post_payment db t q = Inr (pay, db') \<Longrightarrow> ap_step db db'"
| run: "run_payment_batch db t up_to bank partner pd = Inr (pays, db') \<Longrightarrow> ap_step db db'"
| ledger: "ledger_step db db' \<Longrightarrow> ap_step db db'"
| tax_code: "create_tax_code db t tc = Inr (c, db') \<Longrightarrow> ap_step db db'"
| tax_update: "update_tax_code db t i u = Inr (c, db') \<Longrightarrow> ap_step db db'"
| default: "set_posting_default db t purpose acct = Inr (d, db') \<Longrightarrow> ap_step db db'"

lemma ap_wf_config:
  assumes "ap_wf db" and "journal_entries db' = journal_entries db" "journal_lines db' = journal_lines db"
    "vendor_bills db' = vendor_bills db" "vendor_bill_lines db' = vendor_bill_lines db"
    "vendor_payment_allocations db' = vendor_payment_allocations db" "uuid_supply db \<le> uuid_supply db'"
  shows "ap_wf db'"
proof -
  have "books_wf db'" by (rule books_wf_frame [OF ap_wfD(1) [OF assms(1)]]) (use assms in simp)
  then show ?thesis using assms unfolding ap_wf_def by (auto intro: less_le_trans)
qed

lemma post_vendor_bill_cases:
  assumes "post_vendor_bill db t i d = Inr (b', db')"
  obtains (same) "db' = db" | (draft) b where "get_vendor_bill db t i = Inr b" "vb_status b = BILL_DRAFT"
  using assms that unfolding post_vendor_bill_def
  by (cases "get_vendor_bill db t i") (auto split: if_splits)

lemma ap_step_wf: "ap_step db db' \<Longrightarrow> ap_wf db \<Longrightarrow> ap_wf db'"
proof (induction rule: ap_step.induct)
  case (create db t p b db')
  then show ?case using create_vendor_bill_effect(1) by blast
next
  case (post db t i d b db')
  from post.hyps show ?case
    by (cases rule: post_vendor_bill_cases) (use post post_vendor_bill_effect(1) in blast)+
next
  case (pay db t q pay db')
  then show ?case by (blast elim: payment_effect)
next
  case (run db t up_to bank partner pd pays db')
  then show ?case by (blast elim: run_payment_batch_effect)
next
  case (ledger db db')
  have "books_wf db" using ledger.prems by (rule ap_wfD(1))
  then show ?case
    using ledger_step_more [OF ledger.hyps] ledger_step_wf [OF ledger.hyps] ap_wf_frame [OF ledger.prems] by blast
next
  case (tax_code db t tc c db')
  from tax_code.hyps show ?case
    by (auto simp: create_tax_code_def uuid4_def Let_def elim!: bindr_InrE intro!: ap_wf_config [OF tax_code.prems] split: if_splits option.splits)
next
  case (tax_update db t i u c db')
  from tax_update.hyps show ?case
    by (auto simp: update_tax_code_def Let_def elim!: bindr_InrE intro!: ap_wf_config [OF tax_update.prems] split: if_splits option.splits)
next
  case (default db t purpose acct d db')
  from default.hyps show ?case
    by (auto simp: set_posting_default_def uuid4_def Let_def elim!: bindr_InrE intro!: ap_wf_config [OF default.prems] split: if_splits option.splits)
qed

lemma ap_run_wf: "ap_step\<^sup>*\<^sup>* db db' \<Longrightarrow> ap_wf db \<Longrightarrow> ap_wf db'"
  by (induction rule: rtranclp_induct) (auto intro: ap_step_wf)

subsection \<open>Bills only move forward\<close>

definition bill_progress :: "vendor_bill \<Rightarrow> vendor_bill \<Rightarrow> bool" where
  "bill_progress b b' \<longleftrightarrow> vb_id b' = vb_id b \<and> vb_tenant b' = vb_tenant b \<and> vb_partner b' = vb_partner b \<and>
     vb_currency b' = vb_currency b \<and> vb_gross b' = vb_gross b \<and> vb_due_date b' = vb_due_date b \<and>
     (vb_status b \<noteq> BILL_DRAFT \<longrightarrow> vb_status b' \<noteq> BILL_DRAFT \<and> vb_open b' \<le> vb_open b) \<and>
     (vb_status b = BILL_PAID \<longrightarrow> b' = b)"

definition bills_progress :: "vendor_bill list \<Rightarrow> vendor_bill list \<Rightarrow> bool" where
  "bills_progress bs bs' \<longleftrightarrow> (\<forall>b \<in> set bs. \<exists>b' \<in> set bs'. bill_progress b b')"

lemma bill_progress_refl [simp]: "bill_progress b b"
  by (simp add: bill_progress_def)

lemma bill_progress_trans: "bill_progress a b \<Longrightarrow> bill_progress b c \<Longrightarrow> bill_progress a c"
  unfolding bill_progress_def by (metis order_trans)

lemma bills_progress_refl: "set bs \<subseteq> set bs' \<Longrightarrow> bills_progress bs bs'"
  unfolding bills_progress_def by (metis bill_progress_refl subsetD)

lemma bills_progress_trans: "bills_progress as bs \<Longrightarrow> bills_progress bs cs \<Longrightarrow> bills_progress as cs"
  unfolding bills_progress_def by (meson bill_progress_trans)

lemma settle_progress:
  assumes "ap_wf db" and ps: "\<forall>p \<in> set ps. ap.may_pay (vendor_bills db) p" "distinct (map (vb_id \<circ> fst) ps)"
  shows "bills_progress (vendor_bills db) (ap.settle_all ps (vendor_bills db))"
  unfolding bills_progress_def
proof
  fix b assume b: "b \<in> set (vendor_bills db)"
  let ?m = "map_of (map (\<lambda>p. (vb_id (fst p), snd p)) ps)"
  let ?b = "case ?m (vb_id b) of Some x \<Rightarrow> reduce_open x b | None \<Rightarrow> b"
  have "?b \<in> set (ap.settle_all ps (vendor_bills db))" unfolding ap.settle_all_map [OF ps(2)] using b by auto
  moreover have "bill_progress b ?b"
  proof (cases "?m (vb_id b)")
    case (Some x)
    then obtain p where p: "p \<in> set ps" "vb_id (fst p) = vb_id b" "snd p = x" by (auto dest!: map_of_SomeD)
    then have "fst p = b" using ps(1) ap_wfD(2) [OF assms(1)] b by (auto simp: ap.may_pay_def distinct_map dest: inj_onD)
    then have x: "ap.may_pay (vendor_bills db) (b, x)" using ps(1) p by (metis prod.collapse)
    have "on_grid (currency_decimals (vb_currency b)) (vb_open b)" using ap_wfD(4) [OF assms(1) b] by (simp add: bill_ok_def)
    then have "vb_open (reduce_open x b) = vb_open b - x" using x by (intro ap.settle_on_scale) (simp_all add: ap.may_pay_def)
    then show ?thesis using x Some by (auto simp: bill_progress_def ap.may_pay_def payable_iff)
        (auto simp: reduce_open_def Let_def split: if_splits)
  qed simp
  ultimately show "\<exists>b' \<in> set (ap.settle_all ps (vendor_bills db)). bill_progress b b'" by blast
qed

lemma due_may_pay:
  assumes "ap_wf db" and "set bs \<subseteq> set (due_bills db t up_to partner)"
  shows "\<forall>p \<in> set (in_full bs). ap.may_pay (vendor_bills db) p"
  using assms ap_wfD(4) [OF assms(1)] by (auto simp: due_bills_set ap.may_pay_def payable_iff bill_ok_def)

lemma ap_step_progress:
  assumes "ap_step db db'" and wf: "ap_wf db"
  shows "bills_progress (vendor_bills db) (vendor_bills db')"
  using assms(1)
proof cases
  case (create t p b)
  then show ?thesis using create_vendor_bill_effect(2) [OF wf] by (intro bills_progress_refl) auto
next
  case (post t i d b')
  then show ?thesis
  proof (cases rule: post_vendor_bill_cases)
    case same
    then show ?thesis by (simp add: bills_progress_refl)
  next
    case (draft b)
    from post_vendor_bill_effect(3) [OF wf post draft] obtain n e
      where vb: "vendor_bills db' = upd_rows (\<lambda>b. vb_id b = i) (mark_posted n e) (vendor_bills db)" by blast
    have "bill_progress c (if vb_id c = i then mark_posted n e c else c)" if "c \<in> set (vendor_bills db)" for c
    proof (cases "vb_id c = i")
      case True
      then have "c = b" using get_vendor_bill_Inr [OF draft(1)] ap_wfD(2) [OF wf] that by (auto simp: distinct_map dest: inj_onD)
      then show ?thesis using draft(2) True by (simp add: bill_progress_def mark_posted_def)
    qed simp
    then show ?thesis unfolding bills_progress_def vb upd_rows_def set_map by blast
  qed
next
  case (pay t q pay)
  show ?thesis
  proof (rule payment_effect [OF wf pay], goal_cases)
    case (1 ps new e ls fs)
    have "\<forall>p \<in> set ps. ap.may_pay (vendor_bills db) p" using validated_clearing_Inr(3) [OF 1(1)] by blast
    then show ?case unfolding 1(4) by (rule settle_progress [OF wf _ 1(2)])
  qed
next
  case (run t up_to bank partner pd pays)
  show ?thesis
  proof (rule run_payment_batch_effect [OF wf run])
    fix gs
    assume g: "groups_ok (due_bills db t up_to partner) gs" "distinct (map vb_id (concat (map snd gs)))"
      and vb: "vendor_bills db' = ap.settle_all (in_full (concat (map snd gs))) (vendor_bills db)"
    have "set (concat (map snd gs)) = set (due_bills db t up_to partner)"
      using g(1) unfolding groups_ok_def by (metis set_mset_mset)
    then show ?thesis unfolding vb using g(2) by (intro settle_progress [OF wf] due_may_pay [OF wf, of _ t up_to partner])
        (simp_all add: o_def)
  qed
next
  case ledger
  have "fin_db.more db' = fin_db.more db" using ledger_step_more [OF ledger ap_wfD(1) [OF wf]] by blast
  then have "vendor_bills db' = vendor_bills db" by (rule ap_frame_fin(3))
  then show ?thesis by (simp add: bills_progress_refl)
next
  case (tax_code t tc c)
  then have "vendor_bills db' = vendor_bills db"
    by (auto simp: create_tax_code_def uuid4_def Let_def elim!: bindr_InrE split: if_splits option.splits)
  then show ?thesis by (simp add: bills_progress_refl)
next
  case (tax_update t i u c)
  then have "vendor_bills db' = vendor_bills db"
    by (auto simp: update_tax_code_def Let_def elim!: bindr_InrE split: if_splits option.splits)
  then show ?thesis by (simp add: bills_progress_refl)
next
  case (default t purpose acct d)
  then have "vendor_bills db' = vendor_bills db"
    by (auto simp: set_posting_default_def uuid4_def Let_def elim!: bindr_InrE split: if_splits option.splits)
  then show ?thesis by (simp add: bills_progress_refl)
qed

lemma ap_run_progress:
  "ap_step\<^sup>*\<^sup>* db db' \<Longrightarrow> ap_wf db \<Longrightarrow> bills_progress (vendor_bills db) (vendor_bills db')"
proof (induction rule: rtranclp_induct)
  case (step db1 db2)
  then show ?case using ap_step_progress [OF step.hyps(2)] ap_run_wf [OF step.hyps(1)] bills_progress_trans by blast
qed (simp add: bills_progress_refl)

subsection \<open>The control account\<close>

text \<open>
  A disciplined run for one tenant: every bill is booked on the control account \<open>a\<close> in the tenant's
  currency, and neither expense lines, nor tax accounts, nor bank accounts are the control account.
\<close>

inductive control_step :: "uuid \<Rightarrow> uuid \<Rightarrow> string \<Rightarrow> 'm ap_db_scheme \<Rightarrow> 'm ap_db_scheme \<Rightarrow> bool"
  for t a cur where
  create: "create_vendor_bill db t p = Inr (b, db') \<Longrightarrow> vbc_ap_account p = a \<Longrightarrow> vbc_currency p = cur \<Longrightarrow>
     \<forall>l \<in> set (vbc_lines p). vblc_account l \<noteq> a \<Longrightarrow> control_step t a cur db db'"
| post: "post_vendor_bill db t i d = Inr (b, db') \<Longrightarrow> control_step t a cur db db'"
| pay: "create_and_post_payment db t q = Inr (pay, db') \<Longrightarrow> vpc_bank_account q \<noteq> a \<Longrightarrow> vp_amount pay < 10 ^ 22 \<Longrightarrow>
     control_step t a cur db db'"

definition control_wf :: "uuid \<Rightarrow> uuid \<Rightarrow> string \<Rightarrow> 'm ap_db_scheme \<Rightarrow> bool" where
  "control_wf t a cur db \<longleftrightarrow> ap_wf db \<and> cur \<noteq> '''' \<and>
     functional_currency_or_none db t \<in> {Inr None, Inr (Some cur)} \<and>
     (\<forall>c \<in> set (tax_codes db). tc_receivable_account c \<noteq> Some a) \<and>
     (\<forall>b \<in> set (vendor_bills db). vb_tenant b = t \<and> vb_ap_account b = a \<and> vb_currency b = cur) \<and>
     (\<forall>l \<in> set (vendor_bill_lines db). vbl_account l \<noteq> a)"

definition open_total :: "'m ap_db_scheme \<Rightarrow> decimal" where
  "open_total db = sum_list (map vb_open (vendor_bills db))"

lemma bill_rows_accounts:
  "bill_rows db t cur n ls = Inr rows \<Longrightarrow> map vbl_account rows = map vblc_account ls"
  by (induction ls arbitrary: n rows) (auto elim!: bindr_InrE)

lemma numbered_lines_accounts: "vbl_account ` set (numbered_lines b k rows) = vbl_account ` set rows"
proof -
  have "map vbl_account (numbered_lines b k rows) = map (vbl_account \<circ> snd) (zip [k..<k + length rows] rows)"
    by (auto simp: numbered_lines_def stored_bill_line_def)
  also have "\<dots> = map vbl_account rows" by (simp flip: map_map)
  finally show ?thesis by (metis set_map)
qed

lemma net_of_bill:
  assumes "mset (map functional_view ls) = image_mset (\<lambda>(a, d, c, _). (a, d, c)) (bill_sides accts b bls)"
    and "vb_ap_account b = a" "\<forall>l \<in> set bls. vbl_account l \<noteq> a" "\<forall>l \<in> set bls. taxed l \<longrightarrow> tax_account accts l \<noteq> a"
  shows "net a ls = - vb_gross b"
proof -
  let ?vs = "map (\<lambda>l. (vbl_account l, vbl_net l, 0)) bls @ map (\<lambda>l. (tax_account accts l, vbl_tax l, 0)) (filter taxed bls) @
      [(vb_ap_account b, 0, vb_gross b)]"
  have "mset (map functional_view ls) = mset ?vs"
    unfolding assms(1) bill_sides_def by (simp add: image_mset.compositionality o_def)
  then have "net a ls = sum_list (map (\<lambda>(b, d, c). if b = a then d - c else 0) ?vs)" by (rule net_functional)
  also have "\<dots> = - vb_gross b"
  proof -
    have "sum_list (map (\<lambda>l. if vbl_account l = a then vbl_net l - 0 else 0) bls) = 0"
      "sum_list (map (\<lambda>l. if tax_account accts l = a then vbl_tax l - 0 else 0) (filter taxed bls)) = 0"
      using assms(3,4) by (auto intro!: sum_list_map_zero)
    then show ?thesis using assms(2) by (simp add: o_def)
  qed
  finally show ?thesis .
qed

lemma net_of_payment:
  assumes wf: "control_wf t a cur db" and cp: "create_and_post_payment db t q = Inr (pay, db')"
    and bank: "vpc_bank_account q \<noteq> a" and small: "vp_amount pay < 10 ^ 22"
  shows "net a (posted_lines db') = net a (posted_lines db) + vp_amount pay \<and>
    open_total db' = open_total db - vp_amount pay"
proof -
  have C: "ap_wf db" "cur \<noteq> ''''" "functional_currency_or_none db t \<in> {Inr None, Inr (Some cur)}"
    "\<And>b. b \<in> set (vendor_bills db) \<Longrightarrow> vb_ap_account b = a \<and> vb_currency b = cur"
    using wf by (auto simp: control_wf_def)
  show ?thesis
  proof (rule payment_effect [OF C(1) cp], goal_cases)
    case (1 ps new e ls fs)
    note V = validated_clearing_Inr [OF 1(1)]
    have ps: "\<forall>p \<in> set ps. ap.may_pay (vendor_bills db) p" using V(3) by blast
    obtain p ps' where p: "ps = p # ps'" using V(1) by (cases ps) auto
    then have fst: "fst p \<in> set (vendor_bills db)" "vb_currency (fst p) = vpc_currency q" using V(3) by (auto simp: ap.may_pay_def)
    then have cur: "vpc_currency q = cur" "vb_ap_account (fst p) = a" using C(4) by auto
    have grid: "on_grid (currency_decimals cur) (sum_list (map snd ps))"
      by (rule on_grid_sum_list) (use V(3) cur in \<open>auto simp: ap.may_pay_def\<close>)
    have "0 \<le> snd x" if "x \<in> set ps" for x using V(3) that by (auto simp: ap.may_pay_def)
    then have pos: "0 \<le> sum_list (map snd ps)" by (intro sum_list_nonneg) auto
    have bl: "build_clearing_lines db t (map (bill_item db t) ps) cur (vpc_bank_account q) (sum_list (map snd ps)) (vpc_date q)
        (vb_partner (fst p)) True ''AP clearing'' ''Bank payment'' = Inr (ls, fs)"
      using 1 by (simp add: build_payment_lines_def p cur)
    have cleared: "sum_list (map snd ps) = sum_list (map ci_cleared (map (bill_item db t) ps))"
      by (simp add: bill_item_def o_def)
    have lt: "\<bar>sum_list (map snd ps)\<bar> < 10 ^ 22" using small pos 1(3) by simp
    note P = clearing_plain [OF bl C(3) cleared grid lt C(2)]
    have "mset (map functional_view (entry_lines db' (je_id e))) = mset (map sides_view (zip ls fs))" using 1 by blast
    then have "net a (entry_lines db' (je_id e)) = sum_list (map (\<lambda>(b, d, c). if b = a then d - c else 0) (map sides_view (zip ls fs)))"
      by (rule net_functional)
    also have "\<dots> = vp_amount pay"
      using bank on_grid_mono [OF grid currency_decimals_le]
      unfolding P(1) P(2) by (simp add: sides_view_def p bill_item_def cur(2) 1(3) store_money_grid)
    finally have "net a (posted_lines db') = net a (posted_lines db) + vp_amount pay"
      using 1(23) net_mset [of "posted_lines db'" "posted_lines db @ entry_lines db' (je_id e)" a] by (simp add: net_append)
    moreover have "open_total db' = open_total db - vp_amount pay"
      unfolding open_total_def 1(4) 1(3)
      by (rule ap.sum_open_settle_all [OF _ ap_wfD(2) [OF C(1)] ps 1(2)]) (use ap_wfD(4) [OF C(1)] in \<open>auto simp: bill_ok_def\<close>)
    ultimately show ?case by blast
  qed
qed

lemma control_step_effect:
  assumes "control_step t a cur db db'" and wf: "control_wf t a cur db"
  shows "control_wf t a cur db' \<and>
    net a (posted_lines db') + open_total db' = net a (posted_lines db) + open_total db"
  using assms(1)
proof cases
  case (create p b)
  have ap: "ap_wf db" using wf by (simp add: control_wf_def)
  note E = create_vendor_bill_effect [OF ap create(1)]
  show ?thesis
  proof (rule create_vendor_bill_Inr [OF create(1)])
    fix rows d
    assume rows: "bill_rows db t (vbc_currency p) 1 (vbc_lines p) = Inr rows"
      and b: "b = \<lparr>vb_id = uuid_supply db, vb_tenant = t, vb_document = doc_pk d,
            vb_partner = vbc_partner p, vb_partner_name = vbc_partner_name p,
            vb_external_ref = vbc_external_ref p, vb_number = None, vb_date = vbc_date p,
            vb_due_date = vbc_due_date p, vb_currency = vbc_currency p,
            vb_status = BILL_DRAFT, vb_ap_account = vbc_ap_account p, vb_entry = None,
            vb_gross = sum_list (map (\<lambda>r. vbl_net r + vbl_tax r) rows),
            vb_tax = sum_list (map vbl_tax rows), vb_net = sum_list (map vbl_net rows), vb_open = 0,
            vb_description = vbc_description p\<rparr>"
      and db': "db' = db\<lparr>uuid_supply := Suc (Suc (uuid_supply db)) + length rows, documents := documents db @ [d],
       vendor_bills := vendor_bills db @ [stored_bill b],
       vendor_bill_lines := vendor_bill_lines db @ numbered_lines (uuid_supply db) (Suc (Suc (uuid_supply db))) rows\<rparr>"
    have "vbl_account ` set rows = vblc_account ` set (vbc_lines p)"
      using bill_rows_accounts [OF rows] by (metis set_map)
    then have "\<forall>l \<in> set (numbered_lines (uuid_supply db) (Suc (Suc (uuid_supply db))) rows). vbl_account l \<noteq> a"
      using create(4) numbered_lines_accounts [of "uuid_supply db" "Suc (Suc (uuid_supply db))" rows] by (metis image_iff)
    moreover have "functional_currency_or_none db' t = functional_currency_or_none db t"
      by (simp add: functional_currency_or_none_def db')
    moreover have "tax_codes db' = tax_codes db" by (simp add: db')
    ultimately have "control_wf t a cur db'"
      using wf E(1) create(2,3) unfolding control_wf_def by (auto simp: E(2) b) (auto simp: db')
    moreover have "posted_lines db' = posted_lines db" by (simp add: posted_lines_def E(11))
    ultimately show ?thesis using E(2,4) by (simp add: open_total_def)
  qed
next
  case (post i d b')
  then show ?thesis
  proof (cases rule: post_vendor_bill_cases)
    case same
    then show ?thesis using wf by simp
  next
    case (draft b)
    have ap: "ap_wf db" using wf by (simp add: control_wf_def)
    note E = post_vendor_bill_effect [OF ap post draft] and G = get_vendor_bill_Inr [OF draft(1)]
    have C: "vb_ap_account b = a" "vb_currency b = cur" using wf G by (auto simp: control_wf_def)
    from E(3) obtain n e where vb: "vendor_bills db' = upd_rows (\<lambda>b. vb_id b = i) (mark_posted n e) (vendor_bills db)" by blast
    have "functional_currency_or_none db' t = functional_currency_or_none db t"
      by (simp add: functional_currency_or_none_def E(6))
    then have ctl: "control_wf t a cur db'"
      using wf E(1) unfolding control_wf_def E(5,7) vb by (auto simp: upd_rows_def mark_posted_def)
    from E(2) obtain en :: journal_entry and accts where
      L: "mset (posted_lines db') = mset (posted_lines db) + mset (entry_lines db' (je_id en))"
      and res: "resolve_tax_accounts db (vb_tenant b) (get_vendor_bill_lines db (vb_tenant b) (vb_id b)) = Inr accts"
      and fv: "functional_currency_or_none db (vb_tenant b) \<in> {Inr None, Inr (Some (vb_currency b))} \<longrightarrow>
           mset (map functional_view (entry_lines db' (je_id en))) =
             image_mset (\<lambda>(a, d, c, _). (a, d, c)) (bill_sides accts b (lines_of b (vendor_bill_lines db)))"
      unfolding bill_booked_def by (elim exE conjE) (rule that)
    have "set (lines_of b (vendor_bill_lines db)) \<subseteq> set (vendor_bill_lines db)" by (auto simp: lines_of_def)
    then have la: "\<forall>l \<in> set (lines_of b (vendor_bill_lines db)). vbl_account l \<noteq> a" using wf by (auto simp: control_wf_def)
    have ta: "\<forall>l \<in> set (lines_of b (vendor_bill_lines db)). taxed l \<longrightarrow> tax_account accts l \<noteq> a"
    proof (intro ballI impI notI)
      fix l assume l: "l \<in> set (lines_of b (vendor_bill_lines db))" "taxed l" "tax_account accts l = a"
      have "l \<in> set (get_vendor_bill_lines db (vb_tenant b) (vb_id b))"
        using l(1) by (simp add: get_vendor_bill_lines_def lines_of_def)
      from tax_account_wired [OF res this l(2)] show False using wf l(3) by (auto simp: control_wf_def)
    qed
    have "net a (entry_lines db' (je_id en)) = - vb_gross b"
      by (rule net_of_bill [OF _ C(1) la ta]) (use fv wf G C(2) in \<open>auto simp: control_wf_def\<close>)
    then have "net a (posted_lines db') = net a (posted_lines db) - vb_gross b"
      using L net_mset [of "posted_lines db'" "posted_lines db @ entry_lines db' (je_id en)" a] by (simp add: net_append)
    moreover have "open_total db' = open_total db + vb_gross b"
    proof -
      have "b \<in> set (vendor_bills db)" "vb_open b = 0" using G ap_wfD(4) [OF ap, of b] draft(2) by (auto simp: bill_ok_def)
      then show ?thesis
        using filter_id [OF ap_wfD(2) [OF ap], of b] G unfolding open_total_def vb sum_list_upd_rows by simp
    qed
    ultimately show ?thesis using ctl by simp
  qed
next
  case (pay q pay)
  have ap: "ap_wf db" using wf by (simp add: control_wf_def)
  note N = net_of_payment [OF wf pay]
  show ?thesis
  proof (rule payment_effect [OF ap pay(1)], goal_cases)
    case (1 ps new e ls fs)
    have "functional_currency_or_none db' t = functional_currency_or_none db t"
      using 1 by (simp add: functional_currency_or_none_def)
    moreover have "vb_tenant b = t \<and> vb_ap_account b = a \<and> vb_currency b = cur" if "b \<in> set (vendor_bills db')" for b
      by (rule settle_all_keeps [OF 1(2) that [unfolded 1(4)]]) (use wf in \<open>auto simp: control_wf_def\<close>)
    ultimately have "control_wf t a cur db'" using wf 1 unfolding control_wf_def by simp
    then show ?case using N by simp
  qed
qed

subsection \<open>Properties\<close>

text \<open>
  C4. Over any run of committed operations on bills, payments, payment runs, tax codes, posting
  defaults and the journal, what is open on a bill is its gross less the allocations of its
  payments, never negative; a draft has neither; the status says exactly how far the bill is paid;
  and bills only move forward: none disappears, its gross never changes, what is open on a posted
  bill never grows and a paid bill is final.
\<close>

theorem open_is_gross_less_paid:
  assumes "ap_wf db" and "ap_step\<^sup>*\<^sup>* db db'"
  shows "(\<forall>b \<in> set (vendor_bills db'). let paid = allocated (vb_id b) (vendor_payment_allocations db') in
      (if vb_status b = BILL_DRAFT then vb_open b = 0 \<and> paid = 0
       else vb_open b + paid = vb_gross b \<and> 0 \<le> vb_open b \<and> 0 \<le> paid \<and> 0 < vb_gross b \<and>
         (vb_status b = BILL_PAID \<longleftrightarrow> vb_open b = 0) \<and> (vb_status b = BILL_POSTED \<longleftrightarrow> paid = 0))) \<and>
    bills_progress (vendor_bills db) (vendor_bills db')"
proof
  have "ap_wf db'" by (rule ap_run_wf [OF assms(2,1)])
  then have "bill_ok (vendor_bill_lines db') (vendor_payment_allocations db') b" if "b \<in> set (vendor_bills db')" for b
    using ap_wfD(4) that by blast
  then show "\<forall>b \<in> set (vendor_bills db'). let paid = allocated (vb_id b) (vendor_payment_allocations db') in
      (if vb_status b = BILL_DRAFT then vb_open b = 0 \<and> paid = 0
       else vb_open b + paid = vb_gross b \<and> 0 \<le> vb_open b \<and> 0 \<le> paid \<and> 0 < vb_gross b \<and>
         (vb_status b = BILL_PAID \<longleftrightarrow> vb_open b = 0) \<and> (vb_status b = BILL_POSTED \<longleftrightarrow> paid = 0))"
    unfolding bill_ok_def Let_def by (force split: bill_status.splits)
  show "bills_progress (vendor_bills db) (vendor_bills db')" by (rule ap_run_progress [OF assms(2,1)])
qed

lemma sample_ap_run: "ap_step\<^sup>*\<^sup>* sample_ap paid_bill"
proof -
  have "ap_step sample_ap billed" by (rule billed_Inr) (rule ap_step.create)
  moreover have "ap_step billed posted_bill" by (rule posted_bill_Inr) (rule ap_step.post)
  moreover have "ap_step posted_bill paid_bill" by (rule paid_bill_Inr) (rule ap_step.pay)
  ultimately show ?thesis by (meson converse_rtranclp_into_rtranclp rtranclp.rtrancl_refl)
qed

theorem open_is_gross_less_paid_witness:
  "ap_step\<^sup>*\<^sup>* sample_ap paid_bill \<and> bills_progress (vendor_bills sample_ap) (vendor_bills paid_bill)"
  using open_is_gross_less_paid [OF sample_ap_wf sample_ap_run] sample_ap_run by blast

text \<open>
  C3. The subledger reconciles with the general ledger: along any run that books a tenant's bills on
  one control account in the tenant's currency and never uses that account for anything else, the
  balance of the account in the posted ledger is minus what is open on the bills.
\<close>

theorem control_account_reconciles:
  assumes "control_wf t a cur db" and "(control_step t a cur)\<^sup>*\<^sup>* db db'"
    and "net a (posted_lines db) = - open_total db"
  shows "net a (posted_lines db') = - open_total db'"
proof -
  from assms(2,1) have "control_wf t a cur db' \<and>
      net a (posted_lines db') + open_total db' = net a (posted_lines db) + open_total db"
  proof (induction rule: rtranclp_induct)
    case (step db1 db2)
    then show ?case using control_step_effect [OF step.hyps(2)] by simp
  qed simp
  with assms(3) show ?thesis by simp
qed

lemma sample_control_run: "(control_step 1 20 ''USD'')\<^sup>*\<^sup>* sample_ap paid_bill"
proof -
  have "control_step 1 20 ''USD'' sample_ap billed"
    by (rule billed_Inr) (erule control_step.create; simp add: sample_bill_def)
  moreover have "control_step 1 20 ''USD'' billed posted_bill" by (rule posted_bill_Inr) (rule control_step.post)
  moreover have "control_step 1 20 ''USD'' posted_bill paid_bill"
  proof (rule paid_bill_Inr)
    fix pay assume p: "create_and_post_payment posted_bill 1 sample_payment = Inr (pay, paid_bill)"
    obtain ps where ps: "validated_clearing posted_bill 1 (vpc_partner sample_payment) (vpc_currency sample_payment)
        (vpc_allocations sample_payment) = Inr ps"
      "quantize_money (vpc_amount sample_payment) (currency_decimals (vpc_currency sample_payment)) = sum_list (map snd ps)"
      by (rule create_and_post_payment_Inr [OF p])
    have "vp_amount pay = sum_list (map snd ps)"
      by (rule payment_effect [OF posted_bill_wf p]) (use ps(1) in simp)
    moreover have "quantize_money (vpc_amount sample_payment) (currency_decimals (vpc_currency sample_payment)) = 10" by code_simp
    ultimately have "vp_amount pay = 10" using ps(2) by simp
    then show ?thesis by (intro control_step.pay [OF p]) (simp_all add: sample_payment_def)
  qed
  ultimately show ?thesis by (meson converse_rtranclp_into_rtranclp rtranclp.rtrancl_refl)
qed

theorem control_account_reconciles_witness:
  "(control_step 1 20 ''USD'')\<^sup>*\<^sup>* sample_ap paid_bill \<and> net 20 (posted_lines paid_bill) = - open_total paid_bill"
proof -
  have "control_wf 1 20 ''USD'' sample_ap" "net 20 (posted_lines sample_ap) = - open_total sample_ap"
    using sample_ap_wf
    by (simp_all add: control_wf_def functional_currency_or_none_def sample_ap_def posted_lines_def net_def open_total_def)
  then show ?thesis using control_account_reconciles [OF _ sample_control_run] sample_control_run by blast
qed

end
