(* ===== verification/Idempotency.thy ===== *)
theory Idempotency
  imports Prelude
begin

text \<open>
  Model of the idempotency keys (\<^verbatim>\<open>core/idempotency.py\<close>) and of their retention
  (\<^verbatim>\<open>core/job_sweeper.py\<close>): the reservation in its own transaction, the capture inside the business
  transaction, the cleanup, the purge, and the interleavings of concurrent requests as a step
  relation. The property: within the retention window a key executes at most once, and every
  replay returns the response of that execution.
\<close>

subsection \<open>The table and its operations\<close>

datatype key_status = IN_PROGRESS | COMPLETED

type_synonym scope = "uuid \<times> string \<times> string"

record 'b idempotency_key =
  ik_scope :: scope
  ik_status :: key_status
  ik_hash :: string
  ik_response_status :: "nat option"
  ik_response_body :: "'b option"
  ik_created_at :: nat
  ik_completed_at :: "nat option"

datatype 'b idem_outcome = IdempotencyReplay nat "'b option" | IdemError atlas_error

text \<open>The hash covers the request target and the body; \<open>sha\<close> stands for \<^verbatim>\<open>hashlib.sha256(...).hexdigest\<close>.\<close>

definition compute_request_hash :: "(string \<Rightarrow> string) \<Rightarrow> string \<Rightarrow> string" where
  "compute_request_hash sha body = sha body"

definition request_hash :: "(string \<Rightarrow> string) \<Rightarrow> string \<Rightarrow> string \<Rightarrow> string \<Rightarrow> string" where
  "request_hash sha path query body = compute_request_hash sha (path @ ''?'' @ query @ [CHR 0x0A] @ body)"

text \<open>The insert of \<open>reserve\<close>; the composite primary key arbitrates.\<close>

definition insert_key ::
  "nat \<Rightarrow> scope \<Rightarrow> string \<Rightarrow> 'b idempotency_key list \<Rightarrow> 'b idempotency_key list result" where
  "insert_key now scope h rows =
     (if find_row ik_scope scope rows \<noteq> None then Inl (IntegrityError ''pk_core_idempotency_keys'')
      else Inr (rows @ [\<lparr>ik_scope = scope, ik_status = IN_PROGRESS, ik_hash = h, ik_response_status = None,
             ik_response_body = None, ik_created_at = now, ik_completed_at = None\<rparr>]))"

text \<open>After a collision the existing row decides; \<^verbatim>\<open>scalar_one\<close> raises when it is gone by then.\<close>

definition arbitrate :: "scope \<Rightarrow> string \<Rightarrow> 'b idempotency_key list \<Rightarrow> 'b idem_outcome" where
  "arbitrate scope h rows =
     (case find_row ik_scope scope rows of
        None \<Rightarrow> IdemError (PyError ''NoResultFound'')
      | Some r \<Rightarrow>
          if ik_status r = COMPLETED
          then if ik_hash r = h
               then IdempotencyReplay (case ik_response_status r of None \<Rightarrow> 200 | Some s \<Rightarrow> if s = 0 then 200 else s)
                      (ik_response_body r)
               else IdemError (ValidationFailedError ''idempotency.key_reuse'')
          else IdemError (ConflictError ''idempotency.in_progress''))"

text \<open>\<open>reserve\<close> when nothing happens between the insert and the load.\<close>

definition reserve ::
  "nat \<Rightarrow> scope \<Rightarrow> string \<Rightarrow> 'b idempotency_key list \<Rightarrow> 'b idem_outcome + 'b idempotency_key list" where
  "reserve now scope h rows =
     (case insert_key now scope h rows of Inr rows' \<Rightarrow> Inr rows' | Inl _ \<Rightarrow> Inl (arbitrate scope h rows))"

definition capture ::
  "nat \<Rightarrow> scope \<Rightarrow> nat \<Rightarrow> 'b \<Rightarrow> 'b idempotency_key list \<Rightarrow> 'b idempotency_key list" where
  "capture now scope st body rows =
     upd_rows (\<lambda>r. ik_scope r = scope)
       (\<lambda>r. r\<lparr>ik_status := COMPLETED, ik_response_status := Some st, ik_response_body := Some body,
              ik_completed_at := Some now\<rparr>) rows"

definition cleanup_reservation :: "scope \<Rightarrow> 'b idempotency_key list \<Rightarrow> 'b idempotency_key list" where
  "cleanup_reservation scope rows = filter (\<lambda>r. \<not> (ik_scope r = scope \<and> ik_status r = IN_PROGRESS)) rows"

text \<open>Times are seconds; seven days of retention, at most 500 rows per tick.\<close>

definition IDEMPOTENCY_RETENTION :: nat where "IDEMPOTENCY_RETENTION = 7 * 24 * 60 * 60"
definition IDEMPOTENCY_PURGE_BUDGET :: nat where "IDEMPOTENCY_PURGE_BUDGET = 500"

definition purge_victims :: "nat \<Rightarrow> 'b idempotency_key list \<Rightarrow> scope list" where
  "purge_victims moment rows =
     map ik_scope (take IDEMPOTENCY_PURGE_BUDGET
       (filter (\<lambda>r. ik_created_at r + IDEMPOTENCY_RETENTION < moment) rows))"

definition purge_keys :: "nat \<Rightarrow> 'b idempotency_key list \<Rightarrow> nat \<times> 'b idempotency_key list" where
  "purge_keys moment rows =
     (let kept = filter (\<lambda>r. ik_scope r \<notin> set (purge_victims moment rows)) rows
      in (length rows - length kept, kept))"

subsection \<open>Concurrent requests\<close>

text \<open>
  A request has arrived, has collided with a row, runs its business work, or is broken: its work
  failed or its capture was forgotten, and its reservation is still to be deleted.
\<close>

datatype rq_phase = Arrived | Collided | Working | Broken

record request =
  rq_no :: nat
  rq_scope :: scope
  rq_hash :: string
  rq_phase :: rq_phase

datatype 'b reply = Fresh nat 'b | Replayed nat "'b option" | Refused atlas_error

fun reply_of :: "'b idem_outcome \<Rightarrow> 'b reply" where
  "reply_of (IdempotencyReplay s b) = Replayed s b"
| "reply_of (IdemError e) = Refused e"

record ('d, 'b) idem_world =
  idem_keys :: "'b idempotency_key list"
  data :: 'd
  in_flight :: "request list"
  next_no :: nat
  clock :: nat
  commits :: "(scope \<times> string \<times> nat \<times> 'b) list"
  answers :: "(scope \<times> string \<times> 'b reply) list"

definition set_phase :: "nat \<Rightarrow> rq_phase \<Rightarrow> request list \<Rightarrow> request list" where
  "set_phase no ph rs = upd_rows (\<lambda>r. rq_no r = no) (\<lambda>r. r\<lparr>rq_phase := ph\<rparr>) rs"

definition drop_request :: "nat \<Rightarrow> request list \<Rightarrow> request list" where
  "drop_request no rs = filter (\<lambda>r. rq_no r \<noteq> no) rs"

text \<open>
  \<open>Idempotent.__call__\<close> and the handler it guards, one transaction per step. \<open>capturing\<close> are the
  endpoints whose handlers call \<open>capture\<close>; \<open>work\<close> is the business work of a request. The commit of the
  business data and the capture is one step because they share the transaction.
\<close>

inductive idem_step ::
  "string set \<Rightarrow> (request \<Rightarrow> 'd \<Rightarrow> nat \<times> 'b \<times> 'd) \<Rightarrow> ('d, 'b) idem_world \<Rightarrow> ('d, 'b) idem_world \<Rightarrow> bool"
  for capturing work where
  arrive: "snd (snd scope) \<noteq> '''' \<Longrightarrow>
     idem_step capturing work w (w\<lparr>next_no := Suc (next_no w),
       in_flight := in_flight w @ [\<lparr>rq_no = next_no w, rq_scope = scope, rq_hash = h, rq_phase = Arrived\<rparr>]\<rparr>)"
| reserved: "r \<in> set (in_flight w) \<Longrightarrow> rq_phase r = Arrived \<Longrightarrow>
     insert_key (clock w) (rq_scope r) (rq_hash r) (idem_keys w) = Inr rows \<Longrightarrow>
     idem_step capturing work w (w\<lparr>idem_keys := rows, in_flight := set_phase (rq_no r) Working (in_flight w)\<rparr>)"
| collided: "r \<in> set (in_flight w) \<Longrightarrow> rq_phase r = Arrived \<Longrightarrow>
     insert_key (clock w) (rq_scope r) (rq_hash r) (idem_keys w) = Inl e \<Longrightarrow>
     idem_step capturing work w (w\<lparr>in_flight := set_phase (rq_no r) Collided (in_flight w)\<rparr>)"
| arbitrated: "r \<in> set (in_flight w) \<Longrightarrow> rq_phase r = Collided \<Longrightarrow>
     idem_step capturing work w (w\<lparr>in_flight := drop_request (rq_no r) (in_flight w),
       answers := answers w @ [(rq_scope r, rq_hash r, reply_of (arbitrate (rq_scope r) (rq_hash r) (idem_keys w)))]\<rparr>)"
| committed: "r \<in> set (in_flight w) \<Longrightarrow> rq_phase r = Working \<Longrightarrow> work r (data w) = (st, body, d) \<Longrightarrow>
     idem_step capturing work w (w\<lparr>data := d, idem_keys := capture (clock w) (rq_scope r) st body (idem_keys w),
       in_flight := drop_request (rq_no r) (in_flight w), commits := commits w @ [(rq_scope r, rq_hash r, st, body)],
       answers := answers w @ [(rq_scope r, rq_hash r, Fresh st body)]\<rparr>)"
| forgotten: "r \<in> set (in_flight w) \<Longrightarrow> rq_phase r = Working \<Longrightarrow> work r (data w) = (st, body, d) \<Longrightarrow>
     fst (snd (rq_scope r)) \<notin> capturing \<Longrightarrow>
     idem_step capturing work w (w\<lparr>data := d, in_flight := set_phase (rq_no r) Broken (in_flight w),
       commits := commits w @ [(rq_scope r, rq_hash r, st, body)],
       answers := answers w @ [(rq_scope r, rq_hash r, Fresh st body)]\<rparr>)"
| failed: "r \<in> set (in_flight w) \<Longrightarrow> rq_phase r = Working \<Longrightarrow>
     idem_step capturing work w (w\<lparr>in_flight := set_phase (rq_no r) Broken (in_flight w),
       answers := answers w @ [(rq_scope r, rq_hash r, Refused e)]\<rparr>)"
| cleaned: "r \<in> set (in_flight w) \<Longrightarrow> rq_phase r = Broken \<Longrightarrow>
     idem_step capturing work w (w\<lparr>idem_keys := cleanup_reservation (rq_scope r) (idem_keys w),
       in_flight := drop_request (rq_no r) (in_flight w)\<rparr>)"
| crashed: "idem_step capturing work w (w\<lparr>in_flight := drop_request no (in_flight w)\<rparr>)"
| purged: "idem_step capturing work w (w\<lparr>idem_keys := snd (purge_keys (clock w) (idem_keys w))\<rparr>)"
| ticked: "idem_step capturing work w (w\<lparr>clock := clock w + n\<rparr>)"

subsection \<open>At most one execution per key\<close>

definition holders :: "scope \<Rightarrow> ('d, 'b) idem_world \<Rightarrow> request set" where
  "holders k w = {r \<in> set (in_flight w). rq_scope r = k \<and> (rq_phase r = Working \<or> rq_phase r = Broken)}"

definition key_commits :: "scope \<Rightarrow> ('d, 'b) idem_world \<Rightarrow> (scope \<times> string \<times> nat \<times> 'b) list" where
  "key_commits k w = filter (\<lambda>c. fst c = k) (commits w)"

definition replay_status :: "nat \<Rightarrow> nat" where
  "replay_status st = (if st = 0 then 200 else st)"

definition idem_tables_ok :: "nat \<Rightarrow> ('d, 'b) idem_world \<Rightarrow> bool" where
  "idem_tables_ok c0 w \<longleftrightarrow>
     distinct (map ik_scope (idem_keys w)) \<and> (\<forall>r \<in> set (idem_keys w). c0 \<le> ik_created_at r) \<and>
     distinct (map rq_no (in_flight w)) \<and> (\<forall>r \<in> set (in_flight w). rq_no r < next_no w) \<and> c0 \<le> clock w"

text \<open>The row of a key says how far its one execution has come.\<close>

definition key_state_ok :: "scope \<Rightarrow> ('d, 'b) idem_world \<Rightarrow> bool" where
  "key_state_ok k w \<longleftrightarrow>
     (case find_row ik_scope k (idem_keys w) of
        None \<Rightarrow> holders k w = {} \<and> key_commits k w = []
      | Some r \<Rightarrow>
          (case ik_status r of
             IN_PROGRESS \<Rightarrow> key_commits k w = [] \<and>
               (\<exists>no. \<forall>q \<in> holders k w. rq_hash q = ik_hash r \<and> rq_no q = no)
           | COMPLETED \<Rightarrow> holders k w = {} \<and>
               (\<exists>st b. key_commits k w = [(k, ik_hash r, st, b)] \<and> ik_response_status r = Some st \<and>
                 ik_response_body r = Some b)))"

definition replays_ok :: "scope \<Rightarrow> ('d, 'b) idem_world \<Rightarrow> bool" where
  "replays_ok k w \<longleftrightarrow>
     (\<forall>h st b. (k, h, Replayed st b) \<in> set (answers w) \<longrightarrow>
        (\<exists>st' b'. key_commits k w = [(k, h, st', b')] \<and> st = replay_status st' \<and> b = Some b'))"

definition idem_start :: "nat \<Rightarrow> 'd \<Rightarrow> ('d, 'b) idem_world" where
  "idem_start c0 d = \<lparr>idem_keys = [], data = d, in_flight = [], next_no = 0, clock = c0, commits = [], answers = []\<rparr>"

inductive_cases idem_stepE: "idem_step capturing work w w'"

lemma mem_set_phase:
  assumes "distinct (map rq_no rs)" "r \<in> set rs"
  shows "set (set_phase (rq_no r) ph rs) = {q \<in> set rs. rq_no q \<noteq> rq_no r} \<union> {r\<lparr>rq_phase := ph\<rparr>}"
  unfolding set_phase_def by (rule set_upd_rows_unique [OF assms])

lemma rq_nos_set_phase [simp]: "map rq_no (set_phase no ph rs) = map rq_no rs"
  by (simp add: set_phase_def upd_rows_def)

lemma rq_nos_set_phase_set [simp]: "(\<forall>r \<in> set (set_phase no ph rs). rq_no r < n) \<longleftrightarrow> (\<forall>r \<in> set rs. rq_no r < n)"
  unfolding set_phase_def by (rule ball_upd_rows_key) simp

lemma mem_drop_request [simp]: "q \<in> set (drop_request no rs) \<longleftrightarrow> q \<in> set rs \<and> rq_no q \<noteq> no"
  by (auto simp: drop_request_def)

lemma distinct_drop_request [simp]: "distinct (map rq_no rs) \<Longrightarrow> distinct (map rq_no (drop_request no rs))"
  by (simp add: drop_request_def distinct_map_filter)

text \<open>Inside the retention window nothing is purged.\<close>

lemma purge_keys_in_window:
  assumes "\<forall>r \<in> set rows. c0 \<le> ik_created_at r" "now \<le> c0 + IDEMPOTENCY_RETENTION"
  shows "purge_keys now rows = (0, rows)"
proof -
  have "filter (\<lambda>r. ik_created_at r + IDEMPOTENCY_RETENTION < now) rows = []"
    using assms by (fastforce simp: filter_empty_conv)
  then show ?thesis by (simp add: purge_keys_def purge_victims_def)
qed

lemma insert_key_find:
  assumes "insert_key now k h rows = Inr rows'"
  shows "find_row ik_scope k rows = None" "find_row ik_scope j rows' =
    (if j = k then Some \<lparr>ik_scope = k, ik_status = IN_PROGRESS, ik_hash = h, ik_response_status = None,
       ik_response_body = None, ik_created_at = now, ik_completed_at = None\<rparr> else find_row ik_scope j rows)"
  using assms by (auto simp: insert_key_def find_row_append split: if_splits option.splits)

lemma capture_find:
  "find_row ik_scope j (capture now k st b rows) =
     map_option (\<lambda>r. if ik_scope r = k then r\<lparr>ik_status := COMPLETED, ik_response_status := Some st,
       ik_response_body := Some b, ik_completed_at := Some now\<rparr> else r) (find_row ik_scope j rows)"
  unfolding capture_def by (rule find_row_upd_rows) simp

lemma cleanup_find:
  "distinct (map ik_scope rows) \<Longrightarrow> find_row ik_scope j (cleanup_reservation k rows) =
     (case find_row ik_scope j rows of None \<Rightarrow> None
      | Some r \<Rightarrow> if j = k \<and> ik_status r = IN_PROGRESS then None else Some r)"
  unfolding cleanup_reservation_def
proof (induction rows)
  case (Cons a rows)
  have "find_row ik_scope (ik_scope a) rows = None" using Cons.prems by (simp add: find_row_None_image)
  then show ?case using Cons by (auto split: option.splits)
qed simp

lemma idem_tables_ok_step:
  assumes "idem_step capturing work w w'" "idem_tables_ok c0 w"
  shows "idem_tables_ok c0 w'"
  using assms
proof cases
  case (reserved r rows)
  then show ?thesis using assms(2)
    by (auto simp: idem_tables_ok_def insert_key_def find_row_None_image split: if_splits)
next
  case (committed r st body d)
  then show ?thesis using assms(2)
    by (auto simp: idem_tables_ok_def capture_def map_upd_rows set_upd_rows)
next
  case purged
  then show ?thesis using assms(2)
    by (auto simp: idem_tables_ok_def purge_keys_def Let_def distinct_map_filter)
qed (auto simp: idem_tables_ok_def cleanup_reservation_def distinct_map_filter)

text \<open>The requests of other keys, and the arrivals, leave the key's own state alone.\<close>

lemma holders_set_phase:
  assumes "distinct (map rq_no (in_flight w))" "r \<in> set (in_flight w)"
    "in_flight w' = set_phase (rq_no r) ph (in_flight w)"
  shows "holders k w' = {q \<in> holders k w. rq_no q \<noteq> rq_no r} \<union>
    (if rq_scope r = k \<and> (ph = Working \<or> ph = Broken) then {r\<lparr>rq_phase := ph\<rparr>} else {})"
  unfolding holders_def assms(3) mem_set_phase [OF assms(1,2)] by auto

lemma holders_drop:
  "in_flight w' = drop_request no (in_flight w) \<Longrightarrow> holders k w' = {q \<in> holders k w. rq_no q \<noteq> no}"
  by (auto simp: holders_def)

lemma only_holder:
  assumes "distinct (map rq_no (in_flight w))" "r \<in> set (in_flight w)" "r \<notin> holders k w"
  shows "{q \<in> holders k w. rq_no q \<noteq> rq_no r} = holders k w"
proof -
  have "q = r" if "q \<in> holders k w" "rq_no q = rq_no r" for q
    using that assms(1,2) by (auto simp: holders_def distinct_map dest: inj_onD)
  then show ?thesis using assms(3) by blast
qed

lemma not_holding:
  assumes "distinct (map rq_no (in_flight w))" "r \<in> set (in_flight w)" "rq_phase r \<in> {Arrived, Collided}"
  shows "{q \<in> holders k w. rq_no q \<noteq> rq_no r} = holders k w"
  by (rule only_holder [OF assms(1,2)]) (use assms(3) in \<open>auto simp: holders_def\<close>)

lemma other_holder:
  assumes "distinct (map rq_no (in_flight w))" "r \<in> set (in_flight w)" "rq_scope r \<noteq> k"
  shows "{q \<in> holders k w. rq_no q \<noteq> rq_no r} = holders k w"
  by (rule only_holder [OF assms(1,2)]) (use assms(3) in \<open>auto simp: holders_def\<close>)

lemma key_state_ok_cong:
  fixes w w' :: "('d, 'b) idem_world"
  assumes "key_state_ok k w" "find_row ik_scope k (idem_keys w') = find_row ik_scope k (idem_keys w)"
    "holders k w' = holders k w" "key_commits k w' = key_commits k w"
  shows "key_state_ok k w'"
  using assms(1) unfolding key_state_ok_def assms(2-) .

lemma key_state_ok_fewer:
  fixes w w' :: "('d, 'b) idem_world"
  assumes "key_state_ok k w" "idem_keys w' = idem_keys w" "holders k w' \<subseteq> holders k w" "commits w' = commits w"
  shows "key_state_ok k w'"
  using assms by (auto simp: key_state_ok_def key_commits_def split: option.splits key_status.splits)

text \<open>A request at work on a key owns the row: it is in progress, with the request's hash.\<close>

lemma holder_owns_row:
  assumes "key_state_ok k w" "r \<in> holders k w"
  obtains row where "find_row ik_scope k (idem_keys w) = Some row" "ik_status row = IN_PROGRESS"
    "ik_hash row = rq_hash r" "ik_scope row = k" "key_commits k w = []" "\<And>q. q \<in> holders k w \<Longrightarrow> rq_no q = rq_no r"
proof (cases "find_row ik_scope k (idem_keys w)")
  case None
  then show thesis using assms by (simp add: key_state_ok_def)
next
  case (Some row)
  then have "ik_scope row = k" by (rule find_row_Some_iff [THEN conjunct2])
  moreover have st: "ik_status row = IN_PROGRESS" using assms Some
    by (cases "ik_status row") (auto simp: key_state_ok_def)
  moreover have "key_commits k w = []" "ik_hash row = rq_hash r" "\<forall>q \<in> holders k w. rq_no q = rq_no r"
    using assms Some st by (auto simp: key_state_ok_def)
  ultimately show thesis using that [OF Some] by blast
qed

text \<open>The steps that change a key, one lemma each.\<close>

lemma key_state_reserved:
  fixes w :: "('d, 'b) idem_world"
  assumes "distinct (map rq_no (in_flight w))" "key_state_ok k w" "r \<in> set (in_flight w)"
    "insert_key now (rq_scope r) (rq_hash r) (idem_keys w) = Inr rows"
  shows "key_state_ok k (w\<lparr>idem_keys := rows, in_flight := set_phase (rq_no r) Working (in_flight w)\<rparr>)"
    (is "key_state_ok k ?w")
proof (cases "rq_scope r = k")
  case True
  have "find_row ik_scope k (idem_keys w) = None" using insert_key_find(1) [OF assms(4)] True by simp
  then have "holders k w = {}" "key_commits k w = []" using assms(2) by (simp_all add: key_state_ok_def)
  then show ?thesis using holders_set_phase [OF assms(1,3), of ?w Working k] True
      insert_key_find(2) [OF assms(4), of k]
    by (simp add: key_state_ok_def key_commits_def)
next
  case False
  have "holders k ?w = holders k w"
    using holders_set_phase [OF assms(1,3), of ?w Working k] other_holder [OF assms(1,3) False] False by simp
  then show ?thesis using insert_key_find(2) [OF assms(4), of k] False
    by - (rule key_state_ok_cong [OF assms(2)]; simp add: key_commits_def)
qed

lemma key_state_committed:
  fixes w w' :: "('d, 'b) idem_world"
  assumes "distinct (map rq_no (in_flight w))" "key_state_ok k w" "r \<in> set (in_flight w)" "rq_phase r = Working"
    and w': "idem_keys w' = capture now (rq_scope r) st body (idem_keys w)"
      "in_flight w' = drop_request (rq_no r) (in_flight w)" "commits w' = commits w @ [(rq_scope r, rq_hash r, st, body)]"
  shows "key_state_ok k w'"
proof (cases "rq_scope r = k")
  case True
  then have "r \<in> holders k w" using assms(3,4) by (simp add: holders_def)
  from holder_owns_row [OF assms(2) this] obtain row where
    row: "find_row ik_scope k (idem_keys w) = Some row" "ik_hash row = rq_hash r" "ik_scope row = k"
      "key_commits k w = []" "\<And>q. q \<in> holders k w \<Longrightarrow> rq_no q = rq_no r" by metis
  have "holders k w' = {}" using holders_drop [OF w'(2), of k] row(5) by blast
  moreover have "key_commits k w' = [(k, rq_hash r, st, body)]"
    using w'(3) row(4) True by (simp add: key_commits_def)
  ultimately show ?thesis unfolding key_state_ok_def
    using row(1-3) True by (simp add: w'(1) capture_find)
next
  case False
  have "holders k w' = holders k w"
    using holders_drop [OF w'(2), of k] other_holder [OF assms(1,3) False] by simp
  moreover have "find_row ik_scope k (idem_keys w') = find_row ik_scope k (idem_keys w)"
    using w'(1) False
    by (auto simp: capture_find map_option_case split: option.splits dest: find_row_Some_iff)
  ultimately show ?thesis using w'(3) False
    by - (rule key_state_ok_cong [OF assms(2)]; simp add: key_commits_def)
qed

lemma key_state_broken:
  fixes w w' :: "('d, 'b) idem_world"
  assumes "distinct (map rq_no (in_flight w))" "key_state_ok k w" "r \<in> set (in_flight w)"
    and w': "idem_keys w' = idem_keys w" "in_flight w' = set_phase (rq_no r) Broken (in_flight w)"
      "key_commits k w' = key_commits k w"
    and own: "rq_scope r = k \<Longrightarrow> rq_phase r = Working"
  shows "key_state_ok k w'"
proof (cases "rq_scope r = k")
  case True
  then have "r \<in> holders k w" using assms(3) own by (simp add: holders_def)
  from holder_owns_row [OF assms(2) this] obtain row where
    row: "find_row ik_scope k (idem_keys w) = Some row" "ik_status row = IN_PROGRESS" "ik_hash row = rq_hash r"
      "key_commits k w = []" "\<And>q. q \<in> holders k w \<Longrightarrow> rq_no q = rq_no r" by metis
  have "holders k w' = {r\<lparr>rq_phase := Broken\<rparr>}"
    using holders_set_phase [OF assms(1,3) w'(2), of k] row(5) True by auto
  then show ?thesis unfolding key_state_ok_def using row w'(1,3) by simp
next
  case False
  have "holders k w' = holders k w"
    using holders_set_phase [OF assms(1,3) w'(2), of k] other_holder [OF assms(1,3) False] False by simp
  then show ?thesis using w'(1,3) by - (rule key_state_ok_cong [OF assms(2)]; simp)
qed

lemma key_state_cleaned:
  fixes w :: "('d, 'b) idem_world"
  assumes "distinct (map rq_no (in_flight w))" "distinct (map ik_scope (idem_keys w))" "key_state_ok k w"
    "r \<in> set (in_flight w)" "rq_phase r = Broken"
  shows "key_state_ok k (w\<lparr>idem_keys := cleanup_reservation (rq_scope r) (idem_keys w),
    in_flight := drop_request (rq_no r) (in_flight w)\<rparr>)" (is "key_state_ok k ?w")
proof (cases "rq_scope r = k")
  case True
  then have "r \<in> holders k w" using assms(4,5) by (simp add: holders_def)
  from holder_owns_row [OF assms(3) this] obtain row where
    row: "find_row ik_scope k (idem_keys w) = Some row" "ik_status row = IN_PROGRESS"
      "key_commits k w = []" "\<And>q. q \<in> holders k w \<Longrightarrow> rq_no q = rq_no r" by metis
  have "holders k ?w = {}" using holders_drop [of ?w "rq_no r" w k] row(4) by auto
  then show ?thesis using row True by (simp add: key_state_ok_def key_commits_def cleanup_find [OF assms(2)])
next
  case False
  have "holders k ?w = holders k w"
    using holders_drop [of ?w "rq_no r" w k] other_holder [OF assms(1,4) False] by simp
  then show ?thesis using False
    by - (rule key_state_ok_cong [OF assms(3)];
        simp add: key_commits_def cleanup_find [OF assms(2)] split: option.split)
qed

lemma key_state_ok_step:
  assumes step: "idem_step capturing work w w'" and ok: "idem_tables_ok c0 w" "key_state_ok k w"
    and "fst (snd k) \<in> capturing" "clock w \<le> c0 + IDEMPOTENCY_RETENTION"
  shows "key_state_ok k w'"
proof -
  have d: "distinct (map rq_no (in_flight w))" "distinct (map ik_scope (idem_keys w))"
    using ok(1) by (simp_all add: idem_tables_ok_def)
  from step show ?thesis
  proof cases
    case (arrive scope h)
    then have "holders k w' = holders k w" by (auto simp: holders_def)
    with arrive show ?thesis by - (rule key_state_ok_cong [OF ok(2)]; simp add: key_commits_def)
  next
    case (reserved r rows)
    then show ?thesis using key_state_reserved [OF d(1) ok(2)] by simp
  next
    case (collided r e)
    have "holders k w' = holders k w"
      using holders_set_phase [OF d(1) collided(2), of w' Collided k] not_holding [OF d(1) collided(2)] collided by simp
    then show ?thesis using collided by - (rule key_state_ok_fewer [OF ok(2)]; simp)
  next
    case (arbitrated r)
    then show ?thesis using holders_drop [of w' "rq_no r" w k] by - (rule key_state_ok_fewer [OF ok(2)]; auto)
  next
    case (committed r st body d')
    show ?thesis by (rule key_state_committed [OF d(1) ok(2) committed(2,3)]) (simp_all add: committed(1))
  next
    case (forgotten r st body d')
    have "rq_scope r \<noteq> k" using forgotten assms(4) by auto
    with forgotten(1) show ?thesis
      by - (rule key_state_broken [OF d(1) ok(2) forgotten(2)]; simp add: key_commits_def)
  next
    case (failed r e)
    then show ?thesis by - (rule key_state_broken [OF d(1) ok(2) failed(2)]; simp add: key_commits_def)
  next
    case (cleaned r)
    then show ?thesis using key_state_cleaned [OF d ok(2)] by simp
  next
    case (crashed no)
    then show ?thesis using holders_drop [of w' no w k] by - (rule key_state_ok_fewer [OF ok(2)]; auto)
  next
    case purged
    then have "w' = w"
      using purge_keys_in_window [of "idem_keys w" c0 "clock w"] ok(1) assms(5) by (simp add: idem_tables_ok_def)
    then show ?thesis using ok(2) by simp
  next
    case (ticked n)
    then show ?thesis by - (rule key_state_ok_cong [OF ok(2)]; simp add: holders_def key_commits_def)
  qed
qed

text \<open>An answer once given stays true: a key that has committed never commits again.\<close>

lemma key_commits_step:
  assumes "idem_step capturing work w w'" "key_state_ok k w" "key_state_ok k w'" "key_commits k w \<noteq> []"
  shows "key_commits k w' = key_commits k w"
proof -
  have len: "length (key_commits k v) \<le> 1" if "key_state_ok k v" for v :: "('a, 'b) idem_world"
    using that by (auto simp: key_state_ok_def split: option.splits key_status.splits)
  from assms(1) have "\<exists>cs. key_commits k w' = key_commits k w @ cs"
    by cases (auto simp: key_commits_def)
  with assms(4) len [OF assms(3)] show ?thesis by (cases "key_commits k w") auto
qed

lemma arbitrate_replay:
  assumes "key_state_ok k w" "arbitrate k h (idem_keys w) = IdempotencyReplay st b"
  shows "\<exists>st' b'. key_commits k w = [(k, h, st', b')] \<and> st = replay_status st' \<and> b = Some b'"
  using assms by (auto simp: key_state_ok_def arbitrate_def replay_status_def split: option.splits key_status.splits if_splits)

lemma replays_ok_step:
  assumes step: "idem_step capturing work w w'" and ok: "key_state_ok k w" "key_state_ok k w'" "replays_ok k w"
  shows "replays_ok k w'"
proof -
  have "\<exists>st' b'. key_commits k w = [(k, h, st', b')] \<and> st = replay_status st' \<and> b = Some b'"
    if "(k, h, Replayed st b) \<in> set (answers w')" for h st b
  proof (cases "(k, h, Replayed st b) \<in> set (answers w)")
    case True
    then show ?thesis using ok(3) by (simp add: replays_ok_def)
  next
    case False
    from step that False have "arbitrate k h (idem_keys w) = IdempotencyReplay st b"
      by cases (auto elim!: reply_of.elims [OF sym])
    then show ?thesis by (rule arbitrate_replay [OF ok(1)])
  qed
  then show ?thesis unfolding replays_ok_def
    using key_commits_step [OF step ok(1,2)] by fastforce
qed

lemma clock_step: "idem_step capturing work w w' \<Longrightarrow> clock w \<le> clock w'"
  by (cases rule: idem_stepE) auto

lemma idem_reach_ok:
  assumes "(idem_step capturing work)\<^sup>*\<^sup>* (idem_start c0 d) w" "fst (snd k) \<in> capturing"
    "clock w \<le> c0 + IDEMPOTENCY_RETENTION"
  shows "idem_tables_ok c0 w \<and> key_state_ok k w \<and> replays_ok k w"
  using assms(1,3)
proof (induction rule: rtranclp_induct)
  case base
  show ?case
    by (simp add: idem_start_def idem_tables_ok_def key_state_ok_def replays_ok_def holders_def key_commits_def)
next
  case (step v w)
  have "clock v \<le> c0 + IDEMPOTENCY_RETENTION" using clock_step [OF step(2)] step(4) by simp
  with step show ?case using assms(2)
    by (meson idem_tables_ok_step key_state_ok_step replays_ok_step)
qed

text \<open>
  C5. Within the retention window an idempotency key of a capturing endpoint executes at most once,
  whatever the interleaving of requests, failures, crashes and purges: the commits under the key
  are at most one, the row is COMPLETED exactly when that commit happened, and every replay answers
  with the response of that commit to a request of the same hash.
\<close>

theorem idempotent_execution:
  assumes "(idem_step capturing work)\<^sup>*\<^sup>* (idem_start c0 d) w" "fst (snd k) \<in> capturing"
    "clock w \<le> c0 + IDEMPOTENCY_RETENTION"
  shows "length (key_commits k w) \<le> 1 \<and>
    (key_commits k w \<noteq> [] \<longleftrightarrow> (\<exists>r. find_row ik_scope k (idem_keys w) = Some r \<and> ik_status r = COMPLETED)) \<and>
    (\<forall>h st b. (k, h, Replayed st b) \<in> set (answers w) \<longrightarrow>
      (\<exists>st' b'. key_commits k w = [(k, h, st', b')] \<and> st = replay_status st' \<and> b = Some b'))"
proof -
  have ok: "key_state_ok k w" "replays_ok k w" using idem_reach_ok [OF assms] by simp_all
  have "length (key_commits k w) \<le> 1"
    "key_commits k w \<noteq> [] \<longleftrightarrow> (\<exists>r. find_row ik_scope k (idem_keys w) = Some r \<and> ik_status r = COMPLETED)"
    using ok(1) by (auto simp: key_state_ok_def split: option.splits key_status.splits)
  then show ?thesis using ok(2) unfolding replays_ok_def by blast
qed

text \<open>Two requests of one key: the first commits, the second collides and is answered with a replay.\<close>

definition sample_key :: scope where "sample_key = (1, ''finance.journal.post'', ''k1'')"

definition replayed_world :: "(int, string) idem_world" where
  "replayed_world = \<lparr>idem_keys = [\<lparr>ik_scope = sample_key, ik_status = COMPLETED, ik_hash = ''h'',
       ik_response_status = Some 200, ik_response_body = Some ''done'', ik_created_at = 5, ik_completed_at = Some 6\<rparr>],
     data = 1, in_flight = [], next_no = 2, clock = 6, commits = [(sample_key, ''h'', 200, ''done'')],
     answers = [(sample_key, ''h'', Fresh 200 ''done''), (sample_key, ''h'', Replayed 200 (Some ''done''))]\<rparr>"

definition sample_work :: "request \<Rightarrow> int \<Rightarrow> nat \<times> string \<times> int" where
  "sample_work r n = (200, ''done'', n + 1)"

lemma step_to: "R\<^sup>*\<^sup>* a b \<Longrightarrow> R b c \<Longrightarrow> c = c' \<Longrightarrow> R\<^sup>*\<^sup>* a c'"
  by auto

lemma replayed_world_reachable:
  "(idem_step {''finance.journal.post''} sample_work)\<^sup>*\<^sup>* (idem_start 5 0) replayed_world"
proof -
  let ?S = "idem_step {''finance.journal.post''} sample_work"
  let ?q = "\<lambda>n ph. \<lparr>rq_no = n, rq_scope = sample_key, rq_hash = ''h'', rq_phase = ph\<rparr>"
  let ?w = "\<lambda>ks d rs n c cs as. \<lparr>idem_keys = ks, data = d, in_flight = rs, next_no = n, clock = c, commits = cs, answers = as\<rparr>"
  let ?row = "\<lparr>ik_scope = sample_key, ik_status = IN_PROGRESS, ik_hash = ''h'', ik_response_status = None,
    ik_response_body = None, ik_created_at = 5, ik_completed_at = None\<rparr>"
  let ?done = "\<lparr>ik_scope = sample_key, ik_status = COMPLETED, ik_hash = ''h'', ik_response_status = Some 200,
    ik_response_body = Some ''done'', ik_created_at = 5, ik_completed_at = Some 6\<rparr>"
  let ?c = "(sample_key, ''h'', 200, ''done'')" and ?a = "(sample_key, ''h'', Fresh 200 ''done'')"
  have "?S\<^sup>*\<^sup>* (idem_start 5 0) (?w [] 0 [?q 0 Arrived] 1 5 [] [])"
    by (rule step_to, rule rtranclp.rtrancl_refl, rule idem_step.arrive [of sample_key _ _ _ "''h''"])
      (simp_all add: sample_key_def idem_start_def)
  then have "?S\<^sup>*\<^sup>* (idem_start 5 0) (?w [?row] 0 [?q 0 Working] 1 5 [] [])"
    by - (erule step_to, rule idem_step.reserved [of "?q 0 Arrived"], (simp_all add: insert_key_def set_phase_def))
  then have "?S\<^sup>*\<^sup>* (idem_start 5 0) (?w [?row] 0 [?q 0 Working, ?q 1 Arrived] 2 5 [] [])"
    by - (erule step_to, rule idem_step.arrive [of sample_key _ _ _ "''h''"], (simp_all add: sample_key_def))
  then have "?S\<^sup>*\<^sup>* (idem_start 5 0) (?w [?row] 0 [?q 0 Working, ?q 1 Arrived] 2 6 [] [])"
    by - (erule step_to, rule idem_step.ticked [of _ _ _ 1], simp)
  then have "?S\<^sup>*\<^sup>* (idem_start 5 0) (?w [?row] 0 [?q 0 Working, ?q 1 Collided] 2 6 [] [])"
    by - (erule step_to, rule idem_step.collided [of "?q 1 Arrived"], (simp_all add: insert_key_def set_phase_def))
  then have "?S\<^sup>*\<^sup>* (idem_start 5 0) (?w [?done] 1 [?q 1 Collided] 2 6 [?c] [?a])"
    by - (erule step_to, rule idem_step.committed [of "?q 0 Working"], (simp_all add: sample_work_def capture_def drop_request_def))
  then have "?S\<^sup>*\<^sup>* (idem_start 5 0) (?w [?done] 1 [] 2 6 [?c] [?a, (sample_key, ''h'', Replayed 200 (Some ''done''))])"
    by - (erule step_to, rule idem_step.arbitrated [of "?q 1 Collided"], (simp_all add: arbitrate_def drop_request_def))
  then show ?thesis by (simp add: replayed_world_def)
qed

theorem idempotent_execution_witness:
  "length (key_commits sample_key replayed_world) \<le> 1 \<and>
   (\<exists>st' b'. key_commits sample_key replayed_world = [(sample_key, ''h'', st', b')] \<and> 200 = replay_status st' \<and>
     Some ''done'' = Some b')"
proof -
  have r: "(sample_key, ''h'', Replayed 200 (Some ''done'')) \<in> set (answers replayed_world)"
    "fst (snd sample_key) \<in> {''finance.journal.post''}" "clock replayed_world \<le> 5 + IDEMPOTENCY_RETENTION"
    by (simp_all add: replayed_world_def sample_key_def IDEMPOTENCY_RETENTION_def)
  show ?thesis using idempotent_execution [OF replayed_world_reachable r(2,3)] r(1) by blast
qed

end
