(* ===== verification/Jobs.thy ===== *)
theory Jobs
  imports Idempotency
begin

text \<open>
  Model of the background jobs (\<^verbatim>\<open>core/jobs.py\<close>) and of the stale-job sweeper
  (\<^verbatim>\<open>core/job_sweeper.py\<close>): the registry, the submit, the conditional claim, the runner under
  its semaphore, and the sweep. Runners, sweepers, crashes and the clock interleave as a step
  relation. The properties: a job's handler starts and commits at most once, the status tells
  whether it did, and every sweep takes a full budget off the backlog.
\<close>

subsection \<open>Data\<close>

datatype job_status = PENDING | RUNNING | JOB_COMPLETED | FAILED

record ('p, 'r) job =
  job_id :: uuid
  job_tenant_id :: uuid
  job_type :: string
  job_status :: job_status
  job_payload :: 'p
  job_result :: "'r option"
  job_error :: "string option"
  submitted_by_user_id :: "uuid option"
  attempts :: nat
  started_at :: "nat option"
  finished_at :: "nat option"
  updated_at :: nat

definition MAX_CONCURRENT_JOBS :: nat where "MAX_CONCURRENT_JOBS = 4"
definition ERROR_MAX_CHARS :: nat where "ERROR_MAX_CHARS = 2000"
definition PENDING_RECLAIM_AFTER :: nat where "PENDING_RECLAIM_AFTER = 10 * 60"
definition RUNNING_ABANDON_AFTER :: nat where "RUNNING_ABANDON_AFTER = 2 * 60 * 60"
definition SWEEP_BUDGET :: nat where "SWEEP_BUDGET = 50"

subsection \<open>Registry and submit\<close>

definition register_job :: "string \<Rightarrow> 'h \<Rightarrow> (string \<rightharpoonup> 'h) \<Rightarrow> (string \<rightharpoonup> 'h) result" where
  "register_job jt handler registry =
     (if registry jt \<noteq> None \<and> registry jt \<noteq> Some handler then Inl (PyError ''ValueError'')
      else Inr (registry(jt \<mapsto> handler)))"

definition submit_job ::
  "(string \<rightharpoonup> 'h) \<Rightarrow> nat \<Rightarrow> uuid \<Rightarrow> uuid \<Rightarrow> string \<Rightarrow> 'p \<Rightarrow> uuid option \<Rightarrow> ('p, 'r) job list \<Rightarrow> ('p, 'r) job list result" where
  "submit_job registry now i tenant_id jt payload submitted_by jobs =
     (if registry jt = None then Inl (ValidationFailedError ''jobs.unknown_job_type'')
      else if find_row job_id i jobs \<noteq> None then Inl (IntegrityError ''pk_core_jobs'')
      else Inr (jobs @ [\<lparr>job_id = i, job_tenant_id = tenant_id, job_type = jt, job_status = PENDING,
             job_payload = payload, job_result = None, job_error = None, submitted_by_user_id = submitted_by,
             attempts = 0, started_at = None, finished_at = None, updated_at = now\<rparr>]))"

subsection \<open>The runner's writes\<close>

text \<open>The claim returns its row count. Every UPDATE also stamps \<open>updated_at\<close> (\<open>TimestampMixin\<close>).\<close>

definition claim :: "nat \<Rightarrow> uuid \<Rightarrow> ('p, 'r) job list \<Rightarrow> nat \<times> ('p, 'r) job list" where
  "claim now i jobs =
     (length (filter (\<lambda>j. job_id j = i \<and> job_status j = PENDING) jobs),
      upd_rows (\<lambda>j. job_id j = i \<and> job_status j = PENDING)
        (\<lambda>j. j\<lparr>job_status := RUNNING, started_at := Some now, updated_at := now\<rparr>) jobs)"

definition finish :: "nat \<Rightarrow> uuid \<Rightarrow> 'r \<Rightarrow> ('p, 'r) job list \<Rightarrow> ('p, 'r) job list" where
  "finish now i res jobs =
     upd_rows (\<lambda>j. job_id j = i)
       (\<lambda>j. j\<lparr>job_status := JOB_COMPLETED, job_result := Some res, finished_at := Some now, updated_at := now\<rparr>) jobs"

text \<open>\<open>(str(exc) or type(exc).__name__)[:_ERROR_MAX_CHARS]\<close>\<close>

definition error_text :: "string \<Rightarrow> string \<Rightarrow> string" where
  "error_text msg cls = take ERROR_MAX_CHARS (if msg = '''' then cls else msg)"

definition fail_job :: "nat \<Rightarrow> uuid \<Rightarrow> string \<Rightarrow> string \<Rightarrow> ('p, 'r) job list \<Rightarrow> ('p, 'r) job list" where
  "fail_job now i msg cls jobs =
     upd_rows (\<lambda>j. job_id j = i)
       (\<lambda>j. j\<lparr>job_status := FAILED, job_error := Some (error_text msg cls), finished_at := Some now, updated_at := now\<rparr>) jobs"

subsection \<open>The sweeper\<close>

definition stale_grace :: "job_status \<Rightarrow> nat" where
  "stale_grace st = (if st = PENDING then PENDING_RECLAIM_AFTER else RUNNING_ABANDON_AFTER)"

definition is_stale :: "nat \<Rightarrow> ('p, 'r) job \<Rightarrow> bool" where
  "is_stale moment j \<longleftrightarrow>
     (job_status j = PENDING \<and> updated_at j + stale_grace PENDING < moment) \<or>
     (job_status j = RUNNING \<and> updated_at j + stale_grace RUNNING < moment)"

definition stale_scan :: "nat \<Rightarrow> ('p, 'r) job list \<Rightarrow> (uuid \<times> job_status) list" where
  "stale_scan moment jobs =
     map (\<lambda>j. (job_id j, job_status j)) (take SWEEP_BUDGET (sort_key updated_at (filter (is_stale moment) jobs)))"

definition abandon_text :: string where
  "abandon_text = ''Abandoned by the stale-job sweeper: the runner started this job and never '' @
     ''finished it. Part of its work may have been committed. Investigate and resubmit.''"

definition abandon :: "nat \<Rightarrow> nat \<Rightarrow> uuid list \<Rightarrow> ('p, 'r) job list \<Rightarrow> nat \<times> ('p, 'r) job list" where
  "abandon now moment ids jobs =
     (if ids = [] then (0, jobs)
      else (length (filter (\<lambda>j. job_id j \<in> set ids \<and> job_status j = RUNNING) jobs),
        upd_rows (\<lambda>j. job_id j \<in> set ids \<and> job_status j = RUNNING)
          (\<lambda>j. j\<lparr>job_status := FAILED, job_error := Some abandon_text, finished_at := Some moment, updated_at := now\<rparr>) jobs))"

definition reclaim_batch :: "nat \<Rightarrow> uuid list \<Rightarrow> ('p, 'r) job list \<Rightarrow> nat \<times> ('p, 'r) job list" where
  "reclaim_batch now ids jobs =
     (if ids = [] then (0, jobs)
      else (length (filter (\<lambda>j. job_id j \<in> set ids \<and> job_status j = PENDING) jobs),
        upd_rows (\<lambda>j. job_id j \<in> set ids \<and> job_status j = PENDING)
          (\<lambda>j. j\<lparr>attempts := attempts j + 1, updated_at := now\<rparr>) jobs))"

definition ids_with :: "job_status \<Rightarrow> (uuid \<times> job_status) list \<Rightarrow> uuid list" where
  "ids_with st scan = map fst (filter (\<lambda>p. snd p = st) scan)"

record sweep_result =
  reclaimed_pending :: nat
  abandoned :: nat
  purged_idempotency_keys :: nat

text \<open>The part of \<open>_reclaim\<close> after the scan, and \<open>_reclaim\<close> when nothing happens in between.\<close>

definition reclaim_jobs ::
  "nat \<Rightarrow> nat \<Rightarrow> (uuid \<times> job_status) list \<Rightarrow> ('p, 'r) job list \<Rightarrow> nat \<times> nat \<times> ('p, 'r) job list" where
  "reclaim_jobs now moment scan jobs =
     (case reclaim_batch now (ids_with PENDING scan) jobs of (n, jobs1) \<Rightarrow>
      case abandon now moment (ids_with RUNNING scan) jobs1 of (m, jobs2) \<Rightarrow> (n, m, jobs2))"

definition reclaim ::
  "nat \<Rightarrow> nat \<Rightarrow> ('p, 'r) job list \<Rightarrow> 'b idempotency_key list \<Rightarrow>
   sweep_result \<times> uuid list \<times> ('p, 'r) job list \<times> 'b idempotency_key list" where
  "reclaim now moment jobs keys =
     (let scan = stale_scan moment jobs in
      if scan = [] then
        (case purge_keys moment keys of (k, keys') \<Rightarrow>
          (\<lparr>reclaimed_pending = 0, abandoned = 0, purged_idempotency_keys = k\<rparr>, [], jobs, keys'))
      else
        (case reclaim_jobs now moment scan jobs of (n, m, jobs') \<Rightarrow>
         case purge_keys moment keys of (k, keys') \<Rightarrow>
          (\<lparr>reclaimed_pending = n, abandoned = m, purged_idempotency_keys = k\<rparr>, ids_with PENDING scan, jobs', keys')))"

subsection \<open>Runners, sweepers and crashes\<close>

text \<open>
  A task of a process waits for the semaphore, has loaded the row, or runs the handler after a won
  claim. A sweeper between its scan and its updates holds the scanned rows.
\<close>

datatype task_phase = Queued | Loaded | Handling

record job_task =
  t_no :: nat
  t_proc :: nat
  t_job :: uuid
  t_phase :: task_phase

record ('p, 'r, 'd) job_world =
  w_jobs :: "('p, 'r) job list"
  w_data :: 'd
  w_tasks :: "job_task list"
  w_scans :: "(nat \<times> nat \<times> (uuid \<times> job_status) list) list"
  w_next :: nat
  w_clock :: nat
  w_starts :: "uuid list"
  w_commits :: "(uuid \<times> 'r \<times> 'd) list"

definition set_task :: "nat \<Rightarrow> task_phase \<Rightarrow> job_task list \<Rightarrow> job_task list" where
  "set_task n ph ts = upd_rows (\<lambda>t. t_no t = n) (\<lambda>t. t\<lparr>t_phase := ph\<rparr>) ts"

definition drop_task :: "nat \<Rightarrow> job_task list \<Rightarrow> job_task list" where
  "drop_task n ts = filter (\<lambda>t. t_no t \<noteq> n) ts"

text \<open>The tasks inside the semaphore of a process' event loop.\<close>

definition in_semaphore :: "nat \<Rightarrow> job_task list \<Rightarrow> job_task list" where
  "in_semaphore p ts = filter (\<lambda>t. t_proc t = p \<and> t_phase t \<noteq> Queued) ts"

text \<open>\<open>schedule_job\<close> for one job on a process.\<close>

definition schedule_job :: "nat \<Rightarrow> uuid \<Rightarrow> ('p, 'r, 'd) job_world \<Rightarrow> ('p, 'r, 'd) job_world" where
  "schedule_job p i w =
     w\<lparr>w_next := Suc (w_next w), w_tasks := w_tasks w @ [\<lparr>t_no = w_next w, t_proc = p, t_job = i, t_phase = Queued\<rparr>]\<rparr>"

text \<open>
  A registered handler maps tenant, payload and data to a result and new data, or raises. The
  handler's writes and the terminal status commit in one transaction. \<open>handler_failed\<close> covers a
  raising handler, an unregistered job type and a failing commit alike.
\<close>

inductive job_step ::
  "(string \<rightharpoonup> (uuid \<Rightarrow> 'p \<Rightarrow> 'd \<Rightarrow> ('r \<times> 'd) option)) \<Rightarrow> ('p, 'r, 'd) job_world \<Rightarrow> ('p, 'r, 'd) job_world \<Rightarrow> bool"
  for registry where
  submitted: "submit_job registry (w_clock w) i tid jt payload by_user (w_jobs w) = Inr jobs \<Longrightarrow>
     job_step registry w (w\<lparr>w_jobs := jobs\<rparr>)"
| scheduled: "job_step registry w (schedule_job p i w)"
| entered: "t \<in> set (w_tasks w) \<Longrightarrow> t_phase t = Queued \<Longrightarrow>
     length (in_semaphore (t_proc t) (w_tasks w)) < MAX_CONCURRENT_JOBS \<Longrightarrow>
     job_step registry w (w\<lparr>w_tasks := (if find_row job_id (t_job t) (w_jobs w) = None then drop_task (t_no t) (w_tasks w)
       else set_task (t_no t) Loaded (w_tasks w))\<rparr>)"
| claim_won: "t \<in> set (w_tasks w) \<Longrightarrow> t_phase t = Loaded \<Longrightarrow> claim (w_clock w) (t_job t) (w_jobs w) = (1, jobs) \<Longrightarrow>
     job_step registry w (w\<lparr>w_jobs := jobs, w_tasks := set_task (t_no t) Handling (w_tasks w),
       w_starts := w_starts w @ [t_job t]\<rparr>)"
| claim_lost: "t \<in> set (w_tasks w) \<Longrightarrow> t_phase t = Loaded \<Longrightarrow> claim (w_clock w) (t_job t) (w_jobs w) = (n, jobs) \<Longrightarrow>
     n \<noteq> 1 \<Longrightarrow> job_step registry w (w\<lparr>w_jobs := jobs, w_tasks := drop_task (t_no t) (w_tasks w)\<rparr>)"
| completed: "t \<in> set (w_tasks w) \<Longrightarrow> t_phase t = Handling \<Longrightarrow> find_row job_id (t_job t) (w_jobs w) = Some j \<Longrightarrow>
     registry (job_type j) = Some f \<Longrightarrow> f (job_tenant_id j) (job_payload j) (w_data w) = Some (res, d) \<Longrightarrow>
     job_step registry w (w\<lparr>w_data := d, w_jobs := finish (w_clock w) (t_job t) res (w_jobs w),
       w_tasks := drop_task (t_no t) (w_tasks w), w_commits := w_commits w @ [(t_job t, res, d)]\<rparr>)"
| handler_failed: "t \<in> set (w_tasks w) \<Longrightarrow> t_phase t = Handling \<Longrightarrow>
     job_step registry w (w\<lparr>w_jobs := fail_job (w_clock w) (t_job t) msg cls (w_jobs w),
       w_tasks := drop_task (t_no t) (w_tasks w)\<rparr>)"
| scanned: "moment \<le> w_clock w \<Longrightarrow>
     job_step registry w (w\<lparr>w_scans := w_scans w @ [(p, moment, stale_scan moment (w_jobs w))]\<rparr>)"
| swept: "(p, moment, scan) \<in> set (w_scans w) \<Longrightarrow> reclaim_jobs (w_clock w) moment scan (w_jobs w) = (n, m, jobs) \<Longrightarrow>
     job_step registry w (fold (schedule_job p) (ids_with PENDING scan)
       (w\<lparr>w_jobs := jobs, w_scans := remove1 (p, moment, scan) (w_scans w)\<rparr>))"
| crashed: "job_step registry w (w\<lparr>w_tasks := filter (\<lambda>t. t_proc t \<noteq> p) (w_tasks w),
     w_scans := filter (\<lambda>s. fst s \<noteq> p) (w_scans w)\<rparr>)"
| ticked: "job_step registry w (w\<lparr>w_clock := w_clock w + n\<rparr>)"

subsection \<open>At most one execution\<close>

definition handling :: "uuid \<Rightarrow> ('p, 'r, 'd) job_world \<Rightarrow> job_task set" where
  "handling i w = {t \<in> set (w_tasks w). t_job t = i \<and> t_phase t = Handling}"

definition commits_of :: "uuid \<Rightarrow> ('p, 'r, 'd) job_world \<Rightarrow> 'r list" where
  "commits_of i w = map (fst \<circ> snd) (filter (\<lambda>c. fst c = i) (w_commits w))"

definition job_tables_ok :: "('p, 'r, 'd) job_world \<Rightarrow> bool" where
  "job_tables_ok w \<longleftrightarrow> distinct (map job_id (w_jobs w)) \<and> distinct (map t_no (w_tasks w)) \<and>
     (\<forall>t \<in> set (w_tasks w). t_no t < w_next w)"

text \<open>What the row of a job says about its execution.\<close>

definition job_state_ok :: "uuid \<Rightarrow> ('p, 'r, 'd) job_world \<Rightarrow> bool" where
  "job_state_ok i w \<longleftrightarrow>
     (case find_row job_id i (w_jobs w) of
        None \<Rightarrow> handling i w = {} \<and> count_list (w_starts w) i = 0 \<and> commits_of i w = []
      | Some j \<Rightarrow>
          count_list (w_starts w) i = (if job_status j = PENDING then 0 else 1) \<and>
          commits_of i w = (if job_status j = JOB_COMPLETED then [the (job_result j)] else []) \<and>
          (job_status j = JOB_COMPLETED \<longrightarrow> job_result j \<noteq> None) \<and>
          (\<exists>n. \<forall>t \<in> handling i w. t_no t = n \<and> (job_status j = RUNNING \<or> job_status j = FAILED)))"

text \<open>The committed handlers, one after the other on the initial data.\<close>

fun job_trace ::
  "(string \<rightharpoonup> (uuid \<Rightarrow> 'p \<Rightarrow> 'd \<Rightarrow> ('r \<times> 'd) option)) \<Rightarrow> ('p, 'r) job list \<Rightarrow> 'd \<Rightarrow> (uuid \<times> 'r \<times> 'd) list \<Rightarrow> 'd option" where
  "job_trace registry jobs d [] = Some d"
| "job_trace registry jobs d ((i, res, d') # cs) =
     (case find_row job_id i jobs of None \<Rightarrow> None
      | Some j \<Rightarrow>
          (case registry (job_type j) of None \<Rightarrow> None
           | Some f \<Rightarrow> if f (job_tenant_id j) (job_payload j) d = Some (res, d') then job_trace registry jobs d' cs else None))"

definition job_start :: "'d \<Rightarrow> ('p, 'r, 'd) job_world" where
  "job_start d = \<lparr>w_jobs = [], w_data = d, w_tasks = [], w_scans = [], w_next = 0, w_clock = 0, w_starts = [], w_commits = []\<rparr>"

inductive_cases job_stepE: "job_step registry w w'"

lemma mem_set_task:
  assumes "distinct (map t_no ts)" "t \<in> set ts"
  shows "set (set_task (t_no t) ph ts) = {q \<in> set ts. t_no q \<noteq> t_no t} \<union> {t\<lparr>t_phase := ph\<rparr>}"
  unfolding set_task_def by (rule set_upd_rows_unique [OF assms])

lemma t_nos_set_task [simp]: "map t_no (set_task n ph ts) = map t_no ts"
  by (simp add: set_task_def upd_rows_def)

lemma t_nos_set_task_set [simp]: "(\<forall>t \<in> set (set_task m ph ts). t_no t < n) \<longleftrightarrow> (\<forall>t \<in> set ts. t_no t < n)"
  unfolding set_task_def by (rule ball_upd_rows_key) simp

lemma mem_drop_task [simp]: "q \<in> set (drop_task n ts) \<longleftrightarrow> q \<in> set ts \<and> t_no q \<noteq> n"
  by (auto simp: drop_task_def)

lemma distinct_drop_task [simp]: "distinct (map t_no ts) \<Longrightarrow> distinct (map t_no (drop_task n ts))"
  by (simp add: drop_task_def distinct_map_filter)

lemma fold_schedule_job [simp]:
  "w_jobs (fold (schedule_job p) ids w) = w_jobs w" "w_data (fold (schedule_job p) ids w) = w_data w"
  "w_starts (fold (schedule_job p) ids w) = w_starts w" "w_commits (fold (schedule_job p) ids w) = w_commits w"
  "w_clock (fold (schedule_job p) ids w) = w_clock w" "w_scans (fold (schedule_job p) ids w) = w_scans w"
  by (induction ids arbitrary: w) (simp_all add: schedule_job_def)

lemma handling_fold_schedule [simp]: "handling i (fold (schedule_job p) ids w) = handling i w"
proof (induction ids arbitrary: w)
  case (Cons k ids)
  have "handling i (schedule_job p k w) = handling i w" by (auto simp: handling_def schedule_job_def)
  with Cons show ?case by simp
qed simp

lemma tables_fold_schedule: "job_tables_ok w \<Longrightarrow> job_tables_ok (fold (schedule_job p) ids w)"
proof (induction ids arbitrary: w)
  case (Cons k ids)
  have "job_tables_ok (schedule_job p k w)" using Cons.prems
    by (auto simp: job_tables_ok_def schedule_job_def)
  with Cons.IH show ?case by simp
qed simp

text \<open>No update changes the identity of a job or what it asks for.\<close>

definition same_request :: "('p, 'r) job \<Rightarrow> ('p, 'r) job \<Rightarrow> bool" where
  "same_request j j' \<longleftrightarrow> job_id j' = job_id j \<and> job_tenant_id j' = job_tenant_id j \<and> job_type j' = job_type j \<and>
     job_payload j' = job_payload j"

lemma job_writes_find:
  "find_row job_id i (snd (claim now k jobs)) = map_option (\<lambda>j. if job_id j = k \<and> job_status j = PENDING
     then j\<lparr>job_status := RUNNING, started_at := Some now, updated_at := now\<rparr> else j) (find_row job_id i jobs)"
  "find_row job_id i (finish now k res jobs) = map_option (\<lambda>j. if job_id j = k
     then j\<lparr>job_status := JOB_COMPLETED, job_result := Some res, finished_at := Some now, updated_at := now\<rparr> else j)
     (find_row job_id i jobs)"
  "find_row job_id i (fail_job now k msg cls jobs) = map_option (\<lambda>j. if job_id j = k
     then j\<lparr>job_status := FAILED, job_error := Some (error_text msg cls), finished_at := Some now, updated_at := now\<rparr> else j)
     (find_row job_id i jobs)"
  by (simp_all add: claim_def finish_def fail_job_def find_row_upd_rows)

lemma reclaim_jobs_find:
  assumes "reclaim_jobs now moment scan jobs = (n, m, jobs')"
  shows "find_row job_id i jobs' = map_option (\<lambda>j.
      if i \<in> set (ids_with PENDING scan) \<and> job_status j = PENDING then j\<lparr>attempts := attempts j + 1, updated_at := now\<rparr>
      else if i \<in> set (ids_with RUNNING scan) \<and> job_status j = RUNNING
      then j\<lparr>job_status := FAILED, job_error := Some abandon_text, finished_at := Some moment, updated_at := now\<rparr>
      else j) (find_row job_id i jobs)"
    and "map job_id jobs' = map job_id jobs"
proof -
  show "find_row job_id i jobs' = map_option (\<lambda>j.
      if i \<in> set (ids_with PENDING scan) \<and> job_status j = PENDING then j\<lparr>attempts := attempts j + 1, updated_at := now\<rparr>
      else if i \<in> set (ids_with RUNNING scan) \<and> job_status j = RUNNING
      then j\<lparr>job_status := FAILED, job_error := Some abandon_text, finished_at := Some moment, updated_at := now\<rparr>
      else j) (find_row job_id i jobs)"
    using assms
    by (cases "find_row job_id i jobs")
      (auto simp: reclaim_jobs_def reclaim_batch_def abandon_def find_row_upd_rows split: if_splits dest: find_row_Some_iff)
  show "map job_id jobs' = map job_id jobs"
    using assms by (auto simp: reclaim_jobs_def reclaim_batch_def abandon_def map_upd_rows split: if_splits)
qed

lemma job_tables_ok_step:
  assumes "job_step registry w w'" "job_tables_ok w"
  shows "job_tables_ok w'"
  using assms(1)
proof cases
  case (submitted i tid jt payload by_user jobs)
  then show ?thesis using assms(2)
    by (auto simp: job_tables_ok_def submit_job_def find_row_None_image split: if_splits)
next
  case (scheduled p i)
  then show ?thesis using tables_fold_schedule [OF assms(2), of p "[i]"] by simp
next
  case (swept p moment scan n m jobs)
  have "job_tables_ok (w\<lparr>w_jobs := jobs, w_scans := remove1 (p, moment, scan) (w_scans w)\<rparr>)"
    using assms(2) reclaim_jobs_find(2) [OF swept(3)] by (simp add: job_tables_ok_def)
  then show ?thesis unfolding swept(1) by (rule tables_fold_schedule)
qed (use assms(2) in \<open>auto simp: job_tables_ok_def claim_def finish_def fail_job_def map_upd_rows distinct_map_filter\<close>)

lemma handling_set_task:
  assumes "distinct (map t_no (w_tasks w))" "t \<in> set (w_tasks w)" "t_phase t \<noteq> Handling"
    "w_tasks w' = set_task (t_no t) ph (w_tasks w)"
  shows "handling i w' = handling i w \<union> (if t_job t = i \<and> ph = Handling then {t\<lparr>t_phase := ph\<rparr>} else {})"
proof -
  have "q = t" if "q \<in> set (w_tasks w)" "t_no q = t_no t" for q
    using that assms(1,2) by (auto simp: distinct_map dest: inj_onD)
  then show ?thesis using assms(3) unfolding handling_def assms(4) mem_set_task [OF assms(1,2)] by auto
qed

lemma handling_drop:
  "w_tasks w' = drop_task n (w_tasks w) \<Longrightarrow> handling i w' = {t \<in> handling i w. t_no t \<noteq> n}"
  by (auto simp: handling_def)

lemma other_handling:
  assumes "distinct (map t_no (w_tasks w))" "t \<in> set (w_tasks w)" "t_job t \<noteq> i"
  shows "{q \<in> handling i w. t_no q \<noteq> t_no t} = handling i w"
proof -
  have "q = t" if "q \<in> set (w_tasks w)" "t_no q = t_no t" for q
    using that assms(1,2) by (auto simp: distinct_map dest: inj_onD)
  then show ?thesis using assms(3) by (auto simp: handling_def)
qed

text \<open>A step that keeps the row's status and result, and starts nothing, keeps the state.\<close>

lemma job_state_ok_keep:
  fixes w w' :: "('p, 'r, 'd) job_world"
  assumes "job_state_ok i w"
    "rel_option (\<lambda>j j'. job_status j' = job_status j \<and> job_result j' = job_result j)
       (find_row job_id i (w_jobs w)) (find_row job_id i (w_jobs w'))"
    "handling i w' \<subseteq> handling i w" "count_list (w_starts w') i = count_list (w_starts w) i"
    "commits_of i w' = commits_of i w"
  shows "job_state_ok i w'"
proof (cases "find_row job_id i (w_jobs w)")
  case None
  then have "find_row job_id i (w_jobs w') = None" using assms(2) by simp
  with None show ?thesis using assms by (auto simp: job_state_ok_def)
next
  case (Some j)
  then obtain j' where j': "find_row job_id i (w_jobs w') = Some j'" "job_status j' = job_status j" "job_result j' = job_result j"
    using assms(2) by (auto simp: option_rel_Some1)
  show ?thesis using assms(1,3,4,5) Some j' unfolding job_state_ok_def by (auto simp: subset_iff)
qed

lemma rel_option_find [simp]: "(\<And>j. R j j) \<Longrightarrow> rel_option R x x"
  by (cases x) auto

lemma handler_owns_row:
  assumes "job_state_ok i w" "t \<in> handling i w"
  obtains j where "find_row job_id i (w_jobs w) = Some j" "job_status j = RUNNING \<or> job_status j = FAILED"
    "count_list (w_starts w) i = 1" "commits_of i w = []" "\<forall>q \<in> handling i w. t_no q = t_no t"
proof (cases "find_row job_id i (w_jobs w)")
  case None
  then show thesis using assms by (simp add: job_state_ok_def)
next
  case (Some j)
  obtain n where n: "\<forall>t \<in> handling i w. t_no t = n \<and> (job_status j = RUNNING \<or> job_status j = FAILED)"
    using assms(1) Some by (auto simp: job_state_ok_def)
  then have st: "job_status j = RUNNING \<or> job_status j = FAILED" using assms(2) by blast
  moreover have "count_list (w_starts w) i = 1" "commits_of i w = []"
    using assms(1) Some st by (auto simp: job_state_ok_def split: if_splits)
  moreover have "\<forall>q \<in> handling i w. t_no q = t_no t" using n assms(2) by simp
  ultimately show thesis using that [OF Some] by blast
qed

lemma claim_won_state:
  fixes w w' :: "('p, 'r, 'd) job_world"
  assumes "distinct (map t_no (w_tasks w))" "job_state_ok i w" "t \<in> set (w_tasks w)" "t_phase t = Loaded"
    "claim now (t_job t) (w_jobs w) = (1, w_jobs w')" "w_tasks w' = set_task (t_no t) Handling (w_tasks w)"
    "w_starts w' = w_starts w @ [t_job t]" "w_commits w' = w_commits w"
    and uniq: "distinct (map job_id (w_jobs w))"
  shows "job_state_ok i w'"
proof -
  have jobs: "w_jobs w' = snd (claim now (t_job t) (w_jobs w))" using assms(5) by simp
  have h: "handling i w' = handling i w \<union> (if t_job t = i then {t\<lparr>t_phase := Handling\<rparr>} else {})"
    using handling_set_task [OF assms(1,3) _ assms(6)] assms(4) by simp
  have cm: "commits_of i w' = commits_of i w" using assms(8) by (simp add: commits_of_def)
  show ?thesis
  proof (cases "t_job t = i")
    case True
    have "length (filter (\<lambda>j. job_id j = i \<and> job_status j = PENDING) (w_jobs w)) = 1"
      using assms(5) True by (simp add: claim_def)
    then obtain j where "j \<in> set (w_jobs w)" "job_id j = i" "job_status j = PENDING"
      by (metis (mono_tags, lifting) filter_empty_conv length_0_conv zero_neq_one)
    then have j: "find_row job_id i (w_jobs w) = Some j" "job_status j = PENDING"
      using find_row_distinct [OF uniq] by auto
    then have "handling i w = {}" using assms(2) by (auto simp: job_state_ok_def)
    moreover have "count_list (w_starts w) i = 0" "commits_of i w = []"
      using assms(2) j by (simp_all add: job_state_ok_def)
    moreover have "job_id j = i" using j(1) by (rule find_row_Some_iff [THEN conjunct2])
    ultimately show ?thesis
      using True assms(7) h cm j by (simp add: job_state_ok_def jobs job_writes_find(1))
  next
    case False
    have "find_row job_id i (w_jobs w') = find_row job_id i (w_jobs w)"
      unfolding jobs job_writes_find(1) using False
      by (cases "find_row job_id i (w_jobs w)") (auto dest: find_row_Some_iff)
    then show ?thesis using False h cm assms(7)
      by - (rule job_state_ok_keep [OF assms(2)]; simp)
  qed
qed

text \<open>The two ends of a handler: the row takes the terminal status, whatever a sweeper wrote meanwhile.\<close>

lemma handler_end_state:
  fixes w w' :: "('p, 'r, 'd) job_world"
  assumes "distinct (map t_no (w_tasks w))" "job_state_ok i w" "t \<in> set (w_tasks w)" "t_phase t = Handling"
    "w_tasks w' = drop_task (t_no t) (w_tasks w)" "w_starts w' = w_starts w"
    and row: "\<And>k. find_row job_id k (w_jobs w') = map_option (\<lambda>j. if job_id j = t_job t then g j else j) (find_row job_id k (w_jobs w))"
    and g: "\<And>j. job_status j \<noteq> JOB_COMPLETED \<Longrightarrow> (job_status (g j) = JOB_COMPLETED \<and> job_result (g j) = Some res \<and>
          w_commits w' = w_commits w @ [(t_job t, res, d)] \<or> job_status (g j) = FAILED \<and> w_commits w' = w_commits w)"
      "w_commits w' = w_commits w @ [(t_job t, res, d)] \<or> w_commits w' = w_commits w"
  shows "job_state_ok i w'"
proof (cases "t_job t = i")
  case True
  then have "t \<in> handling i w" using assms(3,4) by (simp add: handling_def)
  from handler_owns_row [OF assms(2) this] obtain j where
    j: "find_row job_id i (w_jobs w) = Some j" "job_status j = RUNNING \<or> job_status j = FAILED"
      "count_list (w_starts w) i = 1" "commits_of i w = []" "\<forall>q \<in> handling i w. t_no q = t_no t" by metis
  have "job_id j = i" using j(1) by (rule find_row_Some_iff [THEN conjunct2])
  then have row': "find_row job_id i (w_jobs w') = Some (g j)" using row [of i] j(1) True by simp
  have h: "handling i w' = {}" using handling_drop [OF assms(5), of i] j(5) by auto
  have "job_status j \<noteq> JOB_COMPLETED" using j(2) by auto
  from g(1) [OF this] j(4) True have
    "job_status (g j) = JOB_COMPLETED \<and> job_result (g j) = Some res \<and> commits_of i w' = [res] \<or>
     job_status (g j) = FAILED \<and> commits_of i w' = []"
    by (auto simp: commits_of_def)
  then show ?thesis unfolding job_state_ok_def row' using h j(3) assms(6) by auto
next
  case False
  have "handling i w' = handling i w"
    using handling_drop [OF assms(5), of i] other_handling [OF assms(1,3) False] by simp
  moreover have "find_row job_id i (w_jobs w') = find_row job_id i (w_jobs w)"
    unfolding row using False by (cases "find_row job_id i (w_jobs w)") (auto dest: find_row_Some_iff)
  moreover have "commits_of i w' = commits_of i w" using g(2) False by (auto simp: commits_of_def)
  ultimately show ?thesis using assms(6) by - (rule job_state_ok_keep [OF assms(2)]; simp)
qed

lemma swept_state:
  fixes w w' :: "('p, 'r, 'd) job_world"
  assumes ok: "job_state_ok i w" and recl: "reclaim_jobs now moment scan (w_jobs w) = (n, m, w_jobs w')"
    and "handling i w' = handling i w" "w_starts w' = w_starts w" "w_commits w' = w_commits w"
  shows "job_state_ok i w'"
proof (cases "find_row job_id i (w_jobs w)")
  case None
  then have "find_row job_id i (w_jobs w') = None" using reclaim_jobs_find(1) [OF recl, of i] by simp
  then show ?thesis using ok None assms(3-5) by (simp add: job_state_ok_def commits_of_def)
next
  case (Some j)
  define g where "g = (\<lambda>j :: ('p, 'r) job. if i \<in> set (ids_with PENDING scan) \<and> job_status j = PENDING
      then j\<lparr>attempts := attempts j + 1, updated_at := now\<rparr>
      else if i \<in> set (ids_with RUNNING scan) \<and> job_status j = RUNNING
      then j\<lparr>job_status := FAILED, job_error := Some abandon_text, finished_at := Some moment, updated_at := now\<rparr>
      else j)"
  have row: "find_row job_id i (w_jobs w') = Some (g j)"
    using reclaim_jobs_find(1) [OF recl, of i] Some by (simp add: g_def)
  have "job_result (g j) = job_result j" "job_status (g j) = job_status j \<or> job_status j = RUNNING \<and> job_status (g j) = FAILED"
    by (simp_all add: g_def)
  then show ?thesis using ok Some assms(3-5) unfolding job_state_ok_def row commits_of_def by auto
qed

lemma claim_none:
  assumes "distinct (map job_id jobs)" "j \<in> set jobs" "job_id j = i" "job_status j = PENDING"
  shows "length (filter (\<lambda>j. job_id j = i \<and> job_status j = PENDING) jobs) = 1"
proof -
  have "set (filter (\<lambda>j. job_id j = i \<and> job_status j = PENDING) jobs) = {j}"
    using assms by (auto simp: distinct_map dest: inj_onD)
  moreover have "distinct (filter (\<lambda>j. job_id j = i \<and> job_status j = PENDING) jobs)"
    using assms(1) by (simp add: distinct_map)
  ultimately show ?thesis by (metis distinct_card is_singletonI is_singleton_altdef)
qed

lemma job_state_ok_step:
  assumes step: "job_step registry w w'" and ok: "job_tables_ok w" "job_state_ok i w"
  shows "job_state_ok i w'"
proof -
  have d: "distinct (map t_no (w_tasks w))" "distinct (map job_id (w_jobs w))"
    using ok(1) by (simp_all add: job_tables_ok_def)
  from step show ?thesis
  proof cases
    case (submitted k tid jt payload by_user jobs)
    then have "jobs = w_jobs w @ [\<lparr>job_id = k, job_tenant_id = tid, job_type = jt, job_status = PENDING,
             job_payload = payload, job_result = None, job_error = None, submitted_by_user_id = by_user,
             attempts = 0, started_at = None, finished_at = None, updated_at = w_clock w\<rparr>]"
      by (simp add: submit_job_def split: if_splits)
    then show ?thesis using submitted(1) ok(2)
      by (auto simp: job_state_ok_def find_row_append handling_def commits_of_def split: option.splits)
  next
    case (scheduled p k)
    then show ?thesis using handling_fold_schedule [of i p "[k]" w]
      by - (rule job_state_ok_keep [OF ok(2)]; simp add: schedule_job_def commits_of_def)
  next
    case (entered t)
    have "handling i w' \<subseteq> handling i w"
      using entered handling_set_task [OF d(1) entered(2), of w' Loaded i] handling_drop [of w' "t_no t" w i]
      by (auto split: if_splits)
    then show ?thesis using entered(1) by - (rule job_state_ok_keep [OF ok(2)]; simp add: commits_of_def)
  next
    case (claim_won t jobs)
    then show ?thesis by (intro claim_won_state [OF d(1) ok(2) claim_won(2,3) _ _ _ _ d(2)]) simp_all
  next
    case (claim_lost t n jobs)
    have jobs: "jobs = snd (claim (w_clock w) (t_job t) (w_jobs w))" using claim_lost by simp
    have "length (filter (\<lambda>j. job_id j = t_job t \<and> job_status j = PENDING) (w_jobs w)) \<noteq> 1"
      using claim_lost by (simp add: claim_def)
    then have "\<forall>j \<in> set (w_jobs w). \<not> (job_id j = t_job t \<and> job_status j = PENDING)"
      using claim_none [OF d(2)] by blast
    then have "jobs = w_jobs w" unfolding jobs claim_def by (simp add: upd_rows_none)
    then show ?thesis using claim_lost handling_drop [of w' "t_no t" w i]
      by - (rule job_state_ok_keep [OF ok(2)]; auto simp: commits_of_def)
  next
    case (completed t j f res d')
    show ?thesis
      by (rule handler_end_state [OF d(1) ok(2) completed(2,3), where res = res and d = d' and
            g = "\<lambda>j. j\<lparr>job_status := JOB_COMPLETED, job_result := Some res, finished_at := Some (w_clock w),
              updated_at := w_clock w\<rparr>"])
        (simp_all add: completed(1) job_writes_find(2))
  next
    case (handler_failed t msg cls)
    show ?thesis
      by (rule handler_end_state [OF d(1) ok(2) handler_failed(2,3), where
            g = "\<lambda>j. j\<lparr>job_status := FAILED, job_error := Some (error_text msg cls), finished_at := Some (w_clock w),
              updated_at := w_clock w\<rparr>"])
        (simp_all add: handler_failed(1) job_writes_find(3))
  next
    case (swept p moment scan n m jobs)
    then show ?thesis by (intro swept_state [OF ok(2), of _ moment scan n m]) (simp_all, simp add: handling_def)
  next
    case (crashed p)
    then show ?thesis by - (rule job_state_ok_keep [OF ok(2)]; auto simp: handling_def commits_of_def)
  qed (rule job_state_ok_keep [OF ok(2)]; simp add: handling_def commits_of_def)+
qed

subsection \<open>The data is that of the committed handlers in sequence\<close>

lemma job_trace_mono:
  assumes "job_trace registry jobs d cs = Some x"
    and "\<And>i j. find_row job_id i jobs = Some j \<Longrightarrow> \<exists>j'. find_row job_id i jobs' = Some j' \<and> same_request j j'"
  shows "job_trace registry jobs' d cs = Some x"
  using assms(1)
proof (induction cs arbitrary: d)
  case (Cons c cs)
  obtain i res d' where c: "c = (i, res, d')" by (cases c)
  obtain j where j: "find_row job_id i jobs = Some j" using Cons.prems c by (auto split: option.splits)
  with assms(2) obtain j' where "find_row job_id i jobs' = Some j'" "same_request j j'" by blast
  with j c Cons show ?case by (auto simp: same_request_def split: option.splits if_splits)
qed simp

lemma job_trace_append:
  "job_trace registry jobs d (cs @ cs') = Option.bind (job_trace registry jobs d cs) (\<lambda>x. job_trace registry jobs x cs')"
  by (induction registry jobs d cs rule: job_trace.induct) (auto split: option.splits)

lemma job_step_same_request:
  assumes "job_step registry w w'" "find_row job_id i (w_jobs w) = Some j"
  shows "\<exists>j'. find_row job_id i (w_jobs w') = Some j' \<and> same_request j j'"
  using assms(1)
proof cases
  case (submitted k tid jt payload by_user jobs)
  then show ?thesis using assms(2)
    by (auto simp: submit_job_def find_row_append same_request_def split: if_splits)
next
  case (claim_won t jobs)
  then have "jobs = snd (claim (w_clock w) (t_job t) (w_jobs w))" by simp
  then show ?thesis using assms(2) claim_won(1) by (simp add: job_writes_find same_request_def)
next
  case (claim_lost t n jobs)
  then have "jobs = snd (claim (w_clock w) (t_job t) (w_jobs w))" by simp
  then show ?thesis using assms(2) claim_lost(1) by (simp add: job_writes_find same_request_def)
next
  case (swept p moment scan n m jobs)
  then show ?thesis using assms(2) reclaim_jobs_find(1) [OF swept(3), of i] by (simp add: same_request_def)
qed (use assms(2) in \<open>simp_all add: job_writes_find same_request_def schedule_job_def\<close>)

lemma job_trace_step:
  assumes step: "job_step registry w w'" and tr: "job_trace registry (w_jobs w) d0 (w_commits w) = Some (w_data w)"
  shows "job_trace registry (w_jobs w') d0 (w_commits w') = Some (w_data w')"
proof -
  have old: "job_trace registry (w_jobs w') d0 (w_commits w) = Some (w_data w)"
    using tr by (rule job_trace_mono) (rule job_step_same_request [OF step])
  from step show ?thesis
  proof cases
    case (completed t j f res d)
    obtain j' where "find_row job_id (t_job t) (w_jobs w') = Some j'" "same_request j j'"
      using job_step_same_request [OF step completed(4)] by blast
    then have "job_trace registry (w_jobs w') (w_data w) [(t_job t, res, d)] = Some d"
      using completed by (simp add: same_request_def)
    moreover have "w_commits w' = w_commits w @ [(t_job t, res, d)]" "w_data w' = d" using completed(1) by simp_all
    ultimately show ?thesis using old by (simp add: job_trace_append)
  qed (use old in \<open>simp_all add: schedule_job_def\<close>)
qed

subsection \<open>The concurrency cap\<close>

lemma in_semaphore_set_task:
  assumes "distinct (map t_no ts)" "t \<in> set ts"
  shows "length (in_semaphore p (set_task (t_no t) ph ts)) \<le>
    length (in_semaphore p ts) + (if t_proc t = p \<and> t_phase t = Queued then 1 else 0)"
proof -
  obtain xs ys where ts: "ts = xs @ t # ys" using split_list [OF assms(2)] by blast
  have "t_no t \<notin> t_no ` set xs" "t_no t \<notin> t_no ` set ys" using assms(1) ts by simp_all
  then have "\<forall>q \<in> set xs. t_no q \<noteq> t_no t" "\<forall>q \<in> set ys. t_no q \<noteq> t_no t" by (metis imageI)+
  then have "set_task (t_no t) ph ts = xs @ t\<lparr>t_phase := ph\<rparr> # ys"
    unfolding set_task_def ts by (simp add: upd_rows_none)
  then show ?thesis unfolding ts by (simp add: in_semaphore_def)
qed

lemma in_semaphore_filter: "length (in_semaphore p (filter P ts)) \<le> length (in_semaphore p ts)"
  by (induction ts) (auto simp: in_semaphore_def)

lemma in_semaphore_fold_schedule [simp]:
  "in_semaphore q (w_tasks (fold (schedule_job p) ids w)) = in_semaphore q (w_tasks w)"
  by (induction ids arbitrary: w) (simp_all add: schedule_job_def in_semaphore_def)

lemma in_semaphore_step:
  assumes "job_step registry w w'" "job_tables_ok w" "\<forall>p. length (in_semaphore p (w_tasks w)) \<le> MAX_CONCURRENT_JOBS"
  shows "length (in_semaphore p (w_tasks w')) \<le> MAX_CONCURRENT_JOBS"
proof -
  have d: "distinct (map t_no (w_tasks w))" using assms(2) by (simp add: job_tables_ok_def)
  have drop: "length (in_semaphore p (drop_task n (w_tasks w))) \<le> MAX_CONCURRENT_JOBS" for n
    using in_semaphore_filter assms(3) unfolding drop_task_def by (meson le_trans)
  from assms(1) show ?thesis
  proof cases
    case (scheduled q i)
    then show ?thesis using in_semaphore_fold_schedule [of p q "[i]" w] assms(3) by simp
  next
    case (entered t)
    then show ?thesis
      using in_semaphore_set_task [OF d entered(2), of p Loaded] assms(3) [rule_format, of p] drop by (auto split: if_splits)
  next
    case (claim_won t jobs)
    then show ?thesis
      using in_semaphore_set_task [OF d claim_won(2), of p Handling] assms(3) [rule_format, of p] by simp
  next
    case (crashed q)
    then show ?thesis using in_semaphore_filter assms(3) by simp (meson le_trans)
  qed (use drop assms(3) in simp_all)
qed

lemma job_reach_ok:
  assumes "(job_step registry)\<^sup>*\<^sup>* (job_start d0) w"
  shows "job_tables_ok w \<and> (\<forall>i. job_state_ok i w) \<and> job_trace registry (w_jobs w) d0 (w_commits w) = Some (w_data w) \<and>
    (\<forall>p. length (in_semaphore p (w_tasks w)) \<le> MAX_CONCURRENT_JOBS)"
  using assms
proof (induction rule: rtranclp_induct)
  case base
  show ?case
    by (simp add: job_start_def job_tables_ok_def job_state_ok_def handling_def commits_of_def in_semaphore_def)
next
  case (step v w)
  then show ?case
    by (meson job_tables_ok_step job_state_ok_step job_trace_step in_semaphore_step)
qed

lemma at_most_once_by_state:
  assumes "job_state_ok i w"
  shows "count_list (w_starts w) i \<le> 1"
    "map (fst \<circ> snd) (filter (\<lambda>c. fst c = i) (w_commits w)) =
      (case find_row job_id i (w_jobs w) of None \<Rightarrow> []
       | Some j \<Rightarrow> if job_status j = JOB_COMPLETED then [the (job_result j)] else [])"
  using assms by (auto simp: job_state_ok_def commits_of_def split: option.splits)


subsection \<open>The backlog drains\<close>

text \<open>The rows one sweep handles: the budget's worth of the stalest.\<close>

definition swept_rows :: "nat \<Rightarrow> ('p, 'r) job list \<Rightarrow> ('p, 'r) job list" where
  "swept_rows moment jobs = take SWEEP_BUDGET (sort_key updated_at (filter (is_stale moment) jobs))"

definition handled :: "nat \<Rightarrow> nat \<Rightarrow> ('p, 'r) job \<Rightarrow> ('p, 'r) job" where
  "handled now moment j =
     (if job_status j = PENDING then j\<lparr>attempts := attempts j + 1, updated_at := now\<rparr>
      else j\<lparr>job_status := FAILED, job_error := Some abandon_text, finished_at := Some moment, updated_at := now\<rparr>)"

lemma swept_rows_stale: "j \<in> set (swept_rows moment jobs) \<Longrightarrow> j \<in> set jobs \<and> is_stale moment j"
  unfolding swept_rows_def by (auto dest: in_set_takeD)

lemma set_ids_with: "set (ids_with st (stale_scan moment jobs)) = job_id ` {j \<in> set (swept_rows moment jobs). job_status j = st}"
proof -
  have "set (ids_with st (map (\<lambda>j. (job_id j, job_status j)) js)) = job_id ` {j \<in> set js. job_status j = st}"
    for js :: "('a, 'b) job list"
    by (induction js) (auto simp: ids_with_def)
  then show ?thesis unfolding stale_scan_def swept_rows_def [symmetric] .
qed

lemma snd_reclaim_batch:
  "snd (reclaim_batch now ids jobs) = upd_rows (\<lambda>j. job_id j \<in> set ids \<and> job_status j = PENDING)
     (\<lambda>j. j\<lparr>attempts := attempts j + 1, updated_at := now\<rparr>) jobs"
  by (simp add: reclaim_batch_def upd_rows_none)

lemma snd_abandon:
  "snd (abandon now moment ids jobs) = upd_rows (\<lambda>j. job_id j \<in> set ids \<and> job_status j = RUNNING)
     (\<lambda>j. j\<lparr>job_status := FAILED, job_error := Some abandon_text, finished_at := Some moment, updated_at := now\<rparr>) jobs"
  by (simp add: abandon_def upd_rows_none)

lemma reclaim_jobs_snd:
  assumes "reclaim now moment jobs keys = (res, ids, jobs', keys')"
  shows "ids = ids_with PENDING (stale_scan moment jobs)"
    and "jobs' = snd (abandon now moment (ids_with RUNNING (stale_scan moment jobs))
      (snd (reclaim_batch now (ids_with PENDING (stale_scan moment jobs)) jobs)))"
proof -
  have "ids = ids_with PENDING (stale_scan moment jobs) \<and>
    jobs' = snd (abandon now moment (ids_with RUNNING (stale_scan moment jobs))
      (snd (reclaim_batch now (ids_with PENDING (stale_scan moment jobs)) jobs)))"
  proof (cases "stale_scan moment jobs = []")
    case True
    then show ?thesis using assms
      by (simp add: reclaim_def ids_with_def abandon_def reclaim_batch_def split: prod.splits)
  next
    case False
    then show ?thesis using assms by (auto simp: reclaim_def reclaim_jobs_def Let_def split: prod.splits)
  qed
  then show "ids = ids_with PENDING (stale_scan moment jobs)"
    "jobs' = snd (abandon now moment (ids_with RUNNING (stale_scan moment jobs))
      (snd (reclaim_batch now (ids_with PENDING (stale_scan moment jobs)) jobs)))" by simp_all
qed

lemma ids_with_scan:
  assumes "distinct (map job_id jobs)" "j \<in> set jobs"
  shows "job_id j \<in> set (ids_with st (stale_scan moment jobs)) \<longleftrightarrow> job_status j = st \<and> j \<in> set (swept_rows moment jobs)"
    (is "?l = ?r")
proof
  assume ?l
  then obtain j' where j': "j' \<in> set (swept_rows moment jobs)" "job_status j' = st" "job_id j' = job_id j"
    unfolding set_ids_with by force
  have "j' = j"
    using j'(3) assms(2) swept_rows_stale [OF j'(1)] inj_onD [of job_id "set jobs" j' j] assms(1)
    by (simp add: distinct_map)
  with j' show ?r by simp
next
  assume ?r
  then show ?l unfolding set_ids_with by simp
qed

lemma reclaim_rows:
  assumes "distinct (map job_id jobs)" "reclaim now moment jobs keys = (res, ids, jobs', keys')"
  shows "jobs' = map (\<lambda>j. if j \<in> set (swept_rows moment jobs) then handled now moment j else j) jobs"
    and "set ids = job_id ` {j \<in> set (swept_rows moment jobs). job_status j = PENDING}"
proof -
  let ?P = "\<lambda>st j. job_id j \<in> set (ids_with st (stale_scan moment jobs)) \<and> job_status j = st"
  show "set ids = job_id ` {j \<in> set (swept_rows moment jobs). job_status j = PENDING}"
    unfolding reclaim_jobs_snd(1) [OF assms(2)] by (rule set_ids_with)
  show "jobs' = map (\<lambda>j. if j \<in> set (swept_rows moment jobs) then handled now moment j else j) jobs"
    unfolding reclaim_jobs_snd(2) [OF assms(2)] snd_abandon snd_reclaim_batch upd_rows_def list.map_comp
  proof (rule map_cong [OF refl])
    fix j assume j: "j \<in> set jobs"
    have "j \<in> set (swept_rows moment jobs) \<Longrightarrow> job_status j = PENDING \<or> job_status j = RUNNING"
      by (drule swept_rows_stale) (auto simp: is_stale_def)
    then show "((\<lambda>r. if ?P RUNNING r then r\<lparr>job_status := FAILED, job_error := Some abandon_text,
        finished_at := Some moment, updated_at := now\<rparr> else r) \<circ>
        (\<lambda>r. if ?P PENDING r then r\<lparr>attempts := attempts r + 1, updated_at := now\<rparr> else r)) j =
        (if j \<in> set (swept_rows moment jobs) then handled now moment j else j)"
      using ids_with_scan [OF assms(1) j, of PENDING moment] ids_with_scan [OF assms(1) j, of RUNNING moment]
      by (auto simp: handled_def)
  qed
qed

lemma handled_not_stale: "moment \<le> now \<Longrightarrow> \<not> is_stale moment (handled now moment j)"
  by (simp add: is_stale_def handled_def)

lemma stale_after_reclaim:
  assumes "distinct (map job_id jobs)" "moment \<le> now" "reclaim now moment jobs keys = (res, ids, jobs', keys')"
  shows "filter (is_stale moment) jobs' = filter (\<lambda>j. is_stale moment j \<and> j \<notin> set (swept_rows moment jobs)) jobs"
    and "length (filter (is_stale moment) jobs') = length (filter (is_stale moment) jobs) - SWEEP_BUDGET"
proof -
  have "filter (is_stale moment) (map (\<lambda>j. if j \<in> S then handled now moment j else j) js) =
      filter (\<lambda>j. is_stale moment j \<and> j \<notin> S) js" for S and js :: "('a, 'b) job list"
    using handled_not_stale [OF assms(2)] by (induction js) auto
  then show eq: "filter (is_stale moment) jobs' = filter (\<lambda>j. is_stale moment j \<and> j \<notin> set (swept_rows moment jobs)) jobs"
    unfolding reclaim_rows(1) [OF assms(1,3)] .
  have d: "distinct jobs" using assms(1) by (simp add: distinct_map)
  then have ds: "distinct (swept_rows moment jobs)" by (simp add: swept_rows_def)
  have "length (filter (\<lambda>j. is_stale moment j \<and> j \<notin> set (swept_rows moment jobs)) jobs) =
      card (set (filter (is_stale moment) jobs) - set (swept_rows moment jobs))"
    using d by (subst distinct_card [symmetric]) (auto intro: arg_cong [where f = card])
  also have "\<dots> = length (filter (is_stale moment) jobs) - length (swept_rows moment jobs)"
    using d ds swept_rows_stale by (subst card_Diff_subset) (auto simp: distinct_card [symmetric])
  also have "\<dots> = length (filter (is_stale moment) jobs) - SWEEP_BUDGET"
    by (simp add: swept_rows_def)
  finally show "length (filter (is_stale moment) jobs') = length (filter (is_stale moment) jobs) - SWEEP_BUDGET"
    unfolding eq .
qed

text \<open>Consecutive ticks of the sweeper with no runner in between: the dispatched ids and the table.\<close>

primrec sweeps :: "nat \<Rightarrow> nat \<Rightarrow> 'b idempotency_key list \<Rightarrow> ('p, 'r) job list \<Rightarrow> uuid list \<times> ('p, 'r) job list" where
  "sweeps moment 0 keys jobs = ([], jobs)"
| "sweeps moment (Suc k) keys jobs =
     (case reclaim moment moment jobs keys of (res, ids, jobs', keys') \<Rightarrow>
      case sweeps moment k keys' jobs' of (ids', jobs'') \<Rightarrow> (ids @ ids', jobs''))"

lemma reclaim_fresh:
  assumes "distinct (map job_id jobs)" "reclaim moment moment jobs keys = (res, ids, jobs', keys')"
  shows "distinct (map job_id jobs')"
    and "j \<in> set jobs \<Longrightarrow> j \<notin> set (swept_rows moment jobs) \<Longrightarrow> j \<in> set jobs'"
    and "j \<in> set (swept_rows moment jobs) \<Longrightarrow> handled moment moment j \<in> set jobs'"
proof -
  have id: "job_id (if j \<in> S then handled moment moment j else j) = job_id j" for S and j :: "('a, 'b) job"
    by (simp add: handled_def)
  show "distinct (map job_id jobs')" unfolding reclaim_rows(1) [OF assms] list.map_comp o_def id by (fact assms(1))
  show "j \<in> set jobs \<Longrightarrow> j \<notin> set (swept_rows moment jobs) \<Longrightarrow> j \<in> set jobs'"
    "j \<in> set (swept_rows moment jobs) \<Longrightarrow> handled moment moment j \<in> set jobs'"
    unfolding reclaim_rows(1) [OF assms] by (force dest: swept_rows_stale)+
qed

lemma sweeps_keep_fresh:
  assumes "distinct (map job_id jobs)" "j \<in> set jobs" "\<not> is_stale moment j"
  shows "j \<in> set (snd (sweeps moment k keys jobs))"
  using assms
proof (induction k arbitrary: jobs keys)
  case (Suc k)
  obtain res ids jobs' keys' where r: "reclaim moment moment jobs keys = (res, ids, jobs', keys')"
    by (metis prod_cases4)
  have "j \<in> set jobs'" using reclaim_fresh(2) [OF Suc.prems(1) r Suc.prems(2)] Suc.prems(3) by (auto dest: swept_rows_stale)
  with Suc.IH [OF reclaim_fresh(1) [OF Suc.prems(1) r]] Suc.prems(3) r show ?case by (simp add: case_prod_beta)
qed simp

lemma sweeps_drain:
  assumes "distinct (map job_id jobs)" "length (filter (is_stale moment) jobs) \<le> k * SWEEP_BUDGET"
  shows "filter (is_stale moment) (snd (sweeps moment k keys jobs)) = [] \<and>
    set (fst (sweeps moment k keys jobs)) = job_id ` {j \<in> set jobs. is_stale moment j \<and> job_status j = PENDING} \<and>
    (\<forall>j \<in> set jobs. is_stale moment j \<longrightarrow> handled moment moment j \<in> set (snd (sweeps moment k keys jobs)))"
  using assms
proof (induction k arbitrary: jobs keys)
  case (Suc k)
  obtain res ids jobs' keys' where r: "reclaim moment moment jobs keys = (res, ids, jobs', keys')"
    by (metis prod_cases4)
  let ?S = "set (swept_rows moment jobs)"
  have d': "distinct (map job_id jobs')" by (rule reclaim_fresh(1) [OF Suc.prems(1) r])
  note st = stale_after_reclaim [OF Suc.prems(1) order_refl r]
  have "length (filter (is_stale moment) jobs') \<le> k * SWEEP_BUDGET" using st(2) Suc.prems(2) by simp
  note IH = Suc.IH [OF d' this, of keys']
  have stale': "{j \<in> set jobs'. is_stale moment j} = {j \<in> set jobs. is_stale moment j \<and> j \<notin> ?S}"
    using st(1) by (metis set_filter)
  have all: "handled moment moment j \<in> set (snd (sweeps moment k keys' jobs'))" if "j \<in> set jobs" "is_stale moment j" for j
  proof (cases "j \<in> ?S")
    case True
    show ?thesis
      by (rule sweeps_keep_fresh [OF d' reclaim_fresh(3) [OF Suc.prems(1) r True]]) (simp add: handled_not_stale)
  next
    case False
    then show ?thesis using that IH reclaim_fresh(2) [OF Suc.prems(1) r] by blast
  qed
  have "{j \<in> set jobs. is_stale moment j \<and> job_status j = PENDING} =
      {j \<in> ?S. job_status j = PENDING} \<union> {j \<in> set jobs'. is_stale moment j \<and> job_status j = PENDING}"
    using stale' by (auto dest: swept_rows_stale)
  then have "job_id ` {j \<in> set jobs. is_stale moment j \<and> job_status j = PENDING} = set ids \<union>
      set (fst (sweeps moment k keys' jobs'))"
    using IH reclaim_rows(2) [OF Suc.prems(1) r] by (simp add: image_Un)
  then show ?case using r IH all by (simp add: case_prod_beta)
qed (auto simp: filter_empty_conv)

text \<open>
  C12. The sweeper drains its backlog in bounded ticks: after k consecutive sweeps, where k budgets
  cover the stale rows, no stale row is left, exactly the stale PENDING jobs have been dispatched
  again, and every stale RUNNING job is FAILED.
\<close>

theorem sweeper_drains_backlog:
  assumes "distinct (map job_id jobs)" "length (filter (is_stale moment) jobs) \<le> k * SWEEP_BUDGET"
  shows "filter (is_stale moment) (snd (sweeps moment k keys jobs)) = [] \<and>
    set (fst (sweeps moment k keys jobs)) = job_id ` {j \<in> set jobs. is_stale moment j \<and> job_status j = PENDING} \<and>
    (\<forall>j \<in> set jobs. is_stale moment j \<and> job_status j = RUNNING \<longrightarrow>
      (\<exists>j' \<in> set (snd (sweeps moment k keys jobs)). job_id j' = job_id j \<and> job_status j' = FAILED))"
proof -
  note D = sweeps_drain [OF assms, of keys]
  have "\<exists>j' \<in> set (snd (sweeps moment k keys jobs)). job_id j' = job_id j \<and> job_status j' = FAILED"
    if "j \<in> set jobs" "is_stale moment j" "job_status j = RUNNING" for j
  proof -
    have "job_id (handled moment moment j) = job_id j" "job_status (handled moment moment j) = FAILED"
      using that(3) by (simp_all add: handled_def)
    then show ?thesis using D that(1,2) by blast
  qed
  then show ?thesis using D by blast
qed

text \<open>
  A handler that outlives its abandonment still completes the row: the sweeper's FAILED becomes
  COMPLETED, and the error text of the abandonment stays beside the result.
\<close>

lemma late_finish_overwrites_failed:
  assumes "find_row job_id i jobs = Some j" "job_status j = FAILED" "job_error j = Some abandon_text"
  shows "\<exists>j'. find_row job_id i (finish now i res jobs) = Some j' \<and> job_status j' = JOB_COMPLETED \<and>
    job_result j' = Some res \<and> job_error j' = Some abandon_text"
proof -
  have "job_id j = i" using assms(1) by (rule find_row_Some_iff [THEN conjunct2])
  then show ?thesis using assms by (simp add: job_writes_find)
qed

subsection \<open>Sample runs\<close>

text \<open>One job dispatched twice: the first runner wins the claim and completes, the second drops out.\<close>

definition sample_registry :: "string \<rightharpoonup> (uuid \<Rightarrow> int \<Rightarrow> int \<Rightarrow> (string \<times> int) option)" where
  "sample_registry = [''finance.payment_run'' \<mapsto> (\<lambda>tid n d. Some (''ok'', d + n))]"

definition sample_job :: "job_status \<Rightarrow> string option \<Rightarrow> nat option \<Rightarrow> nat option \<Rightarrow> (int, string) job" where
  "sample_job st res started finished =
     \<lparr>job_id = 7, job_tenant_id = 1, job_type = ''finance.payment_run'', job_status = st, job_payload = 5, job_result = res,
      job_error = None, submitted_by_user_id = None, attempts = 0, started_at = started, finished_at = finished, updated_at = 0\<rparr>"

definition completed_world :: "(int, string, int) job_world" where
  "completed_world = \<lparr>w_jobs = [sample_job JOB_COMPLETED (Some ''ok'') (Some 0) (Some 0)], w_data = 15, w_tasks = [],
     w_scans = [], w_next = 2, w_clock = 0, w_starts = [7], w_commits = [(7, ''ok'', 15)]\<rparr>"

lemma completed_world_reachable: "(job_step sample_registry)\<^sup>*\<^sup>* (job_start 10) completed_world"
proof -
  let ?S = "job_step sample_registry"
  let ?t = "\<lambda>n ph. \<lparr>t_no = n, t_proc = 0, t_job = 7, t_phase = ph\<rparr>"
  let ?w = "\<lambda>js d ts n st cs. \<lparr>w_jobs = js, w_data = d, w_tasks = ts, w_scans = [], w_next = n, w_clock = 0, w_starts = st, w_commits = cs\<rparr>"
  let ?p = "sample_job PENDING None None None" and ?r = "sample_job RUNNING None (Some 0) None"
  have "?S\<^sup>*\<^sup>* (job_start 10) (?w [?p] 10 [] 0 [] [])"
    by (rule step_to, rule rtranclp.rtrancl_refl, rule job_step.submitted [of _ _ 7 1 "''finance.payment_run''" 5 None])
      (simp_all add: submit_job_def sample_registry_def job_start_def sample_job_def)
  then have "?S\<^sup>*\<^sup>* (job_start 10) (?w [?p] 10 [?t 0 Queued] 1 [] [])"
    by - (erule step_to, rule job_step.scheduled [of _ _ 0 7], simp add: schedule_job_def)
  then have "?S\<^sup>*\<^sup>* (job_start 10) (?w [?p] 10 [?t 0 Queued, ?t 1 Queued] 2 [] [])"
    by - (erule step_to, rule job_step.scheduled [of _ _ 0 7], simp add: schedule_job_def)
  then have "?S\<^sup>*\<^sup>* (job_start 10) (?w [?p] 10 [?t 0 Loaded, ?t 1 Queued] 2 [] [])"
    by - (erule step_to, rule job_step.entered [of "?t 0 Queued"],
        simp_all add: in_semaphore_def MAX_CONCURRENT_JOBS_def set_task_def sample_job_def)
  then have "?S\<^sup>*\<^sup>* (job_start 10) (?w [?p] 10 [?t 0 Loaded, ?t 1 Loaded] 2 [] [])"
    by - (erule step_to, rule job_step.entered [of "?t 1 Queued"],
        simp_all add: in_semaphore_def MAX_CONCURRENT_JOBS_def set_task_def sample_job_def)
  then have "?S\<^sup>*\<^sup>* (job_start 10) (?w [?r] 10 [?t 0 Handling, ?t 1 Loaded] 2 [7] [])"
    by - (erule step_to, rule job_step.claim_won [of "?t 0 Loaded"], simp_all add: claim_def set_task_def sample_job_def)
  then have "?S\<^sup>*\<^sup>* (job_start 10) (?w [?r] 10 [?t 0 Handling] 2 [7] [])"
    by - (erule step_to, rule job_step.claim_lost [where t = "?t 1 Loaded" and n = 0], simp_all add: claim_def drop_task_def sample_job_def)
  then have "?S\<^sup>*\<^sup>* (job_start 10) (?w [sample_job JOB_COMPLETED (Some ''ok'') (Some 0) (Some 0)] 15 [] 2 [7] [(7, ''ok'', 15)])"
    by - (erule step_to, rule job_step.completed [where t = "?t 0 Handling" and j = ?r and f = "\<lambda>tid n d. Some (''ok'', d + n)"],
        simp_all add: finish_def drop_task_def sample_job_def sample_registry_def)
  then show ?thesis by (simp add: completed_world_def)
qed


text \<open>Three hours after a shutdown: one job was never picked up, one never finished.\<close>

definition orphaned_jobs :: "(int, string) job list" where
  "orphaned_jobs = [sample_job PENDING None None None, (sample_job RUNNING None (Some 0) None)\<lparr>job_id := 8\<rparr>]"

theorem sweeper_drains_backlog_witness:
  "filter (is_stale 10800) (snd (sweeps 10800 1 ([] :: string idempotency_key list) orphaned_jobs)) = [] \<and>
   set (fst (sweeps 10800 1 ([] :: string idempotency_key list) orphaned_jobs)) =
     job_id ` {j \<in> set orphaned_jobs. is_stale 10800 j \<and> job_status j = PENDING} \<and>
   (\<exists>j' \<in> set (snd (sweeps 10800 1 ([] :: string idempotency_key list) orphaned_jobs)). job_id j' = 8 \<and> job_status j' = FAILED)"
proof -
  have d: "distinct (map job_id orphaned_jobs)" by (simp add: orphaned_jobs_def sample_job_def)
  have l: "length (filter (is_stale 10800) orphaned_jobs) \<le> 1 * SWEEP_BUDGET"
    by (simp add: orphaned_jobs_def SWEEP_BUDGET_def)
  have j: "(sample_job RUNNING None (Some 0) None)\<lparr>job_id := 8\<rparr> \<in> set orphaned_jobs"
    "is_stale 10800 ((sample_job RUNNING None (Some 0) None)\<lparr>job_id := 8\<rparr>)"
    by (simp_all add: orphaned_jobs_def sample_job_def is_stale_def stale_grace_def RUNNING_ABANDON_AFTER_def)
  have st: "job_id ((sample_job RUNNING None (Some 0) None)\<lparr>job_id := 8\<rparr>) = 8"
    "job_status ((sample_job RUNNING None (Some 0) None)\<lparr>job_id := 8\<rparr>) = RUNNING"
    by (simp_all add: sample_job_def)
  note S = sweeper_drains_backlog [OF d l, of "[] :: string idempotency_key list"]
  from S [THEN conjunct2, THEN conjunct2, THEN bspec, OF j(1)] j(2) st
  have "\<exists>j' \<in> set (snd (sweeps 10800 1 ([] :: string idempotency_key list) orphaned_jobs)). job_id j' = 8 \<and> job_status j' = FAILED"
    by simp
  then show ?thesis using S by blast
qed

end
