(* ===== verification/Assets.thy ===== *)
theory Assets
  imports Clearing_Fx Posting "HOL-Library.List_Lexorder" "HOL-Library.Char_ord"
begin

text \<open>
  Model of asset accounting (\<^verbatim>\<open>finance/service/assets.py\<close>, \<^verbatim>\<open>depreciation.py\<close>,
  \<^verbatim>\<open>depreciation_read.py\<close>, \<^verbatim>\<open>finance/models/assets.py\<close>): the register with its lifecycle, the
  depreciation formula, the posting run as a whole handler, and the register report. The proofs are
  in Depreciation.
\<close>

subsection \<open>Data\<close>

datatype depreciation_method = STRAIGHT_LINE | DECLINING_BALANCE
datatype asset_status = ASSET_DRAFT | ASSET_ACTIVE | ASSET_FULLY_DEPRECIATED
datatype depreciation_run_status = DEP_DRAFT | DEP_POSTED | DEP_REVERSED

fun asset_status_str :: "asset_status \<Rightarrow> string" where
  "asset_status_str ASSET_DRAFT = ''DRAFT''"
| "asset_status_str ASSET_ACTIVE = ''ACTIVE''"
| "asset_status_str ASSET_FULLY_DEPRECIATED = ''FULLY_DEPRECIATED''"

record asset =
  as_id :: uuid
  as_tenant :: uuid
  as_document :: uuid
  as_number :: "string option"
  as_name :: string
  as_description :: "string option"
  as_acquisition_date :: date
  as_cost :: decimal
  as_salvage :: decimal
  as_life :: nat
  as_method :: depreciation_method
  as_rate_percent :: "decimal option"
  as_status :: asset_status
  as_account :: uuid
  as_accumulated_account :: uuid
  as_expense_account :: uuid
  as_cost_center :: "uuid option"
  as_currency :: string
  as_capitalized_entry :: "uuid option"

record depreciation_run =
  dr_id :: uuid
  dr_tenant :: uuid
  dr_document :: uuid
  dr_period :: uuid
  dr_number :: "string option"
  dr_date :: date
  dr_status :: depreciation_run_status
  dr_entry :: "uuid option"
  dr_total :: decimal
  dr_asset_count :: nat

record depreciation_entry =
  de_id :: uuid
  de_tenant :: uuid
  de_run :: uuid
  de_asset :: uuid
  de_period :: uuid
  de_amount :: decimal
  de_accumulated_after :: decimal
  de_nbv_after :: decimal

record fa_db = ap_db +
  fixed_assets :: "asset list"
  depreciation_runs :: "depreciation_run list"
  depreciation_entries :: "depreciation_entry list"

definition ASSET_DOC_TYPE :: string where "ASSET_DOC_TYPE = ''finance.asset''"
definition ASSET_SEQUENCE_NAME :: string where "ASSET_SEQUENCE_NAME = ''finance.asset''"
definition ASSET_NUMBER_PREFIX :: string where "ASSET_NUMBER_PREFIX = ''AST''"
definition ASSET_NUMBER_PADDING :: int where "ASSET_NUMBER_PADDING = 5"
definition ASSET_POSTS_LINK :: string where "ASSET_POSTS_LINK = ''posts''"
definition ASSET_ACQUISITION_CLEARING :: string where "ASSET_ACQUISITION_CLEARING = ''asset_acquisition_clearing''"
definition DEPRECIATION_RUN_DOC_TYPE :: string where "DEPRECIATION_RUN_DOC_TYPE = ''finance.depreciation_run''"
definition DEPRECIATION_SEQUENCE_NAME :: string where "DEPRECIATION_SEQUENCE_NAME = ''finance.depreciation''"
definition DEPRECIATION_NUMBER_PREFIX :: string where "DEPRECIATION_NUMBER_PREFIX = ''DEP''"
definition DEPRECIATION_NUMBER_PADDING :: int where "DEPRECIATION_NUMBER_PADDING = 5"
definition DEPRECIATION_POSTS_LINK :: string where "DEPRECIATION_POSTS_LINK = ''posts''"

subsection \<open>The register\<close>

record asset_create =
  ac_name :: string
  ac_description :: "string option"
  ac_acquisition_date :: date
  ac_cost :: decimal
  ac_salvage :: decimal
  ac_life :: nat
  ac_method :: depreciation_method
  ac_rate_percent :: "decimal option"
  ac_account :: uuid
  ac_accumulated_account :: uuid
  ac_expense_account :: uuid
  ac_cost_center :: "uuid option"
  ac_currency :: "string option"

text \<open>A field that a patch omits is \<open>None\<close>; the nullable columns can be patched to null.\<close>

record asset_update =
  au_name :: "string option"
  au_description :: "string option option"
  au_acquisition_date :: "date option"
  au_cost :: "decimal option"
  au_salvage :: "decimal option"
  au_life :: "nat option"
  au_method :: "depreciation_method option"
  au_rate_percent :: "decimal option option"
  au_account :: "uuid option"
  au_accumulated_account :: "uuid option"
  au_expense_account :: "uuid option"
  au_cost_center :: "uuid option option"

definition require_typed_account :: "'m fin_db_scheme \<Rightarrow> uuid \<Rightarrow> uuid \<Rightarrow> account_type \<Rightarrow> unit result" where
  "require_typed_account db tenant i expected =
     bindr (one_or_none (filter (\<lambda>a. acc_tenant a = tenant \<and> acc_id a = i) (accounts db)))
       (\<lambda>a. case a of
          None \<Rightarrow> Inl (ValidationFailedError ''finance.asset_account_invalid'')
        | Some a \<Rightarrow>
            if acc_is_postable a \<and> acc_type a = expected then Inr ()
            else Inl (ValidationFailedError ''finance.asset_account_invalid''))"

definition validate_method :: "depreciation_method \<Rightarrow> decimal option \<Rightarrow> unit result" where
  "validate_method method rate =
     (if method = DECLINING_BALANCE
      then case rate of
             None \<Rightarrow> Inl (ValidationFailedError ''finance.asset_declining_rate_required'')
           | Some r \<Rightarrow>
               if 0 < r \<and> r \<le> 100 then Inr ()
               else Inl (ValidationFailedError ''finance.asset_declining_rate_required'')
      else if rate \<noteq> None then Inl (ValidationFailedError ''finance.asset_declining_rate_not_applicable'')
      else Inr ())"

definition validate_asset_fields :: "'m fin_db_scheme \<Rightarrow> uuid \<Rightarrow> asset \<Rightarrow> unit result" where
  "validate_asset_fields db tenant a =
     (if as_salvage a \<ge> as_cost a then Inl (ValidationFailedError ''finance.asset_salvage_exceeds_cost'')
      else bindr (validate_method (as_method a) (as_rate_percent a)) (\<lambda>_.
      bindr (require_typed_account db tenant (as_account a) ASSET) (\<lambda>_.
      bindr (require_typed_account db tenant (as_accumulated_account a) ASSET) (\<lambda>_.
      bindr (require_typed_account db tenant (as_expense_account a) EXPENSE) (\<lambda>_.
      case as_cost_center a of
        None \<Rightarrow> Inr ()
      | Some c \<Rightarrow> if (c, tenant) \<in> set (cost_centers db) then Inr ()
          else Inl (ValidationFailedError ''finance.asset_cost_center_not_found''))))))"

definition stored_asset :: "asset \<Rightarrow> asset" where
  "stored_asset a = a\<lparr>as_cost := store_money (as_cost a), as_salvage := store_money (as_salvage a),
     as_rate_percent := map_option store_money (as_rate_percent a)\<rparr>"

definition asset_currency :: "'m fin_db_scheme \<Rightarrow> uuid \<Rightarrow> string option \<Rightarrow> string result" where
  "asset_currency db tenant code =
     (case (if code = Some '''' then None else code) of
        Some c \<Rightarrow> Inr c
      | None \<Rightarrow> bindr (functional_currency_or_none db tenant)
          (\<lambda>f. Inr (case f of Some c \<Rightarrow> if c = '''' then ''USD'' else c | None \<Rightarrow> ''USD'')))"

definition create_asset ::
  "'m fa_db_scheme \<Rightarrow> uuid \<Rightarrow> asset_create \<Rightarrow> (asset \<times> 'm fa_db_scheme) result" where
  "create_asset db tenant payload =
     bindr (asset_currency db tenant (ac_currency payload)) (\<lambda>currency.
     let decimals = currency_decimals currency in
     case uuid4 db of (asset_id, db1) \<Rightarrow>
     bindr (register_document db1 tenant ASSET_DOC_TYPE asset_id None (Some (asset_status_str ASSET_DRAFT)))
       (\<lambda>(document, db2).
     let a = \<lparr>as_id = asset_id, as_tenant = tenant, as_document = doc_pk document, as_number = None,
           as_name = ac_name payload, as_description = ac_description payload,
           as_acquisition_date = ac_acquisition_date payload,
           as_cost = quantize_money (ac_cost payload) decimals,
           as_salvage = quantize_money (ac_salvage payload) decimals, as_life = ac_life payload,
           as_method = ac_method payload, as_rate_percent = ac_rate_percent payload, as_status = ASSET_DRAFT,
           as_account = ac_account payload, as_accumulated_account = ac_accumulated_account payload,
           as_expense_account = ac_expense_account payload, as_cost_center = ac_cost_center payload,
           as_currency = currency, as_capitalized_entry = None\<rparr>
     in bindr (validate_asset_fields db2 tenant a) (\<lambda>_.
     Inr (a, db2\<lparr>fixed_assets := fixed_assets db2 @ [stored_asset a]\<rparr>))))"

definition get_asset :: "'m fa_db_scheme \<Rightarrow> uuid \<Rightarrow> uuid \<Rightarrow> asset result" where
  "get_asset db tenant i =
     (case find_row as_id i (fixed_assets db) of
        None \<Rightarrow> Inl (NotFoundError ''finance.asset_not_found'')
      | Some a \<Rightarrow> if as_tenant a \<noteq> tenant then Inl (NotFoundError ''finance.asset_not_found'') else Inr a)"

definition apply_asset_update :: "asset_update \<Rightarrow> asset \<Rightarrow> asset" where
  "apply_asset_update p a =
     (let decimals = currency_decimals (as_currency a) in
      a\<lparr>as_name := patched (au_name p) (as_name a), as_description := patched (au_description p) (as_description a),
        as_acquisition_date := patched (au_acquisition_date p) (as_acquisition_date a),
        as_cost := patched (map_option (\<lambda>v. quantize_money v decimals) (au_cost p)) (as_cost a),
        as_salvage := patched (map_option (\<lambda>v. quantize_money v decimals) (au_salvage p)) (as_salvage a),
        as_life := patched (au_life p) (as_life a), as_method := patched (au_method p) (as_method a),
        as_rate_percent := patched (au_rate_percent p) (as_rate_percent a),
        as_account := patched (au_account p) (as_account a),
        as_accumulated_account := patched (au_accumulated_account p) (as_accumulated_account a),
        as_expense_account := patched (au_expense_account p) (as_expense_account a),
        as_cost_center := patched (au_cost_center p) (as_cost_center a)\<rparr>)"

definition set_asset :: "asset \<Rightarrow> 'm fa_db_scheme \<Rightarrow> 'm fa_db_scheme" where
  "set_asset a db = db\<lparr>fixed_assets := upd_rows (\<lambda>b. as_id b = as_id a) (\<lambda>_. stored_asset a) (fixed_assets db)\<rparr>"

definition update_asset ::
  "'m fa_db_scheme \<Rightarrow> uuid \<Rightarrow> uuid \<Rightarrow> asset_update \<Rightarrow> (asset \<times> 'm fa_db_scheme) result" where
  "update_asset db tenant i payload =
     bindr (get_asset db tenant i) (\<lambda>a.
     if as_status a \<noteq> ASSET_DRAFT then Inl (ConflictError ''finance.asset_not_draft'')
     else let a' = apply_asset_update payload a
     in bindr (validate_asset_fields db tenant a') (\<lambda>_. Inr (a', set_asset a' db)))"

definition capitalization_lines :: "asset \<Rightarrow> string \<Rightarrow> uuid \<Rightarrow> journal_line_create list" where
  "capitalization_lines a number clearing =
     [(line_for (as_account a) (Some (''Capitalize '' @ as_name a)) (as_cost a) 0)\<lparr>jlc_cost_center := as_cost_center a\<rparr>,
      line_for clearing (Some (''Acquisition clearing '' @ number)) 0 (as_cost a)]"

definition capitalize_asset ::
  "'m fa_db_scheme \<Rightarrow> uuid \<Rightarrow> asset \<Rightarrow> string \<Rightarrow> (asset \<times> 'm fa_db_scheme) result" where
  "capitalize_asset db tenant a number =
     bindr (get_posting_default db tenant ASSET_ACQUISITION_CLEARING) (\<lambda>clearing.
     bindr (create_draft_entry db tenant
              \<lparr>jec_posting_date = as_acquisition_date a, jec_currency = as_currency a,
               jec_description = Some (''Asset acquisition '' @ number), jec_document_type = JOURNAL,
               jec_lines = capitalization_lines a number clearing\<rparr> None) (\<lambda>(entry, db1).
     bindr (post_entry db1 tenant (je_id entry) None False) (\<lambda>(_, db2).
     bindr (link_documents db2 tenant (as_document a) (je_document entry) (Some ASSET_POSTS_LINK)) (\<lambda>(_, db3).
     Inr (a\<lparr>as_capitalized_entry := Some (je_id entry)\<rparr>, db3)))))"

definition activate_asset ::
  "'m fa_db_scheme \<Rightarrow> uuid \<Rightarrow> uuid \<Rightarrow> bool \<Rightarrow> (asset \<times> 'm fa_db_scheme) result" where
  "activate_asset db tenant i capitalize =
     bindr (get_asset db tenant i) (\<lambda>a.
     if as_status a \<noteq> ASSET_DRAFT then Inl (ConflictError ''finance.asset_not_draft'')
     else bindr (ensure_sequence db tenant ASSET_SEQUENCE_NAME ASSET_NUMBER_PREFIX ASSET_NUMBER_PADDING True) (\<lambda>(_, db1).
     bindr (claim_number db1 tenant ASSET_SEQUENCE_NAME (as_acquisition_date a)) (\<lambda>(number, db2).
     let a1 = a\<lparr>as_number := Some number, as_status := ASSET_ACTIVE\<rparr> in
     bindr (if capitalize then capitalize_asset db2 tenant a1 number else Inr (a1, db2)) (\<lambda>(a2, db3).
     bindr (set_document_status (set_asset a2 db3) tenant (as_document a) (Some (asset_status_str ASSET_ACTIVE)) (Some number))
       (\<lambda>db4. Inr (a2, db4))))))"

subsection \<open>The formula\<close>

definition depreciable :: "asset \<Rightarrow> decimal" where
  "depreciable a = as_cost a - as_salvage a"

definition compute_depreciation :: "asset \<Rightarrow> nat \<Rightarrow> decimal \<Rightarrow> decimal result" where
  "compute_depreciation a period_index prior_accumulated =
     (let places = currency_decimals (as_currency a)
      in if depreciable a \<le> 0 \<or> prior_accumulated \<ge> depreciable a then Inr 0
      else case as_method a of
        STRAIGHT_LINE \<Rightarrow>
          if period_index \<ge> as_life a then Inr (depreciable a - prior_accumulated)
          else let cumulative = quantize_money
                     (ddiv (dmul (depreciable a) (of_nat period_index)) (of_nat (as_life a))) places
               in Inr (max (cumulative - prior_accumulated) 0)
      | DECLINING_BALANCE \<Rightarrow>
          let nbv_start = as_cost a - prior_accumulated
          in if period_index \<ge> as_life a then Inr (nbv_start - as_salvage a)
          else case as_rate_percent a of
                 None \<Rightarrow> Inl (PyError ''InvalidOperation'')
               | Some rate \<Rightarrow>
                   let annual_rate = ddiv rate 100;
                       amount = quantize_money (ddiv (dmul nbv_start annual_rate) 12) places;
                       amount = (if nbv_start - amount < as_salvage a then nbv_start - as_salvage a else amount)
                   in Inr (max amount 0))"

subsection \<open>The run\<close>

definition eligible_assets :: "'m fa_db_scheme \<Rightarrow> uuid \<Rightarrow> uuid \<Rightarrow> asset list" where
  "eligible_assets db tenant period_id =
     filter (\<lambda>a. as_tenant a = tenant \<and> as_status a = ASSET_ACTIVE \<and>
       \<not> (\<exists>e \<in> set (depreciation_entries db). de_tenant e = tenant \<and> de_asset e = as_id a \<and> de_period e = period_id))
       (fixed_assets db)"

definition count_eligible_assets :: "'m fa_db_scheme \<Rightarrow> uuid \<Rightarrow> uuid \<Rightarrow> nat" where
  "count_eligible_assets db tenant period_id = length (eligible_assets db tenant period_id)"

definition require_open_period :: "'m fin_db_scheme \<Rightarrow> uuid \<Rightarrow> uuid \<Rightarrow> date \<Rightarrow> fiscal_period result" where
  "require_open_period db tenant period_id run_date =
     (case find_row fp_id period_id (fiscal_periods db) of
        None \<Rightarrow> Inl (ValidationFailedError ''finance.depreciation_period_not_found'')
      | Some p \<Rightarrow>
          if fp_tenant p \<noteq> tenant then Inl (ValidationFailedError ''finance.depreciation_period_not_found'')
          else if fp_status p \<noteq> OPEN then Inl (ValidationFailedError ''finance.period_closed'')
          else if \<not> (fp_start p \<le> run_date \<and> run_date \<le> fp_end p)
          then Inl (ValidationFailedError ''finance.depreciation_run_date_outside_period'')
          else Inr p)"

text \<open>\<open>period.name\<close> is the code of its year and its number in two digits; nothing renames a period.\<close>

definition period_name :: "'m fin_db_scheme \<Rightarrow> fiscal_period \<Rightarrow> string" where
  "period_name db p =
     (case find_row fy_id (fp_year p) (fiscal_years db) of None \<Rightarrow> '''' | Some y \<Rightarrow> fy_code y) @ ''-'' @
     zfill (nat_str (fp_number p)) 2"

text \<open>\<open>str\<close> of a uuid is its fixed-width hexadecimal form, so the string order is the order of the numbers.\<close>

definition grouped_lines ::
  "((uuid \<times> uuid option) \<times> decimal) list \<Rightarrow> (uuid \<times> decimal) list \<Rightarrow> journal_line_create list" where
  "grouped_lines debits credits =
     map (\<lambda>((a, cc), x). (line_for a (Some ''Depreciation expense'') x 0)\<lparr>jlc_cost_center := cc\<rparr>)
       (sort_key (\<lambda>p. fst (fst p)) (sort_key (\<lambda>p. case snd (fst p) of None \<Rightarrow> 0 | Some c \<Rightarrow> Suc c) debits)) @
     map (\<lambda>(a, x). line_for a (Some ''Accumulated depreciation'') 0 x) (sort_key fst credits)"

definition existing_posted_run :: "'m fa_db_scheme \<Rightarrow> uuid \<Rightarrow> uuid \<Rightarrow> depreciation_run option" where
  "existing_posted_run db tenant period_id =
     (let rows = filter (\<lambda>r. dr_tenant r = tenant \<and> dr_period r = period_id \<and> dr_status r = DEP_POSTED) (depreciation_runs db)
      in if rows = [] then None else Some (last rows))"

definition nothing_to_depreciate :: "'m fa_db_scheme \<Rightarrow> uuid \<Rightarrow> uuid \<Rightarrow> depreciation_run result" where
  "nothing_to_depreciate db tenant period_id =
     (case existing_posted_run db tenant period_id of
        Some r \<Rightarrow> Inr r
      | None \<Rightarrow> Inl (ValidationFailedError ''finance.depreciation_nothing_to_depreciate''))"

definition asset_entries :: "depreciation_entry list \<Rightarrow> uuid \<Rightarrow> uuid \<Rightarrow> depreciation_entry list" where
  "asset_entries entries tenant i = filter (\<lambda>e. de_tenant e = tenant \<and> de_asset e = i) entries"

definition accumulated :: "depreciation_entry list \<Rightarrow> uuid \<Rightarrow> uuid \<Rightarrow> decimal" where
  "accumulated entries tenant i = sum_list (map de_amount (asset_entries entries tenant i))"

record dep_acc =
  da_rows :: "depreciation_entry list"
  da_debits :: "((uuid \<times> uuid option) \<times> decimal) list"
  da_credits :: "(uuid \<times> decimal) list"
  da_flipped :: "asset list"
  da_total :: decimal

text \<open>The body of the loop over the assets; the rows get their ids and their run when they are inserted.\<close>

definition depreciate_asset ::
  "depreciation_entry list \<Rightarrow> uuid \<Rightarrow> uuid \<Rightarrow> asset \<Rightarrow> dep_acc \<Rightarrow> dep_acc result" where
  "depreciate_asset entries tenant period_id a acc =
     (let prior_count = length (asset_entries entries tenant (as_id a));
          prior_accumulated = accumulated entries tenant (as_id a)
      in bindr (compute_depreciation a (prior_count + 1) prior_accumulated) (\<lambda>amount.
         if amount \<le> 0 then Inr acc
         else let accumulated_after = prior_accumulated + amount;
                  nbv_after = as_cost a - accumulated_after
              in Inr \<lparr>da_rows = da_rows acc @ [\<lparr>de_id = 0, de_tenant = tenant, de_run = 0, de_asset = as_id a,
                        de_period = period_id, de_amount = amount, de_accumulated_after = accumulated_after,
                        de_nbv_after = nbv_after\<rparr>],
                      da_debits = dict_add (as_expense_account a, as_cost_center a) amount (da_debits acc),
                      da_credits = dict_add (as_accumulated_account a) amount (da_credits acc),
                      da_flipped = (if nbv_after = as_salvage a then da_flipped acc @ [a] else da_flipped acc),
                      da_total = da_total acc + amount\<rparr>))"

definition empty_acc :: dep_acc where
  "empty_acc = \<lparr>da_rows = [], da_debits = [], da_credits = [], da_flipped = [], da_total = 0\<rparr>"

definition stored_dep_entry :: "depreciation_entry \<Rightarrow> depreciation_entry" where
  "stored_dep_entry e = e\<lparr>de_amount := store_money (de_amount e),
     de_accumulated_after := store_money (de_accumulated_after e), de_nbv_after := store_money (de_nbv_after e)\<rparr>"

text \<open>One row of the bulk insert, with its unique constraint.\<close>

definition insert_dep_entry :: "uuid \<Rightarrow> depreciation_entry \<Rightarrow> 'm fa_db_scheme \<Rightarrow> 'm fa_db_scheme result" where
  "insert_dep_entry run_id e db =
     (if \<exists>f \<in> set (depreciation_entries db). de_tenant f = de_tenant e \<and> de_asset f = de_asset e \<and> de_period f = de_period e
      then Inl (IntegrityError ''uq_fin_depreciation_entries_asset_period'')
      else case uuid4 db of (i, db1) \<Rightarrow>
        Inr (db1\<lparr>depreciation_entries := depreciation_entries db1 @ [stored_dep_entry (e\<lparr>de_id := i, de_run := run_id\<rparr>)]\<rparr>))"

definition track_run ::
  "'m fa_db_scheme \<Rightarrow> uuid \<Rightarrow> uuid \<Rightarrow> date \<Rightarrow> uuid \<Rightarrow> decimal \<Rightarrow> nat \<Rightarrow> (depreciation_run \<times> 'm fa_db_scheme) result" where
  "track_run db tenant period_id run_date entry_id total_amount asset_count =
     (case uuid4 db of (run_id, db1) \<Rightarrow>
      bindr (register_document db1 tenant DEPRECIATION_RUN_DOC_TYPE run_id None (Some ''POSTED'')) (\<lambda>(document, db2).
      bindr (ensure_sequence db2 tenant DEPRECIATION_SEQUENCE_NAME DEPRECIATION_NUMBER_PREFIX DEPRECIATION_NUMBER_PADDING True)
        (\<lambda>(_, db3).
      bindr (claim_number db3 tenant DEPRECIATION_SEQUENCE_NAME run_date) (\<lambda>(run_number, db4).
      let run = \<lparr>dr_id = run_id, dr_tenant = tenant, dr_document = doc_pk document, dr_period = period_id,
            dr_number = Some run_number, dr_date = run_date, dr_status = DEP_POSTED, dr_entry = Some entry_id,
            dr_total = total_amount, dr_asset_count = asset_count\<rparr>;
          db5 = db4\<lparr>depreciation_runs := depreciation_runs db4 @ [run\<lparr>dr_total := store_money total_amount\<rparr>]\<rparr>
      in bindr (set_document_status db5 tenant (doc_pk document) (Some ''POSTED'') (Some run_number)) (\<lambda>db6.
      Inr (run, db6))))))"

definition flip_asset :: "uuid \<Rightarrow> asset \<Rightarrow> 'm fa_db_scheme \<Rightarrow> 'm fa_db_scheme result" where
  "flip_asset tenant a db =
     set_document_status
       (db\<lparr>fixed_assets := upd_rows (\<lambda>b. as_id b = as_id a) (\<lambda>b. b\<lparr>as_status := ASSET_FULLY_DEPRECIATED\<rparr>) (fixed_assets db)\<rparr>)
       tenant (as_document a) (Some (asset_status_str ASSET_FULLY_DEPRECIATED)) None"

text \<open>The selection is ordered by the number; an active asset has one.\<close>

definition run_depreciation ::
  "'m fa_db_scheme \<Rightarrow> uuid \<Rightarrow> uuid \<Rightarrow> date \<Rightarrow> (depreciation_run \<times> 'm fa_db_scheme) result" where
  "run_depreciation db tenant period_id run_date =
     bindr (require_open_period db tenant period_id run_date) (\<lambda>period.
     let assets = sort_key (\<lambda>a. case as_number a of None \<Rightarrow> '''' | Some n \<Rightarrow> n) (eligible_assets db tenant period_id) in
     if assets = [] then bindr (nothing_to_depreciate db tenant period_id) (\<lambda>r. Inr (r, db))
     else if \<exists>a \<in> set assets. as_currency a \<noteq> as_currency (hd assets)
     then Inl (ValidationFailedError ''finance.depreciation_mixed_currencies'')
     else bindr (fold_result (depreciate_asset (depreciation_entries db) tenant period_id) assets empty_acc) (\<lambda>acc.
     if da_rows acc = [] then bindr (nothing_to_depreciate db tenant period_id) (\<lambda>r. Inr (r, db))
     else bindr (create_draft_entry db tenant
            \<lparr>jec_posting_date = run_date, jec_currency = as_currency (hd assets),
             jec_description = Some (''Depreciation '' @ period_name db period), jec_document_type = DEPRECIATION,
             jec_lines = grouped_lines (da_debits acc) (da_credits acc)\<rparr> None) (\<lambda>(entry, db1).
     bindr (post_entry db1 tenant (je_id entry) None False) (\<lambda>(_, db2).
     bindr (track_run db2 tenant period_id run_date (je_id entry) (da_total acc) (length (da_rows acc))) (\<lambda>(run, db3).
     bindr (fold_result (insert_dep_entry (dr_id run)) (da_rows acc) db3) (\<lambda>db4.
     bindr (link_documents db4 tenant (dr_document run) (je_document entry) (Some DEPRECIATION_POSTS_LINK)) (\<lambda>(_, db5).
     bindr (fold_result (flip_asset tenant) (da_flipped acc) db5) (\<lambda>db6.
     Inr (run, db6)))))))))"

subsection \<open>Reads\<close>

definition get_depreciation_run :: "'m fa_db_scheme \<Rightarrow> uuid \<Rightarrow> uuid \<Rightarrow> depreciation_run result" where
  "get_depreciation_run db tenant i =
     (case find_row dr_id i (depreciation_runs db) of
        None \<Rightarrow> Inl (NotFoundError ''finance.depreciation_run_not_found'')
      | Some r \<Rightarrow> if dr_tenant r \<noteq> tenant then Inl (NotFoundError ''finance.depreciation_run_not_found'') else Inr r)"

text \<open>The register report: an asset with what is accumulated, and the net book value.\<close>

definition net_book_value :: "asset \<times> decimal \<Rightarrow> decimal" where
  "net_book_value l = as_cost (fst l) - snd l"

definition asset_register :: "'m fa_db_scheme \<Rightarrow> uuid \<Rightarrow> date \<Rightarrow> (asset \<times> decimal) list" where
  "asset_register db tenant as_of =
     (let bounded = map fp_id (filter (\<lambda>p. fp_tenant p = tenant \<and> fp_end p \<le> as_of) (fiscal_periods db));
          entries = filter (\<lambda>e. de_period e \<in> set bounded) (depreciation_entries db)
      in map (\<lambda>a. (a, accumulated entries tenant (as_id a)))
           (sort_key (\<lambda>a. case as_number a of None \<Rightarrow> '''' | Some n \<Rightarrow> n)
             (filter (\<lambda>a. as_tenant a = tenant \<and> as_status a \<noteq> ASSET_DRAFT \<and> as_acquisition_date a \<le> as_of)
               (fixed_assets db))))"

end
