(* ===== verification/Depreciation.thy ===== *)
theory Depreciation
  imports Assets
begin

text \<open>
  Properties of asset accounting: the charge of one period, the schedule of an asset, what a run
  books, and the invariant of the register under every operation.
\<close>

subsection \<open>The charge of one period\<close>

text \<open>What validation and the column types leave of an asset.\<close>

definition asset_ok :: "asset \<Rightarrow> bool" where
  "asset_ok a \<longleftrightarrow>
     on_grid (currency_decimals (as_currency a)) (as_cost a) \<and> on_grid (currency_decimals (as_currency a)) (as_salvage a) \<and>
     as_salvage a < as_cost a \<and> depreciable a < 10 ^ 12 \<and> as_life a < 10 ^ 10 \<and>
     (as_method a = DECLINING_BALANCE \<longrightarrow> (\<exists>r. as_rate_percent a = Some r \<and> 0 \<le> r))"

lemma asset_ok_depreciable:
  assumes "asset_ok a"
  shows "0 < depreciable a" "depreciable a < 10 ^ 12" "on_grid (currency_decimals (as_currency a)) (depreciable a)"
  using assms by (auto simp: asset_ok_def depreciable_def intro: on_grid_diff)

definition straight_line :: "asset \<Rightarrow> nat \<Rightarrow> decimal" where
  "straight_line a n = ddiv (dmul (depreciable a) (of_nat n)) (of_nat (as_life a))"

lemma straight_line_err:
  assumes "asset_ok a" "n \<le> as_life a"
  shows "\<bar>straight_line a n - depreciable a * of_nat n / of_nat (as_life a)\<bar> \<le> depreciable a / 10 ^ 26"
proof -
  note D = asset_ok_depreciable [OF assms(1)]
  have "depreciable a * of_nat n / of_nat (as_life a) \<le> depreciable a"
    using D(1) assms(2) by (cases "as_life a = 0") (auto simp: field_simps)
  moreover have "0 \<le> depreciable a * of_nat n / of_nat (as_life a)" using D(1) by simp
  ultimately have "\<bar>depreciable a * of_nat n / of_nat (as_life a)\<bar> / 10 ^ 26 \<le> depreciable a / 10 ^ 26"
    by (intro divide_right_mono) auto
  then show ?thesis
    using ddiv_dmul_err [of "depreciable a" "of_nat n" "of_nat (as_life a)"] unfolding straight_line_def
    by (rule order_trans [rotated])
qed

lemma straight_line_le:
  assumes "asset_ok a" "n < as_life a"
  shows "straight_line a n \<le> depreciable a"
proof -
  note D = asset_ok_depreciable [OF assms(1)]
  let ?L = "of_nat (as_life a) :: rat"
  have L: "1 \<le> ?L" "?L < 10 ^ 10" using assms by (auto simp: asset_ok_def)
  have n: "of_nat n + 1 \<le> ?L" using assms(2) by (metis Suc_leI of_nat_Suc of_nat_le_iff add.commute)
  have "depreciable a * of_nat n / ?L \<le> depreciable a * (?L - 1) / ?L"
    using D(1) n L by (intro divide_right_mono mult_left_mono) auto
  also have "\<dots> = depreciable a - depreciable a / ?L" using L by (simp add: field_simps)
  also have "\<dots> \<le> depreciable a - depreciable a / 10 ^ 26"
    using D(1) L by (intro diff_left_mono divide_left_mono) auto
  finally show ?thesis using straight_line_err [OF assms(1) less_imp_le [OF assms(2)]] by linarith
qed

lemma compute_depreciation_bounds:
  assumes ok: "asset_ok a" and c: "compute_depreciation a n prior = Inr x"
    and p: "prior \<le> depreciable a" "on_grid (currency_decimals (as_currency a)) prior"
  shows "0 \<le> x" "prior + x \<le> depreciable a" "on_grid (currency_decimals (as_currency a)) x"
    "as_life a \<le> n \<Longrightarrow> prior + x = depreciable a"
proof -
  note D = asset_ok_depreciable [OF ok]
  have q: "quantize_money (straight_line a n) (currency_decimals (as_currency a)) \<le> depreciable a" if "n < as_life a"
    using quantize_mono [OF straight_line_le [OF ok that], of ROUND_HALF_UP "currency_decimals (as_currency a)"]
      quantize_grid [OF D(3)] by (simp add: quantize_money_def)
  have g: "on_grid (currency_decimals (as_currency a)) (as_cost a)" "on_grid (currency_decimals (as_currency a)) (as_salvage a)"
    using ok by (simp_all add: asset_ok_def)
  have "0 \<le> x \<and> prior + x \<le> depreciable a \<and> on_grid (currency_decimals (as_currency a)) x \<and>
      (as_life a \<le> n \<longrightarrow> prior + x = depreciable a)"
  proof (cases "prior = depreciable a")
    case True
    then show ?thesis using c by (auto simp: compute_depreciation_def)
  next
    case False
    then have lt: "\<not> (depreciable a \<le> 0 \<or> depreciable a \<le> prior)" using p(1) D(1) by auto
    show ?thesis
    proof (cases "as_method a")
      case STRAIGHT_LINE
      then show ?thesis using c lt p q D(3)
        unfolding compute_depreciation_def straight_line_def [symmetric]
        by (auto simp: Let_def quantize_money_def max_def on_grid_diff split: if_splits)
    next
      case DECLINING_BALANCE
      then obtain r where "as_rate_percent a = Some r" using ok by (auto simp: asset_ok_def)
      then show ?thesis using DECLINING_BALANCE c lt p g
        by (auto simp: compute_depreciation_def depreciable_def Let_def quantize_money_def max_def on_grid_diff split: if_splits)
    qed
  qed
  then show "0 \<le> x" "prior + x \<le> depreciable a" "on_grid (currency_decimals (as_currency a)) x"
    "as_life a \<le> n \<Longrightarrow> prior + x = depreciable a" by auto
qed

lemma compute_depreciation_total:
  assumes "asset_ok a"
  obtains x where "compute_depreciation a n prior = Inr x"
proof -
  have "is_ok (compute_depreciation a n prior)"
    using assms by (cases "as_method a") (auto simp: compute_depreciation_def asset_ok_def Let_def)
  then show thesis using that by (rule is_okE)
qed

subsection \<open>The schedule of an asset\<close>

text \<open>
  One run as an asset sees it: from the number of its entries and their sum to the next. The state
  does not move when the charge rounds to nothing.
\<close>

definition dep_step :: "asset \<Rightarrow> nat \<times> decimal \<Rightarrow> nat \<times> decimal" where
  "dep_step a s =
     (case compute_depreciation a (fst s + 1) (snd s) of
        Inl e \<Rightarrow> s
      | Inr x \<Rightarrow> if x \<le> 0 then s else (fst s + 1, snd s + x))"

definition schedule :: "asset \<Rightarrow> nat \<Rightarrow> nat \<times> decimal" where
  "schedule a k = (dep_step a ^^ k) (0, 0)"

definition position_ok :: "asset \<Rightarrow> nat \<times> decimal \<Rightarrow> bool" where
  "position_ok a s \<longleftrightarrow> 0 \<le> snd s \<and> snd s \<le> depreciable a \<and> on_grid (currency_decimals (as_currency a)) (snd s) \<and>
     (as_life a \<le> fst s \<and> 0 < fst s \<longrightarrow> snd s = depreciable a)"

lemma dep_step_ok:
  assumes "asset_ok a" "position_ok a s"
  shows "position_ok a (dep_step a s)" "snd s \<le> snd (dep_step a s)"
proof -
  obtain x where x: "compute_depreciation a (fst s + 1) (snd s) = Inr x"
    by (rule compute_depreciation_total [OF assms(1)])
  note B = compute_depreciation_bounds [OF assms(1) x]
  have p: "snd s \<le> depreciable a" "on_grid (currency_decimals (as_currency a)) (snd s)"
    using assms(2) by (simp_all add: position_ok_def)
  show "position_ok a (dep_step a s)" "snd s \<le> snd (dep_step a s)"
    using assms(2) x B [OF p] by (auto simp: position_ok_def dep_step_def intro: on_grid_add)
qed

lemma schedule_ok: "asset_ok a \<Longrightarrow> position_ok a (schedule a k)"
proof (induction k)
  case 0
  then show ?case using asset_ok_depreciable [OF 0] by (simp add: schedule_def position_ok_def)
next
  case (Suc k)
  then show ?case using dep_step_ok(1) by (simp add: schedule_def)
qed

text \<open>A straight-line asset of at least two minor units a month is charged every month.\<close>

definition minor :: "asset \<Rightarrow> decimal" where
  "minor a = 1 / 10 ^ currency_decimals (as_currency a)"

lemma minor_bounds: "1 / 10 ^ 6 \<le> minor a" "0 < minor a"
  unfolding minor_def
  by (intro divide_left_mono power_increasing) (auto simp: currency_decimals_le [unfolded MONEY_SCALE_def])

lemma drift_small: "asset_ok a \<Longrightarrow> depreciable a / 10 ^ 26 \<le> minor a / 4"
proof -
  assume ok: "asset_ok a"
  have "depreciable a / 10 ^ 26 \<le> 10 ^ 12 / 10 ^ 26"
    using asset_ok_depreciable(2) [OF ok] by (intro divide_right_mono) auto
  also have "\<dots> \<le> (1 / 10 ^ 6 / 4 :: rat)" by simp
  also have "\<dots> \<le> minor a / 4" using minor_bounds(1) by (rule divide_right_mono) simp
  finally show ?thesis .
qed

lemma straight_line_near:
  assumes "asset_ok a" "n \<le> as_life a"
  shows "straight_line a n \<le> depreciable a * of_nat n / of_nat (as_life a) + minor a / 4"
    and "depreciable a * of_nat n / of_nat (as_life a) - minor a / 4 \<le> straight_line a n"
  using straight_line_err [OF assms] drift_small [OF assms(1)] unfolding abs_le_iff by linarith+

lemma straight_line_gap:
  assumes ok: "asset_ok a" and two: "2 * of_nat (as_life a) * minor a \<le> depreciable a" and n: "n < as_life a"
  shows "straight_line a n + 3 / 2 * minor a \<le> straight_line a (Suc n)"
proof -
  let ?L = "of_nat (as_life a) :: rat"
  have L: "0 < ?L" using n by simp
  have "depreciable a * of_nat (Suc n) / ?L = depreciable a * of_nat n / ?L + depreciable a / ?L"
    by (simp add: ring_distribs add_divide_distrib)
  moreover have "2 * minor a \<le> depreciable a / ?L" using two L by (simp add: field_simps)
  ultimately show ?thesis
    using straight_line_near(1) [OF ok less_imp_le [OF n]] straight_line_near(2) [OF ok Suc_leI [OF n]] by linarith
qed

definition charged :: "asset \<Rightarrow> nat \<Rightarrow> decimal" where
  "charged a k = quantize_money (straight_line a k) (currency_decimals (as_currency a))"

lemma charged_near: "charged a k \<le> straight_line a k + minor a / 2" "straight_line a k - minor a / 2 \<le> charged a k"
proof -
  have "round_int ROUND_HALF_UP = round_half_up" by (rule ext) simp
  then have "\<bar>charged a k - straight_line a k\<bar> \<le> minor a / 2"
    using half_up.scale_round_half [of "currency_decimals (as_currency a)" "straight_line a k"]
    by (simp add: charged_def quantize_money_def quantize_def minor_def)
  then show "charged a k \<le> straight_line a k + minor a / 2" "straight_line a k - minor a / 2 \<le> charged a k"
    unfolding abs_le_iff by linarith+
qed

lemma straight_line_schedule:
  assumes ok: "asset_ok a" and m: "as_method a = STRAIGHT_LINE"
    and two: "2 * of_nat (as_life a) * minor a \<le> depreciable a" and k: "k < as_life a"
  shows "schedule a k = (k, charged a k)"
  using k
proof (induction k)
  case 0
  show ?case by (simp add: schedule_def charged_def straight_line_def ddiv_def quantize_money_def)
next
  case (Suc k)
  have IH: "schedule a k = (k, charged a k)" using Suc by simp
  have gap: "straight_line a k + 3 / 2 * minor a \<le> straight_line a (Suc k)" "straight_line a (Suc k) \<le> depreciable a"
    using straight_line_gap [OF ok two, of k] straight_line_le [OF ok Suc.prems] Suc.prems by simp_all
  have lt: "charged a k < charged a (Suc k)" "charged a k < depreciable a"
    using gap minor_bounds(2) [of a] charged_near [of a k] charged_near [of a "Suc k"] by linarith+
  then have "compute_depreciation a (Suc k) (charged a k) = Inr (charged a (Suc k) - charged a k)"
    using Suc.prems m asset_ok_depreciable(1) [OF ok]
    unfolding compute_depreciation_def Let_def straight_line_def [symmetric] charged_def [of a "Suc k", symmetric] by simp
  then show ?case using IH lt(1) by (simp add: schedule_def dep_step_def)
qed

lemma straight_line_completes:
  assumes ok: "asset_ok a" and m: "as_method a = STRAIGHT_LINE"
    and two: "2 * of_nat (as_life a) * minor a \<le> depreciable a" and k: "as_life a = Suc k"
  shows "schedule a (as_life a) = (as_life a, depreciable a)"
proof -
  have IH: "schedule a k = (k, charged a k)" by (rule straight_line_schedule [OF ok m two]) (simp add: k)
  have "straight_line a (Suc k) \<le> depreciable a + minor a / 4"
    using straight_line_near(1) [OF ok, of "Suc k"] k by simp
  then have lt: "charged a k < depreciable a"
    using straight_line_gap [OF ok two, of k] charged_near(1) [of a k] minor_bounds(2) [of a] k by linarith
  then have "compute_depreciation a (Suc k) (charged a k) = Inr (depreciable a - charged a k)"
    using m k asset_ok_depreciable(1) [OF ok] by (simp add: compute_depreciation_def)
  then show ?thesis using IH lt by (simp add: schedule_def dep_step_def k)
qed

lemma schedule_stays: "schedule a k = (n, depreciable a) \<Longrightarrow> schedule a (k + j) = (n, depreciable a)"
proof (induction j)
  case (Suc j)
  then show ?case by (simp add: schedule_def dep_step_def compute_depreciation_def)
qed simp


definition sample_asset :: "decimal \<Rightarrow> string \<Rightarrow> nat \<Rightarrow> asset" where
  "sample_asset cost cur life =
     \<lparr>as_id = 60, as_tenant = 1, as_document = 61, as_number = Some ''AST-2024-00001'', as_name = ''Press'', as_description = None,
      as_acquisition_date = Date 2024 3 1, as_cost = cost, as_salvage = 0, as_life = life, as_method = STRAIGHT_LINE,
      as_rate_percent = None, as_status = ASSET_ACTIVE, as_account = 20, as_accumulated_account = 30, as_expense_account = 10,
      as_cost_center = None, as_currency = cur, as_capitalized_entry = None\<rparr>"

lemma usd_decimals: "currency_decimals ''USD'' = 2"
  by (simp add: currency_decimals_def CURRENCY_DECIMALS_def upper_char_def)

lemma sample_asset_ok: "asset_ok (sample_asset 1000 ''USD'' 3)"
  by (simp add: asset_ok_def sample_asset_def depreciable_def on_grid_def usd_decimals)


text \<open>
  A charge that rounds to nothing writes no entry, so the position in the schedule does not advance and
  the next run computes the same charge: the asset stays where it is for ever.
\<close>

lemma stalled_schedule:
  assumes "schedule a k = (n, x)" and "compute_depreciation a (n + 1) x = Inr 0"
  shows "schedule a (k + j) = (n, x)"
proof (induction j)
  case (Suc j)
  then show ?case using assms(2) by (simp add: schedule_def dep_step_def)
qed (simp add: assms(1))

text \<open>A hundred yen over twenty years: the first month is 0.41 yen.\<close>

lemma small_asset_stalls: "schedule (sample_asset 100 ''JPY'' 240) k = (0, 0)"
proof -
  let ?a = "sample_asset 100 ''JPY'' 240"
  have d: "currency_decimals ''JPY'' = 0" by (simp add: currency_decimals_def CURRENCY_DECIMALS_def upper_char_def)
  have ok: "asset_ok ?a" by (simp add: asset_ok_def sample_asset_def depreciable_def on_grid_def d)
  have "straight_line ?a 1 \<le> 100 / 240 + 100 / 10 ^ 26"
    using straight_line_err [OF ok, of 1] unfolding abs_le_iff by (simp add: sample_asset_def depreciable_def)
  moreover have "0 \<le> straight_line ?a 1"
    unfolding straight_line_def by (intro ddiv_nonneg dmul_nonneg) (auto simp: sample_asset_def depreciable_def)
  ultimately have "quantize ROUND_HALF_UP 0 (straight_line ?a 1) = 0"
    by (intro quantize_half_up_near) (auto simp: abs_less_iff)
  then have "compute_depreciation ?a 1 0 = Inr 0"
    unfolding compute_depreciation_def straight_line_def [symmetric] Let_def
    by (simp add: sample_asset_def depreciable_def straight_line_def quantize_money_def d)
  then show ?thesis using stalled_schedule [of ?a 0 0 0 k] by (simp add: schedule_def)
qed

end
