(* ===== verification/Asset_Runs.thy ===== *)
theory Asset_Runs
  imports Depreciation
begin

text \<open>
  The depreciation run on the database: what it books and writes, and the invariant of the asset
  register under every operation of assets and journal.
\<close>

subsection \<open>The loop over the assets\<close>

definition charge :: "depreciation_entry list \<Rightarrow> uuid \<Rightarrow> asset \<Rightarrow> decimal" where
  "charge E t a =
     (case compute_depreciation a (length (asset_entries E t (as_id a)) + 1) (accumulated E t (as_id a)) of
        Inl _ \<Rightarrow> 0 | Inr x \<Rightarrow> x)"

definition chargeable :: "depreciation_entry list \<Rightarrow> uuid \<Rightarrow> asset list \<Rightarrow> asset list" where
  "chargeable E t as = filter (\<lambda>a. 0 < charge E t a) as"

definition dep_row :: "depreciation_entry list \<Rightarrow> uuid \<Rightarrow> uuid \<Rightarrow> asset \<Rightarrow> depreciation_entry" where
  "dep_row E t pid a = \<lparr>de_id = 0, de_tenant = t, de_run = 0, de_asset = as_id a, de_period = pid,
     de_amount = charge E t a, de_accumulated_after = accumulated E t (as_id a) + charge E t a,
     de_nbv_after = as_cost a - (accumulated E t (as_id a) + charge E t a)\<rparr>"

definition completes :: "depreciation_entry list \<Rightarrow> uuid \<Rightarrow> asset \<Rightarrow> bool" where
  "completes E t a \<longleftrightarrow> as_cost a - (accumulated E t (as_id a) + charge E t a) = as_salvage a"

lemma charge_compute:
  assumes "asset_ok a"
  shows "compute_depreciation a (length (asset_entries E t (as_id a)) + 1) (accumulated E t (as_id a)) = Inr (charge E t a)"
  using compute_depreciation_total [OF assms] unfolding charge_def by (metis sum.simps(6))

lemma depreciate_fold:
  assumes "\<forall>a \<in> set as. asset_ok a"
  shows "fold_result (depreciate_asset E t pid) as acc =
    Inr \<lparr>da_rows = da_rows acc @ map (dep_row E t pid) (chargeable E t as),
      da_debits = fold (\<lambda>a. dict_add (as_expense_account a, as_cost_center a) (charge E t a)) (chargeable E t as) (da_debits acc),
      da_credits = fold (\<lambda>a. dict_add (as_accumulated_account a) (charge E t a)) (chargeable E t as) (da_credits acc),
      da_flipped = da_flipped acc @ filter (completes E t) (chargeable E t as),
      da_total = da_total acc + sum_list (map (charge E t) (chargeable E t as))\<rparr>"
  using assms
proof (induction as arbitrary: acc)
  case (Cons a as)
  then have "asset_ok a" by simp
  from charge_compute [OF this, of E t] Cons show ?case
    by (simp add: depreciate_asset_def chargeable_def Let_def dep_row_def completes_def not_less)
qed (simp add: chargeable_def)

subsection \<open>The grouped lines\<close>

text \<open>What the lines of an entry make of one account, debit less credit.\<close>

definition view_net :: "uuid \<Rightarrow> (uuid \<times> decimal \<times> decimal \<times> uuid option) list \<Rightarrow> decimal" where
  "view_net b vs = sum_list (map (\<lambda>(a, d, c, _). if a = b then d - c else 0) vs)"

lemma view_net_mset: "mset vs = mset ws \<Longrightarrow> view_net b vs = view_net b ws"
  unfolding view_net_def by (rule sum_list_mset)

lemma sum_dict_add:
  "sum_list (map (\<lambda>(k, y). if P k then y else 0) (dict_add k x d)) =
   sum_list (map (\<lambda>(k, y). if P k then y else 0) d) + (if P k then x else (0 :: rat))"
  by (induction k x d rule: dict_add.induct) (auto simp: ac_simps)

lemma sum_fold_dict_add:
  "sum_list (map (\<lambda>(k, y). if P k then y else 0) (fold (\<lambda>a. dict_add (f a) (g a)) as d)) =
   sum_list (map (\<lambda>(k, y). if P k then y else 0) d) + sum_list (map (\<lambda>a. if P (f a) then g a else (0 :: rat)) as)"
  by (induction as arbitrary: d) (simp_all add: sum_dict_add)

lemma dict_add_grid: "x \<in> snd ` set (dict_add k v d) \<Longrightarrow> on_grid p v \<Longrightarrow> \<forall>y \<in> snd ` set d. on_grid p y \<Longrightarrow> on_grid p x"
  by (induction k v d rule: dict_add.induct) (auto intro: on_grid_add split: if_splits)

lemma fold_dict_add_grid:
  "x \<in> snd ` set (fold (\<lambda>a. dict_add (f a) (g a)) as d) \<Longrightarrow> \<forall>a \<in> set as. on_grid p (g a) \<Longrightarrow>
   \<forall>y \<in> snd ` set d. on_grid p y \<Longrightarrow> on_grid p x"
proof (induction as arbitrary: d)
  case (Cons a as)
  have "\<forall>y \<in> snd ` set (dict_add (f a) (g a) d). on_grid p y" using dict_add_grid Cons.prems(2,3) by fastforce
  with Cons show ?case by simp
qed auto

lemma grouped_lines_net:
  assumes "\<forall>x \<in> snd ` set debits. on_grid MONEY_SCALE x" "\<forall>x \<in> snd ` set credits. on_grid MONEY_SCALE x"
  shows "view_net b (map payload_view (grouped_lines debits credits)) =
    sum_list (map (\<lambda>(k, y). if fst k = b then y else 0) debits) - sum_list (map (\<lambda>(k, y). if k = b then y else 0) credits)"
proof -
  let ?D = "sort_key (\<lambda>p. fst (fst p)) (sort_key (\<lambda>p. case snd (fst p) of None \<Rightarrow> 0 | Some c \<Rightarrow> Suc c) debits)"
  let ?C = "sort_key fst credits"
  have "view_net b (map payload_view (grouped_lines debits credits)) =
      sum_list (map (\<lambda>(k, y). if fst k = b then store_money y else 0) ?D) -
      sum_list (map (\<lambda>(k, y). if k = b then store_money y else 0) ?C)"
    unfolding view_net_def grouped_lines_def
    by (simp add: payload_view_def line_for_def o_def split_def if_distrib uminus_sum_list_map flip: sum_list_addf cong: if_cong)
  also have "sum_list (map (\<lambda>(k, y). if fst k = b then store_money y else 0) ?D) =
      sum_list (map (\<lambda>(k, y). if fst k = b then store_money y else 0) debits)"
    by (rule sum_list_mset) simp
  also have "sum_list (map (\<lambda>(k, y). if k = b then store_money y else 0) ?C) =
      sum_list (map (\<lambda>(k, y). if k = b then store_money y else 0) credits)"
    by (rule sum_list_mset) simp
  also have "map (\<lambda>(k, y). if fst k = b then store_money y else 0) debits = map (\<lambda>(k, y). if fst k = b then y else 0) debits"
    using assms(1) by (auto simp: store_money_grid)
  also have "map (\<lambda>(k, y). if k = b then store_money y else 0) credits = map (\<lambda>(k, y). if k = b then y else 0) credits"
    using assms(2) by (auto simp: store_money_grid)
  finally show ?thesis .
qed

subsection \<open>Frames\<close>

lemma fa_frame_fin:
  fixes db db' :: "'m fa_db_scheme"
  assumes "fin_db.more db' = fin_db.more db"
  shows "fixed_assets db' = fixed_assets db" "depreciation_runs db' = depreciation_runs db"
    "depreciation_entries db' = depreciation_entries db"
proof -
  note eq = fin_more_update [OF assms]
  show "fixed_assets db' = fixed_assets db" using arg_cong [OF eq, of fixed_assets] by simp
  show "depreciation_runs db' = depreciation_runs db" using arg_cong [OF eq, of depreciation_runs] by simp
  show "depreciation_entries db' = depreciation_entries db" using arg_cong [OF eq, of depreciation_entries] by simp
qed

lemmas fa_frame = fa_frame_fin [OF fin_frame(8)]

definition numbered_entries :: "uuid \<Rightarrow> nat \<Rightarrow> depreciation_entry list \<Rightarrow> depreciation_entry list" where
  "numbered_entries r k rows = map (\<lambda>(i, e). stored_dep_entry (e\<lparr>de_id := i, de_run := r\<rparr>)) (zip [k..<k + length rows] rows)"

definition entry_key :: "depreciation_entry \<Rightarrow> uuid \<times> uuid \<times> uuid" where
  "entry_key e = (de_tenant e, de_asset e, de_period e)"

lemma insert_dep_entries:
  assumes "fold_result (insert_dep_entry r) rows db = Inr db'"
  shows "db' = db\<lparr>uuid_supply := uuid_supply db + length rows,
      depreciation_entries := depreciation_entries db @ numbered_entries r (uuid_supply db) rows\<rparr>"
    and "distinct (map entry_key (depreciation_entries db)) \<Longrightarrow> distinct (map entry_key (depreciation_entries db'))"
proof -
  have "db' = db\<lparr>uuid_supply := uuid_supply db + length rows,
      depreciation_entries := depreciation_entries db @ numbered_entries r (uuid_supply db) rows\<rparr> \<and>
      (distinct (map entry_key (depreciation_entries db)) \<longrightarrow> distinct (map entry_key (depreciation_entries db')))"
    using assms
  proof (induction rows arbitrary: db)
    case (Cons e rows)
    then obtain db1 where s: "insert_dep_entry r e db = Inr db1" and rest: "fold_result (insert_dep_entry r) rows db1 = Inr db'"
      by auto
    have db1: "db1 = db\<lparr>uuid_supply := Suc (uuid_supply db), depreciation_entries := depreciation_entries db @
        [stored_dep_entry (e\<lparr>de_id := uuid_supply db, de_run := r\<rparr>)]\<rparr>"
      and new: "\<not> (\<exists>f \<in> set (depreciation_entries db). de_tenant f = de_tenant e \<and> de_asset f = de_asset e \<and> de_period f = de_period e)"
      using s by (auto simp: insert_dep_entry_def uuid4_def split: if_splits)
    have "distinct (map entry_key (depreciation_entries db1))" if "distinct (map entry_key (depreciation_entries db))"
      using that new by (auto simp: db1 entry_key_def stored_dep_entry_def)
    then have "distinct (map entry_key (depreciation_entries db)) \<longrightarrow> distinct (map entry_key (depreciation_entries db'))"
      using Cons.IH [OF rest] by blast
    moreover have "db' = db\<lparr>uuid_supply := uuid_supply db + length (e # rows),
        depreciation_entries := depreciation_entries db @ numbered_entries r (uuid_supply db) (e # rows)\<rparr>"
      using Cons.IH [OF rest, THEN conjunct1] by (simp add: db1 numbered_entries_def upt_conv_Cons del: upt_Suc)
    ultimately show ?case by blast
  qed (simp add: numbered_entries_def)
  then show "db' = db\<lparr>uuid_supply := uuid_supply db + length rows,
      depreciation_entries := depreciation_entries db @ numbered_entries r (uuid_supply db) rows\<rparr>"
    "distinct (map entry_key (depreciation_entries db)) \<Longrightarrow> distinct (map entry_key (depreciation_entries db'))" by blast+
qed

lemma map_numbered_entries:
  assumes "\<And>i e. e \<in> set rows \<Longrightarrow> g (stored_dep_entry (e\<lparr>de_id := i, de_run := r\<rparr>)) = h e"
  shows "map g (numbered_entries r k rows) = map h rows"
proof -
  have "map g (numbered_entries r k rows) = map (h \<circ> snd) (zip [k..<k + length rows] rows)"
    using assms by (auto simp: numbered_entries_def dest: set_zip_rightD)
  also have "\<dots> = map h rows" by (simp flip: map_map)
  finally show ?thesis .
qed

lemma flip_assets:
  fixes db db' :: "'m fa_db_scheme"
  assumes "fold_result (flip_asset t) fl db = Inr db'"
  shows "core_db.more db' = core_db.more (db\<lparr>fixed_assets :=
      map (\<lambda>a. if as_id a \<in> as_id ` set fl then a\<lparr>as_status := ASSET_FULLY_DEPRECIATED\<rparr> else a) (fixed_assets db)\<rparr>)"
    and "uuid_supply db' = uuid_supply db"
proof -
  have "core_db.more db' = core_db.more (db\<lparr>fixed_assets :=
      map (\<lambda>a. if as_id a \<in> as_id ` set fl then a\<lparr>as_status := ASSET_FULLY_DEPRECIATED\<rparr> else a) (fixed_assets db)\<rparr>) \<and>
      uuid_supply db' = uuid_supply db"
    using assms
  proof (induction fl arbitrary: db)
    case (Cons a fl)
    then obtain db1 where s: "flip_asset t a db = Inr db1" and rest: "fold_result (flip_asset t) fl db1 = Inr db'" by auto
    define db0 where "db0 = db\<lparr>fixed_assets := upd_rows (\<lambda>b. as_id b = as_id a)
      (\<lambda>b. b\<lparr>as_status := ASSET_FULLY_DEPRECIATED\<rparr>) (fixed_assets db)\<rparr>"
    note S = set_document_status_frame [OF s [unfolded flip_asset_def], folded db0_def]
    have fa: "fixed_assets db1 = fixed_assets db0" using fa_frame(1) [OF S(1)] by simp
    have upd: "core_db.more (db1\<lparr>fixed_assets := xs\<rparr>) = core_db.more (db0\<lparr>fixed_assets := xs\<rparr>)" for xs
      using S(1) by (cases db0; cases db1) simp
    have "map (\<lambda>a. if as_id a \<in> as_id ` set fl then a\<lparr>as_status := ASSET_FULLY_DEPRECIATED\<rparr> else a) (fixed_assets db0) =
        map (\<lambda>b. if as_id b \<in> as_id ` set (a # fl) then b\<lparr>as_status := ASSET_FULLY_DEPRECIATED\<rparr> else b) (fixed_assets db)"
      by (simp add: db0_def upd_rows_def)
    then show ?case using Cons.IH [OF rest] S(2) by (simp add: fa upd) (simp add: db0_def)
  qed simp
  then show "core_db.more db' = core_db.more (db\<lparr>fixed_assets :=
      map (\<lambda>a. if as_id a \<in> as_id ` set fl then a\<lparr>as_status := ASSET_FULLY_DEPRECIATED\<rparr> else a) (fixed_assets db)\<rparr>)"
    "uuid_supply db' = uuid_supply db" by blast+
qed

lemma track_run_Inr:
  fixes db db' :: "'m fa_db_scheme"
  assumes "track_run db t pid d e tot n = Inr (r, db')"
  shows "core_db.more db' = core_db.more (db\<lparr>depreciation_runs := depreciation_runs db @ [r\<lparr>dr_total := store_money tot\<rparr>]\<rparr>)"
    and "uuid_supply db \<le> uuid_supply db'" and "dr_tenant r = t" "dr_period r = pid" "dr_status r = DEP_POSTED"
    "dr_entry r = Some e" "dr_total r = tot" "dr_asset_count r = n" "dr_date r = d" "dr_number r \<noteq> None"
proof -
  from assms obtain doc db2 s db3 num db4 where
    reg: "register_document (db\<lparr>uuid_supply := Suc (uuid_supply db)\<rparr>) t DEPRECIATION_RUN_DOC_TYPE (uuid_supply db) None (Some ''POSTED'') = Inr (doc, db2)"
    and es: "ensure_sequence db2 t DEPRECIATION_SEQUENCE_NAME DEPRECIATION_NUMBER_PREFIX DEPRECIATION_NUMBER_PADDING True = Inr (s, db3)"
    and cl: "claim_number db3 t DEPRECIATION_SEQUENCE_NAME d = Inr (num, db4)"
    and r: "r = \<lparr>dr_id = uuid_supply db, dr_tenant = t, dr_document = doc_pk doc, dr_period = pid,
            dr_number = Some num, dr_date = d, dr_status = DEP_POSTED, dr_entry = Some e,
            dr_total = tot, dr_asset_count = n\<rparr>"
    and sd: "set_document_status (db4\<lparr>depreciation_runs := depreciation_runs db4 @ [r\<lparr>dr_total := store_money tot\<rparr>]\<rparr>) t
      (doc_pk doc) (Some ''POSTED'') (Some num) = Inr db'"
    unfolding track_run_def uuid4_def Let_def by (auto elim!: bindr_InrE)
  have m2: "core_db.more db2 = core_db.more db" "uuid_supply db \<le> uuid_supply db2"
    using register_document_Inr(2) [OF reg] by simp_all
  note E = ensure_sequence_frame(1,2) [OF es] and C = claim_number_frame(7,8) [OF cl] and S = set_document_status_frame(1,2) [OF sd]
  have m4: "core_db.more db4 = core_db.more db" using m2 E C by simp
  then have "depreciation_runs db4 = depreciation_runs db" by (rule fa_frame(2))
  then show "core_db.more db' = core_db.more (db\<lparr>depreciation_runs := depreciation_runs db @ [r\<lparr>dr_total := store_money tot\<rparr>]\<rparr>)"
    using S(1) m4 by (cases db; cases db4) simp
  show "uuid_supply db \<le> uuid_supply db'" using m2 E C S by simp
  show "dr_tenant r = t" "dr_period r = pid" "dr_status r = DEP_POSTED"
    "dr_entry r = Some e" "dr_total r = tot" "dr_asset_count r = n" "dr_date r = d" "dr_number r \<noteq> None"
    by (simp_all add: r)
qed

subsection \<open>The invariant of the register\<close>

text \<open>
  The entries of an asset never sum to more than its cost less its salvage; a draft has none, an
  active asset is not done, and a fully depreciated one has reached the sum exactly.
\<close>

definition asset_state :: "depreciation_entry list \<Rightarrow> asset \<Rightarrow> bool" where
  "asset_state E a \<longleftrightarrow>
     (let s = accumulated E (as_tenant a) (as_id a) in
      0 \<le> s \<and> s \<le> depreciable a \<and> on_grid (currency_decimals (as_currency a)) s \<and>
      (case as_status a of
         ASSET_DRAFT \<Rightarrow> asset_entries E (as_tenant a) (as_id a) = []
       | ASSET_ACTIVE \<Rightarrow> s < depreciable a
       | ASSET_FULLY_DEPRECIATED \<Rightarrow> s = depreciable a))"

definition fa_wf :: "'m fa_db_scheme \<Rightarrow> bool" where
  "fa_wf db \<longleftrightarrow> books_wf db \<and> distinct (map as_id (fixed_assets db)) \<and>
     (\<forall>a \<in> set (fixed_assets db). as_id a < uuid_supply db \<and> asset_ok a \<and> asset_state (depreciation_entries db) a) \<and>
     (\<forall>e \<in> set (depreciation_entries db). de_asset e < uuid_supply db) \<and>
     distinct (map entry_key (depreciation_entries db))"

lemma fa_wfD:
  assumes "fa_wf db"
  shows "books_wf db" "distinct (map as_id (fixed_assets db))"
    "\<And>a. a \<in> set (fixed_assets db) \<Longrightarrow> as_id a < uuid_supply db"
    "\<And>a. a \<in> set (fixed_assets db) \<Longrightarrow> asset_ok a"
    "\<And>a. a \<in> set (fixed_assets db) \<Longrightarrow> asset_state (depreciation_entries db) a"
    "\<And>e. e \<in> set (depreciation_entries db) \<Longrightarrow> de_asset e < uuid_supply db"
    "distinct (map entry_key (depreciation_entries db))"
  using assms unfolding fa_wf_def by blast+

lemma fa_wf_frame:
  assumes "fa_wf db" "books_wf db'" "fin_db.more db' = fin_db.more db" "uuid_supply db \<le> uuid_supply db'"
  shows "fa_wf db'"
  using assms(1,2,4) unfolding fa_wf_def fa_frame_fin [OF assms(3)] by (meson less_le_trans)

lemma charge_bounds:
  assumes ok: "asset_ok a" and st: "asset_state E a" and t: "as_tenant a = t"
  shows "0 \<le> charge E t a" "accumulated E t (as_id a) + charge E t a \<le> depreciable a"
    "on_grid (currency_decimals (as_currency a)) (charge E t a)" "on_grid MONEY_SCALE (charge E t a)"
    "completes E t a \<longleftrightarrow> accumulated E t (as_id a) + charge E t a = depreciable a"
proof -
  have p: "accumulated E t (as_id a) \<le> depreciable a" "on_grid (currency_decimals (as_currency a)) (accumulated E t (as_id a))"
    using st t by (auto simp: asset_state_def Let_def)
  note B = compute_depreciation_bounds [OF ok charge_compute [OF ok, of E t] p]
  show "0 \<le> charge E t a" "accumulated E t (as_id a) + charge E t a \<le> depreciable a"
    "on_grid (currency_decimals (as_currency a)) (charge E t a)" using B by simp_all
  then show "on_grid MONEY_SCALE (charge E t a)" by (rule_tac on_grid_mono) auto
  show "completes E t a \<longleftrightarrow> accumulated E t (as_id a) + charge E t a = depreciable a"
    by (auto simp: completes_def depreciable_def)
qed

text \<open>The entries of an asset after the rows of a run.\<close>

lemma accumulated_after_run:
  assumes d: "distinct (map as_id cs)" and g: "\<forall>c \<in> set cs. on_grid MONEY_SCALE (charge E t c)"
  shows "accumulated (E @ numbered_entries r k (map (dep_row E t pid) cs)) s i =
      accumulated E s i + (if s = t then sum_list (map (charge E t) (filter (\<lambda>c. as_id c = i) cs)) else 0)"
    and "asset_entries (E @ numbered_entries r k (map (dep_row E t pid) cs)) s i = [] \<longleftrightarrow>
      asset_entries E s i = [] \<and> (s = t \<longrightarrow> i \<notin> as_id ` set cs)"
proof -
  let ?N = "numbered_entries r k (map (dep_row E t pid) cs)"
  have N: "map (\<lambda>e. (de_tenant e, de_asset e, de_amount e)) ?N = map (\<lambda>c. (t, as_id c, charge E t c)) cs"
  proof -
    have "map (\<lambda>e. (de_tenant e, de_asset e, de_amount e)) ?N = map (\<lambda>e. (de_tenant e, de_asset e, de_amount e)) (map (dep_row E t pid) cs)"
      by (rule map_numbered_entries) (use g in \<open>auto simp: stored_dep_entry_def dep_row_def store_money_grid\<close>)
    then show ?thesis by (simp add: dep_row_def)
  qed
  have "sum_list (map de_amount (filter (\<lambda>e. de_tenant e = s \<and> de_asset e = i) ?N)) =
      sum_list (map (\<lambda>(a, b, x). x) (filter (\<lambda>(a, b, x). a = s \<and> b = i) (map (\<lambda>e. (de_tenant e, de_asset e, de_amount e)) ?N)))"
    by (simp add: filter_map o_def split_def)
  also have "\<dots> = (if s = t then sum_list (map (charge E t) (filter (\<lambda>c. as_id c = i) cs)) else 0)"
    unfolding N by (simp add: filter_map o_def)
  finally show "accumulated (E @ ?N) s i =
      accumulated E s i + (if s = t then sum_list (map (charge E t) (filter (\<lambda>c. as_id c = i) cs)) else 0)"
    by (simp add: accumulated_def asset_entries_def)
  have "(\<lambda>e. (de_tenant e, de_asset e)) ` set ?N = (\<lambda>c. (t, as_id c)) ` set cs"
    using arg_cong [OF N, of "\<lambda>xs. (\<lambda>(a, b, x). (a, b)) ` set xs"] by (simp add: image_image)
  then have "(s, i) \<in> (\<lambda>e. (de_tenant e, de_asset e)) ` set ?N \<longleftrightarrow> s = t \<and> i \<in> as_id ` set cs" by auto
  moreover have "(s, i) \<notin> (\<lambda>e. (de_tenant e, de_asset e)) ` set ?N \<longleftrightarrow> filter (\<lambda>e. de_tenant e = s \<and> de_asset e = i) ?N = []"
    unfolding filter_empty_conv image_iff by auto
  ultimately show "asset_entries (E @ ?N) s i = [] \<longleftrightarrow> asset_entries E s i = [] \<and> (s = t \<longrightarrow> i \<notin> as_id ` set cs)"
    unfolding asset_entries_def filter_append append_is_Nil_conv by blast
qed

lemma filter_id_unique:
  assumes "distinct (map as_id cs)"
  shows "filter (\<lambda>c. as_id c = i) cs = (case find_row as_id i cs of None \<Rightarrow> [] | Some c \<Rightarrow> [c])"
  using assms
proof (induction cs)
  case (Cons c cs)
  have "filter (\<lambda>c'. as_id c' = as_id c) cs = []" using Cons.prems by (simp add: filter_empty_conv) (metis imageI)
  with Cons show ?case by (auto split: option.splits)
qed simp

subsection \<open>One run\<close>

definition run_assets :: "'m fa_db_scheme \<Rightarrow> uuid \<Rightarrow> uuid \<Rightarrow> asset list" where
  "run_assets db t pid = sort_key (\<lambda>a. case as_number a of None \<Rightarrow> '''' | Some n \<Rightarrow> n) (eligible_assets db t pid)"

definition run_charged :: "'m fa_db_scheme \<Rightarrow> uuid \<Rightarrow> uuid \<Rightarrow> asset list" where
  "run_charged db t pid = chargeable (depreciation_entries db) t (run_assets db t pid)"

lemma run_assets_mem:
  "a \<in> set (run_assets db t pid) \<longleftrightarrow> a \<in> set (fixed_assets db) \<and> as_tenant a = t \<and> as_status a = ASSET_ACTIVE \<and>
     (\<forall>e \<in> set (depreciation_entries db). \<not> (de_tenant e = t \<and> de_asset e = as_id a \<and> de_period e = pid))"
  by (auto simp: run_assets_def eligible_assets_def)

lemma run_charged_distinct:
  assumes "distinct (map as_id (fixed_assets db))"
  shows "distinct (map as_id (run_charged db t pid))"
proof -
  have "distinct (map as_id (eligible_assets db t pid))" using assms by (simp add: eligible_assets_def distinct_map_filter)
  moreover have "mset (map as_id (run_assets db t pid)) = mset (map as_id (eligible_assets db t pid))"
    by (simp add: run_assets_def)
  ultimately have "distinct (map as_id (run_assets db t pid))" by (metis mset_eq_imp_distinct_iff)
  then show ?thesis by (simp add: run_charged_def chargeable_def distinct_map_filter)
qed

lemma run_depreciation_cases:
  fixes db db' :: "'m fa_db_scheme"
  assumes ok: "\<forall>a \<in> set (fixed_assets db). asset_ok a" and run: "run_depreciation db t pid d = Inr (r, db')"
  obtains (nothing) "run_charged db t pid = []" "db' = db" "existing_posted_run db t pid = Some r"
  | (booked) p c e db1 e' db2 db3 db4 k db5 where "require_open_period db t pid d = Inr p" "run_charged db t pid \<noteq> []"
      "\<forall>a \<in> set (run_charged db t pid). as_currency a = jec_currency c"
      "jec_posting_date c = d" "jec_document_type c = DEPRECIATION"
      "jec_lines c = grouped_lines
        (fold (\<lambda>a. dict_add (as_expense_account a, as_cost_center a) (charge (depreciation_entries db) t a)) (run_charged db t pid) [])
        (fold (\<lambda>a. dict_add (as_accumulated_account a) (charge (depreciation_entries db) t a)) (run_charged db t pid) [])"
      "create_draft_entry db t c None = Inr (e, db1)" "post_entry db1 t (je_id e) None False = Inr (e', db2)"
      "track_run db2 t pid d (je_id e) (sum_list (map (charge (depreciation_entries db) t) (run_charged db t pid)))
         (length (run_charged db t pid)) = Inr (r, db3)"
      "fold_result (insert_dep_entry (dr_id r)) (map (dep_row (depreciation_entries db) t pid) (run_charged db t pid)) db3 = Inr db4"
      "link_documents db4 t (dr_document r) (je_document e) (Some DEPRECIATION_POSTS_LINK) = Inr (k, db5)"
      "fold_result (flip_asset t) (filter (completes (depreciation_entries db) t) (run_charged db t pid)) db5 = Inr db'"
proof -
  have oks: "\<forall>a \<in> set (run_assets db t pid). asset_ok a" using ok by (simp add: run_assets_mem)
  note F = depreciate_fold [OF oks, of "depreciation_entries db" t pid empty_acc]
  have sub: "set (run_charged db t pid) \<subseteq> set (run_assets db t pid)" by (auto simp: run_charged_def chargeable_def)
  note R = run [unfolded run_depreciation_def, folded run_assets_def, unfolded Let_def]
  show thesis
  proof (cases "run_charged db t pid = []")
    case True
    then have "existing_posted_run db t pid = Some r \<and> db' = db"
      using R F unfolding run_charged_def
      by (auto simp: nothing_to_depreciate_def empty_acc_def elim!: bindr_InrE split: option.splits if_splits)
    then have x: "db' = db" "existing_posted_run db t pid = Some r" by simp_all
    show thesis by (rule that(1) [OF True x])
  next
    case False
    then have ne: "run_assets db t pid \<noteq> []" using sub by auto
    have nd: "\<not> (\<exists>a \<in> set (run_assets db t pid). as_currency a \<noteq> as_currency (hd (run_assets db t pid)))"
    proof
      assume "\<exists>a \<in> set (run_assets db t pid). as_currency a \<noteq> as_currency (hd (run_assets db t pid))"
      then show False using R by (elim bindr_InrE) (simp add: ne)
    qed
    then have cur: "\<forall>a \<in> set (run_assets db t pid). as_currency a = as_currency (hd (run_assets db t pid))" by blast
    let ?c = "\<lambda>p. \<lparr>jec_posting_date = d, jec_currency = as_currency (hd (run_assets db t pid)),
      jec_description = Some (''Depreciation '' @ period_name db p), jec_document_type = DEPRECIATION,
      jec_lines = grouped_lines
        (fold (\<lambda>a. dict_add (as_expense_account a, as_cost_center a) (charge (depreciation_entries db) t a)) (run_charged db t pid) [])
        (fold (\<lambda>a. dict_add (as_accumulated_account a) (charge (depreciation_entries db) t a)) (run_charged db t pid) [])\<rparr>"
    from R obtain p e db1 e' db2 db3 db4 k db5 where "require_open_period db t pid d = Inr p"
      "create_draft_entry db t (?c p) None = Inr (e, db1)" "post_entry db1 t (je_id e) None False = Inr (e', db2)"
      "track_run db2 t pid d (je_id e) (sum_list (map (charge (depreciation_entries db) t) (run_charged db t pid)))
         (length (run_charged db t pid)) = Inr (r, db3)"
      "fold_result (insert_dep_entry (dr_id r)) (map (dep_row (depreciation_entries db) t pid) (run_charged db t pid)) db3 = Inr db4"
      "link_documents db4 t (dr_document r) (je_document e) (Some DEPRECIATION_POSTS_LINK) = Inr (k, db5)"
      "fold_result (flip_asset t) (filter (completes (depreciation_entries db) t) (run_charged db t pid)) db5 = Inr db'"
      unfolding F run_charged_def [symmetric] by (clarsimp simp: ne nd False empty_acc_def elim!: bindr_InrE)
    then show thesis using sub cur by (intro that(2) [of p "?c p" e db1 e' db2 db3 db4 k db5] False) auto
  qed
qed

lemma run_charged_props:
  assumes wf: "fa_wf db" and a: "a \<in> set (run_charged db t pid)"
  shows "a \<in> set (fixed_assets db)" "as_tenant a = t" "as_status a = ASSET_ACTIVE" "0 < charge (depreciation_entries db) t a"
    "on_grid MONEY_SCALE (charge (depreciation_entries db) t a)"
proof -
  have m: "a \<in> set (run_assets db t pid)" "0 < charge (depreciation_entries db) t a"
    using a by (auto simp: run_charged_def chargeable_def)
  then show "a \<in> set (fixed_assets db)" "as_tenant a = t" "as_status a = ASSET_ACTIVE" "0 < charge (depreciation_entries db) t a"
    by (auto simp: run_assets_mem)
  then show "on_grid MONEY_SCALE (charge (depreciation_entries db) t a)"
    using charge_bounds(4) fa_wfD(4,5) [OF wf] by blast
qed

text \<open>The state of one asset of the register after a run.\<close>

lemma asset_state_after_run:
  fixes t pid :: uuid
  assumes wf: "fa_wf db" and a: "a \<in> set (fixed_assets db)"
  defines "cs \<equiv> run_charged db t pid" and "E \<equiv> depreciation_entries db"
  defines "a' \<equiv> (if as_id a \<in> as_id ` set (filter (completes E t) cs) then a\<lparr>as_status := ASSET_FULLY_DEPRECIATED\<rparr> else a)"
  shows "asset_state (E @ numbered_entries r k (map (dep_row E t pid) cs)) a'"
proof -
  note W = fa_wfD [OF wf]
  have d: "distinct (map as_id cs)" unfolding cs_def by (rule run_charged_distinct [OF W(2)])
  have g: "\<forall>c \<in> set cs. on_grid MONEY_SCALE (charge E t c)" using run_charged_props(5) [OF wf] by (simp add: cs_def E_def)
  note A = accumulated_after_run [OF d g, of r k pid]
  have same: "a' = a\<lparr>as_status := as_status a'\<rparr>" by (simp add: a'_def)
  have eq: "c = a" if "c \<in> set cs" "as_id c = as_id a" for c
    using that run_charged_props(1) [OF wf] a W(2) unfolding cs_def by (metis distinct_map inj_onD)
  show ?thesis
  proof (cases "a \<in> set cs")
    case True
    have t: "as_tenant a = t" "as_status a = ASSET_ACTIVE" using run_charged_props(2,3) [OF wf] True by (simp_all add: cs_def)
    have "find_row as_id (as_id a) cs = Some a" by (rule find_row_distinct [OF d True])
    then have acc: "accumulated (E @ numbered_entries r k (map (dep_row E t pid) cs)) t (as_id a) = accumulated E t (as_id a) + charge E t a"
      using A(1) [of t "as_id a"] filter_id_unique [OF d, of "as_id a"] by simp
    note C = charge_bounds [OF W(4,5) [OF a] t(1), folded E_def]
    have "as_id a \<in> as_id ` set (filter (completes E t) cs) \<longleftrightarrow> completes E t a"
      using True by (auto simp: image_iff dest: eq)
    moreover have "0 \<le> accumulated E t (as_id a)" "on_grid (currency_decimals (as_currency a)) (accumulated E t (as_id a))"
      using W(5) [OF a] t by (simp_all add: asset_state_def Let_def E_def)
    ultimately show ?thesis
      using C t acc asset_ok_depreciable(3) [OF W(4) [OF a]]
      by (auto simp: asset_state_def a'_def Let_def depreciable_def intro: on_grid_add)
  next
    case False
    then have no: "as_id a \<notin> as_id ` set cs" using eq by auto
    then have a': "a' = a" by (auto simp: a'_def)
    have "filter (\<lambda>c. as_id c = as_id a) cs = []" using no by (simp add: filter_empty_conv) (metis imageI)
    then have "accumulated (E @ numbered_entries r k (map (dep_row E t pid) cs)) (as_tenant a) (as_id a) = accumulated E (as_tenant a) (as_id a)"
      using A(1) [of "as_tenant a" "as_id a"] by simp
    moreover have "asset_entries (E @ numbered_entries r k (map (dep_row E t pid) cs)) (as_tenant a) (as_id a) = [] \<longleftrightarrow>
        asset_entries E (as_tenant a) (as_id a) = []"
      using A(2) [of "as_tenant a" "as_id a"] no by blast
    ultimately show ?thesis using W(5) [OF a] unfolding a' by (simp add: asset_state_def Let_def E_def split: asset_status.splits)
  qed
qed

definition flipped_assets :: "'m fa_db_scheme \<Rightarrow> uuid \<Rightarrow> uuid \<Rightarrow> asset list" where
  "flipped_assets db t pid =
     map (\<lambda>a. if as_id a \<in> as_id ` set (filter (completes (depreciation_entries db) t) (run_charged db t pid))
              then a\<lparr>as_status := ASSET_FULLY_DEPRECIATED\<rparr> else a) (fixed_assets db)"

text \<open>
  What a run books: one posted entry in the assets' currency whose net on every account is the sum of
  the charges on it, the run row with their total, and one depreciation entry per charged asset.
\<close>

definition run_booked :: "'m fa_db_scheme \<Rightarrow> 'm fa_db_scheme \<Rightarrow> uuid \<Rightarrow> uuid \<Rightarrow> date \<Rightarrow> depreciation_run \<Rightarrow> bool" where
  "run_booked db db' t pid d r \<longleftrightarrow>
     (let cs = run_charged db t pid; x = charge (depreciation_entries db) t in
      (\<exists>e :: journal_entry. journal_entries db' = journal_entries db @ [e] \<and> dr_entry r = Some (je_id e) \<and> je_status e = POSTED \<and>
         je_document_type e = DEPRECIATION \<and> je_tenant e = t \<and> je_posting_date e = d \<and> entry_balanced (entry_lines db' (je_id e)) \<and>
         (\<forall>c \<in> set cs. as_currency c = je_currency e) \<and>
         (\<forall>b. view_net b (map side_view (entry_lines db' (je_id e))) =
            sum_list (map (\<lambda>a. if as_expense_account a = b then x a else 0) cs) -
            sum_list (map (\<lambda>a. if as_accumulated_account a = b then x a else 0) cs)) \<and>
         mset (posted_lines db') = mset (posted_lines db) + mset (entry_lines db' (je_id e))) \<and>
      dr_total r = sum_list (map x cs) \<and> dr_asset_count r = length cs \<and>
      (\<exists>new. depreciation_entries db' = depreciation_entries db @ new \<and>
         map (\<lambda>e. (de_tenant e, de_asset e, de_period e, de_run e, de_amount e)) new = map (\<lambda>a. (t, as_id a, pid, dr_id r, x a)) cs) \<and>
      fixed_assets db' = flipped_assets db t pid)"

lemma run_depreciation_effect:
  fixes db db' :: "'m fa_db_scheme"
  assumes wf: "fa_wf db" and run: "run_depreciation db t pid d = Inr (r, db')" and ne: "run_charged db t pid \<noteq> []"
  shows "fa_wf db'" and "run_booked db db' t pid d r"
proof -
  note W = fa_wfD [OF wf]
  let ?cs = "run_charged db t pid" and ?E = "depreciation_entries db" and ?x = "charge (depreciation_entries db) t"
  let ?rows = "map (dep_row ?E t pid) ?cs"
  have "\<forall>a \<in> set (fixed_assets db). asset_ok a" using W(4) by blast
  from this run have "fa_wf db' \<and> run_booked db db' t pid d r"
  proof (cases rule: run_depreciation_cases)
    case nothing
    then show ?thesis using ne by simp
  next
    case (booked p c e db1 e' db2 db3 db4 k db5)
    note B = booking_effect [OF W(1) booked(7,8)] and T = track_run_Inr [OF booked(9)]
    note I = insert_dep_entries [OF booked(10)] and K = link_documents_frame(1,2) [OF booked(11)] and F = flip_assets [OF booked(12)]
    have f2: "fixed_assets db2 = fixed_assets db" "depreciation_entries db2 = ?E" using fa_frame_fin [OF B(2)] by simp_all
    have f3: "fixed_assets db3 = fixed_assets db" "depreciation_entries db3 = ?E" "journal_entries db3 = journal_entries db2"
      "journal_lines db3 = journal_lines db2"
      using fa_frame [OF T(1)] fin_frame(6,7) [OF T(1)] f2 by simp_all
    define new where "new = numbered_entries (dr_id r) (uuid_supply db3) ?rows"
    have f5: "fixed_assets db5 = fixed_assets db" "depreciation_entries db5 = ?E @ new" "journal_entries db5 = journal_entries db2"
      "journal_lines db5 = journal_lines db2"
      using fa_frame [OF K(1)] fin_frame(6,7) [OF K(1)] f3 unfolding I(1) new_def by simp_all
    have f': "fixed_assets db' = flipped_assets db t pid" "depreciation_entries db' = ?E @ new"
      "journal_entries db' = journal_entries db2" "journal_lines db' = journal_lines db2"
      using fa_frame [OF F(1)] fin_frame(6,7) [OF F(1)] f5 by (simp_all add: flipped_assets_def)
    have len: "uuid_supply db4 = uuid_supply db3 + length ?rows" by (simp add: I(1))
    have u: "uuid_supply db \<le> uuid_supply db'" "uuid_supply db2 \<le> uuid_supply db'" using B(3) T(2) K(2) F(2) len by simp_all
    have bk: "books_wf db'" using B(1) by (rule books_wf_frame) (simp add: f' u)
    have L: "entry_lines db' j = entry_lines db2 j" "posted_lines db' = posted_lines db2" for j
      by (simp_all add: entry_lines_def posted_lines_def f')
    have cs: "a \<in> set (fixed_assets db)" "as_tenant a = t" "on_grid MONEY_SCALE (?x a)" if "a \<in> set ?cs" for a
      using run_charged_props [OF wf that] by simp_all
    have new: "map (\<lambda>e. (de_tenant e, de_asset e, de_period e, de_run e, de_amount e)) new =
        map (\<lambda>a. (t, as_id a, pid, dr_id r, ?x a)) ?cs"
    proof -
      have "map (\<lambda>e. (de_tenant e, de_asset e, de_period e, de_run e, de_amount e)) new =
          map (\<lambda>e. (de_tenant e, de_asset e, de_period e, dr_id r, de_amount e)) ?rows"
        unfolding new_def
        by (rule map_numbered_entries) (use cs(3) in \<open>auto simp: stored_dep_entry_def dep_row_def store_money_grid\<close>)
      then show ?thesis by (simp add: dep_row_def)
    qed
    have net: "view_net b (map side_view (entry_lines db2 (je_id e'))) =
        sum_list (map (\<lambda>a. if as_expense_account a = b then ?x a else 0) ?cs) -
        sum_list (map (\<lambda>a. if as_accumulated_account a = b then ?x a else 0) ?cs)" for b
    proof -
      have "view_net b (map side_view (entry_lines db2 (je_id e'))) = view_net b (map payload_view (jec_lines c))"
        by (rule view_net_mset) (rule B(15))
      also have "\<dots> = sum_list (map (\<lambda>a. if as_expense_account a = b then ?x a else 0) ?cs) -
        sum_list (map (\<lambda>a. if as_accumulated_account a = b then ?x a else 0) ?cs)"
        unfolding booked(6) using cs(3)
        by (subst grouped_lines_net) (auto simp: sum_fold_dict_add intro: fold_dict_add_grid [where d = "[]"])
      finally show ?thesis .
    qed
    have "run_booked db db' t pid d r"
      unfolding run_booked_def Let_def f' L
      by (intro conjI exI [of _ e'] exI [of _ new] B(4,5,13,14) allI net new refl) (use B(7-11) booked(3-5) T(6-8) in simp_all)
    moreover have "fa_wf db'"
    proof -
      have ids: "map as_id (fixed_assets db') = map as_id (fixed_assets db)" by (simp add: f' flipped_assets_def)
      have "as_id a < uuid_supply db' \<and> asset_ok a \<and> asset_state (depreciation_entries db') a" if "a \<in> set (fixed_assets db')" for a
      proof -
        from that obtain a0 where a0: "a0 \<in> set (fixed_assets db)"
          "a = (if as_id a0 \<in> as_id ` set (filter (completes ?E t) ?cs) then a0\<lparr>as_status := ASSET_FULLY_DEPRECIATED\<rparr> else a0)"
          by (auto simp: f' flipped_assets_def)
        have "asset_ok a" "as_id a = as_id a0" using W(4) [OF a0(1)] a0(2) by (auto simp: asset_ok_def depreciable_def)
        moreover have "asset_state (depreciation_entries db') a"
          using asset_state_after_run [OF wf a0(1), where r = "dr_id r" and k = "uuid_supply db3" and t = t and pid = pid]
          unfolding f' a0(2) new_def .
        ultimately show ?thesis using W(3) [OF a0(1)] u(1) by simp
      qed
      moreover have "de_asset x < uuid_supply db'" if "x \<in> set (depreciation_entries db')" for x
      proof -
        have "(\<lambda>e. de_asset e) ` set new = as_id ` set ?cs"
          using arg_cong [OF new, of "\<lambda>xs. (\<lambda>(a, b, c). b) ` set xs"] by (simp add: image_image)
        then have "de_asset x \<in> as_id ` set (fixed_assets db)" if "x \<in> set new" using cs(1) that by auto
        then show ?thesis using that W(3,6) u(1) unfolding f' by fastforce
      qed
      moreover have "distinct (map entry_key (depreciation_entries db'))"
        using I(2) W(7) f3(2) f'(2) unfolding new_def I(1) by simp
      ultimately show ?thesis using bk ids W(2) unfolding fa_wf_def by auto
    qed
    ultimately show ?thesis by simp
  qed
  then show "fa_wf db'" "run_booked db db' t pid d r" by simp_all
qed

subsection \<open>The other operations\<close>

text \<open>A row that a flush accepts fits its columns: \<^verbatim>\<open>NUMERIC(18,6)\<close> and \<^verbatim>\<open>INTEGER\<close>.\<close>

definition fits_columns :: "asset \<Rightarrow> bool" where
  "fits_columns a \<longleftrightarrow> depreciable a < 10 ^ 12 \<and> as_life a < 10 ^ 10"

lemma validated_asset_ok:
  assumes "validate_asset_fields db t a = Inr ()" "fits_columns a"
    "on_grid (currency_decimals (as_currency a)) (as_cost a)" "on_grid (currency_decimals (as_currency a)) (as_salvage a)"
  shows "asset_ok (stored_asset a)" "as_cost (stored_asset a) = as_cost a" "as_salvage (stored_asset a) = as_salvage a"
proof -
  have g: "on_grid MONEY_SCALE x" if "on_grid (currency_decimals (as_currency a)) x" for x
    using that by (rule on_grid_mono) simp
  show eq: "as_cost (stored_asset a) = as_cost a" "as_salvage (stored_asset a) = as_salvage a"
    using g [OF assms(3)] g [OF assms(4)] by (simp_all add: stored_asset_def store_money_grid)
  have "as_salvage a < as_cost a" "validate_method (as_method a) (as_rate_percent a) = Inr ()"
    using assms(1) by (auto simp: validate_asset_fields_def not_le elim!: bindr_InrE split: if_splits)
  moreover from this(2) have "as_method a = DECLINING_BALANCE \<longrightarrow> (\<exists>r. as_rate_percent a = Some r \<and> 0 < r)"
    by (auto simp: validate_method_def split: option.splits if_splits)
  ultimately show "asset_ok (stored_asset a)"
    using assms(2-4) eq unfolding asset_ok_def fits_columns_def depreciable_def
    by (auto simp: stored_asset_def intro: store_money_nonneg [OF less_imp_le])
qed

lemma fa_wf_replace:
  assumes wf: "fa_wf db" and a: "a \<in> set (fixed_assets db)" and a': "as_id a' = as_id a" "asset_ok a'"
    "asset_state (depreciation_entries db) a'"
    and db': "fixed_assets db' = upd_rows (\<lambda>b. as_id b = as_id a') (\<lambda>_. a') (fixed_assets db)"
      "depreciation_entries db' = depreciation_entries db" "books_wf db'" "uuid_supply db \<le> uuid_supply db'"
  shows "fa_wf db'"
proof -
  note W = fa_wfD [OF wf]
  have "map as_id (fixed_assets db') = map as_id (fixed_assets db)" unfolding db'(1) by (rule map_upd_rows) (simp add: a'(1))
  then have "distinct (map as_id (fixed_assets db'))" using W(2) by simp
  moreover have "as_id b < uuid_supply db' \<and> asset_ok b \<and> asset_state (depreciation_entries db) b" if "b \<in> set (fixed_assets db')" for b
    using that W(3-5) a a' db'(4) unfolding db'(1) set_upd_rows by fastforce
  moreover have "\<And>e. e \<in> set (depreciation_entries db) \<Longrightarrow> de_asset e < uuid_supply db'" using W(6) db'(4) by (meson less_le_trans)
  ultimately show ?thesis using W(7) db'(3) unfolding fa_wf_def db'(2) by blast
qed

lemma get_asset_Inr: "get_asset db t i = Inr a \<Longrightarrow> a \<in> set (fixed_assets db) \<and> as_id a = i \<and> as_tenant a = t"
  by (auto simp: get_asset_def dest: find_row_Some_iff split: option.splits if_splits)

lemma create_asset_wf:
  fixes db db' :: "'m fa_db_scheme"
  assumes wf: "fa_wf db" and cr: "create_asset db t p = Inr (a, db')" and fit: "fits_columns a"
  shows "fa_wf db'"
proof -
  note W = fa_wfD [OF wf]
  from cr obtain cur doc db2 where
    reg: "register_document (db\<lparr>uuid_supply := Suc (uuid_supply db)\<rparr>) t ASSET_DOC_TYPE (uuid_supply db) None
      (Some (asset_status_str ASSET_DRAFT)) = Inr (doc, db2)"
    and a: "as_id a = uuid_supply db" "as_status a = ASSET_DRAFT" "as_tenant a = t"
      "on_grid (currency_decimals (as_currency a)) (as_cost a)" "on_grid (currency_decimals (as_currency a)) (as_salvage a)"
    and val: "validate_asset_fields db2 t a = Inr ()" and db': "db' = db2\<lparr>fixed_assets := fixed_assets db2 @ [stored_asset a]\<rparr>"
    by (auto simp: create_asset_def uuid4_def Let_def quantize_money_def elim!: bindr_InrE)
  have d2: "fixed_assets db2 = fixed_assets db" "depreciation_entries db2 = depreciation_entries db"
    "uuid_supply db2 = Suc (Suc (uuid_supply db))" "journal_entries db2 = journal_entries db" "journal_lines db2 = journal_lines db"
    using register_document_Inr(2) [OF reg] by simp_all
  note V = validated_asset_ok [OF val fit a(4,5)]
  have st: "as_id (stored_asset a) = uuid_supply db" "as_status (stored_asset a) = ASSET_DRAFT" "as_tenant (stored_asset a) = t"
    using a by (simp_all add: stored_asset_def)
  have none: "asset_entries (depreciation_entries db) t (uuid_supply db) = []"
    using W(6) by (fastforce simp: asset_entries_def filter_empty_conv)
  then have "asset_state (depreciation_entries db) (stored_asset a)"
    using asset_ok_depreciable(1) [OF V(1)] st by (simp add: asset_state_def accumulated_def Let_def)
  moreover have "books_wf db'" by (rule books_wf_frame [OF W(1)]) (simp add: db' d2)
  moreover have "uuid_supply db \<notin> as_id ` set (fixed_assets db)" using W(3) by force
  ultimately show ?thesis using W V(1) st unfolding fa_wf_def db' by (auto simp: d2 less_Suc_eq)
qed

lemma update_asset_wf:
  fixes db db' :: "'m fa_db_scheme"
  assumes wf: "fa_wf db" and up: "update_asset db t i p = Inr (a', db')" and fit: "fits_columns a'"
  shows "fa_wf db'"
proof -
  note W = fa_wfD [OF wf]
  from up obtain a where a: "get_asset db t i = Inr a" "as_status a = ASSET_DRAFT" "a' = apply_asset_update p a"
    and val: "validate_asset_fields db t a' = Inr ()" and db': "db' = set_asset a' db"
    by (auto simp: update_asset_def Let_def elim!: bindr_InrE split: if_splits)
  note G = get_asset_Inr [OF a(1)]
  have ok: "asset_ok a" using W(4) G by blast
  have a': "as_id a' = as_id a" "as_tenant a' = as_tenant a" "as_status a' = ASSET_DRAFT" "as_currency a' = as_currency a"
    using a(2,3) by (simp_all add: apply_asset_update_def Let_def)
  have g: "on_grid (currency_decimals (as_currency a')) (as_cost a')" "on_grid (currency_decimals (as_currency a')) (as_salvage a')"
    using ok unfolding a(3) by (auto simp: apply_asset_update_def asset_ok_def Let_def patched_def quantize_money_def split: option.splits)
  note V = validated_asset_ok [OF val fit g]
  have "asset_entries (depreciation_entries db) (as_tenant a) (as_id a) = []"
    using W(5) [of a] G a(2) by (auto simp: asset_state_def Let_def)
  then have "asset_state (depreciation_entries db) (stored_asset a')"
    using asset_ok_depreciable(1) [OF V(1)] a' by (simp add: asset_state_def accumulated_def Let_def stored_asset_def)
  moreover have "books_wf db'" by (rule books_wf_frame [OF W(1)]) (simp add: db' set_asset_def)
  ultimately show ?thesis
    using G a' V(1) by (intro fa_wf_replace [OF wf, of a "stored_asset a'"]) (auto simp: db' set_asset_def stored_asset_def)
qed

lemma capitalize_asset_effect:
  fixes db db' :: "'m fa_db_scheme"
  assumes wf: "books_wf db" and cap: "capitalize_asset db t a n = Inr (a', db')"
  obtains clearing and e :: journal_entry where "a' = a\<lparr>as_capitalized_entry := Some (je_id e)\<rparr>"
    "get_posting_default db t ASSET_ACQUISITION_CLEARING = Inr clearing"
    "journal_entries db' = journal_entries db @ [e]" "je_status e = POSTED" "je_posting_date e = as_acquisition_date a"
    "entry_balanced (entry_lines db' (je_id e))"
    "mset (map side_view (entry_lines db' (je_id e))) =
       {#(as_account a, store_money (as_cost a), 0, None), (clearing, 0, store_money (as_cost a), None)#}"
    "books_wf db'" "fin_db.more db' = fin_db.more db" "uuid_supply db \<le> uuid_supply db'"
proof -
  let ?c = "\<lambda>clearing. \<lparr>jec_posting_date = as_acquisition_date a, jec_currency = as_currency a,
    jec_description = Some (''Asset acquisition '' @ n), jec_document_type = JOURNAL,
    jec_lines = capitalization_lines a n clearing\<rparr>"
  from cap obtain clearing e db1 e' db2 k where
    cl: "get_posting_default db t ASSET_ACQUISITION_CLEARING = Inr clearing"
    and dr: "create_draft_entry db t (?c clearing) None = Inr (e, db1)" and po: "post_entry db1 t (je_id e) None False = Inr (e', db2)"
    and lk: "link_documents db2 t (as_document a) (je_document e) (Some ASSET_POSTS_LINK) = Inr (k, db')"
    and a': "a' = a\<lparr>as_capitalized_entry := Some (je_id e)\<rparr>"
    by (auto simp: capitalize_asset_def elim!: bindr_InrE)
  note B = booking_effect [OF wf dr po] and K = link_documents_frame(1,2) [OF lk]
  note F = fin_frame(6,7,8) [OF K(1)]
  have L: "entry_lines db' j = entry_lines db2 j" for j by (simp add: entry_lines_def F)
  show thesis
  proof (rule that [of e' clearing])
    show "mset (map side_view (entry_lines db' (je_id e'))) =
       {#(as_account a, store_money (as_cost a), 0, None), (clearing, 0, store_money (as_cost a), None)#}"
      unfolding L B(15) by (simp add: capitalization_lines_def payload_view_def)
    show "books_wf db'" using B(1) by (rule books_wf_frame) (simp add: F K)
  qed (use B F K L cl a' in simp_all)
qed

lemma activate_asset_wf:
  fixes db db' :: "'m fa_db_scheme"
  assumes wf: "fa_wf db" and act: "activate_asset db t i cap = Inr (a', db')"
  shows "fa_wf db'"
proof -
  note W = fa_wfD [OF wf]
  from act obtain a s db1 n db2 db3 where a: "get_asset db t i = Inr a" "as_status a = ASSET_DRAFT"
    and es: "ensure_sequence db t ASSET_SEQUENCE_NAME ASSET_NUMBER_PREFIX ASSET_NUMBER_PADDING True = Inr (s, db1)"
    and cl: "claim_number db1 t ASSET_SEQUENCE_NAME (as_acquisition_date a) = Inr (n, db2)"
    and c: "(if cap then capitalize_asset db2 t (a\<lparr>as_number := Some n, as_status := ASSET_ACTIVE\<rparr>) n
      else Inr (a\<lparr>as_number := Some n, as_status := ASSET_ACTIVE\<rparr>, db2)) = Inr (a', db3)"
    and sd: "set_document_status (set_asset a' db3) t (as_document a) (Some (asset_status_str ASSET_ACTIVE)) (Some n) = Inr db'"
    by (auto simp: activate_asset_def Let_def elim!: bindr_InrE split: if_splits)
  note G = get_asset_Inr [OF a(1)]
  have m2: "core_db.more db2 = core_db.more db" "uuid_supply db \<le> uuid_supply db2"
    using ensure_sequence_frame(1,2) [OF es] claim_number_frame(7,8) [OF cl] by simp_all
  have b2: "books_wf db2" using W(1) by (rule books_wf_frame) (use fin_frame(6,7) [OF m2(1)] m2(2) in simp)
  have "books_wf db3 \<and> fin_db.more db3 = fin_db.more db2 \<and> uuid_supply db2 \<le> uuid_supply db3 \<and>
      (\<exists>x. a' = a\<lparr>as_number := Some n, as_status := ASSET_ACTIVE, as_capitalized_entry := x\<rparr>)"
  proof (cases cap)
    case True
    with c have "capitalize_asset db2 t (a\<lparr>as_number := Some n, as_status := ASSET_ACTIVE\<rparr>) n = Inr (a', db3)" by simp
    then show ?thesis
      by (rule capitalize_asset_effect [OF b2]) (intro conjI exI, assumption+)
  next
    case False
    with c have a1: "a' = a\<lparr>as_number := Some n, as_status := ASSET_ACTIVE\<rparr>" and "db3 = db2" by simp_all
    moreover have "a' = a\<lparr>as_number := Some n, as_status := ASSET_ACTIVE, as_capitalized_entry := as_capitalized_entry a\<rparr>"
      unfolding a1 by (cases a) simp
    then have "\<exists>x. a' = a\<lparr>as_number := Some n, as_status := ASSET_ACTIVE, as_capitalized_entry := x\<rparr>" by (rule exI)
    ultimately show ?thesis using b2 by simp
  qed
  then obtain x where x: "books_wf db3" "fin_db.more db3 = fin_db.more db2" "uuid_supply db2 \<le> uuid_supply db3"
    "a' = a\<lparr>as_number := Some n, as_status := ASSET_ACTIVE, as_capitalized_entry := x\<rparr>" by blast
  have f3: "fixed_assets db3 = fixed_assets db" "depreciation_entries db3 = depreciation_entries db"
    using fa_frame_fin [OF x(2)] fa_frame [OF m2(1)] by simp_all
  note S = set_document_status_frame(1,2) [OF sd]
  have ok: "asset_ok a" using W(4) G by blast
  have g: "store_money v = v" if "on_grid (currency_decimals (as_currency a)) v" for v
    using that by (intro store_money_grid on_grid_mono [OF that]) simp
  have "store_money (as_cost a) = as_cost a" "store_money (as_salvage a) = as_salvage a"
    using ok by (auto simp: asset_ok_def intro: g)
  then have ok': "asset_ok (stored_asset a')"
    using ok unfolding asset_ok_def x(4) stored_asset_def depreciable_def by (auto intro: store_money_nonneg)
  moreover have "asset_entries (depreciation_entries db) (as_tenant a) (as_id a) = []"
    using W(5) [of a] G a(2) by (auto simp: asset_state_def Let_def)
  then have "asset_state (depreciation_entries db) (stored_asset a')"
    using asset_ok_depreciable(1) [OF ok'] by (simp add: asset_state_def accumulated_def Let_def x(4) stored_asset_def)
  moreover have "books_wf db'" using x(1) by (rule books_wf_frame) (use fin_frame(6,7) [OF S(1)] S(2) in \<open>simp add: set_asset_def\<close>)
  ultimately show ?thesis
    using G fa_frame [OF S(1)] f3 m2(2) x(3) S(2)
    by (intro fa_wf_replace [OF wf, of a "stored_asset a'"]) (auto simp: set_asset_def stored_asset_def x(4))
qed

inductive fa_step :: "'m fa_db_scheme \<Rightarrow> 'm fa_db_scheme \<Rightarrow> bool" where
  created: "create_asset db t p = Inr (a, db') \<Longrightarrow> fits_columns a \<Longrightarrow> fa_step db db'"
| updated: "update_asset db t i u = Inr (a, db') \<Longrightarrow> fits_columns a \<Longrightarrow> fa_step db db'"
| activated: "activate_asset db t i cap = Inr (a, db') \<Longrightarrow> fa_step db db'"
| ran: "run_depreciation db t pid d = Inr (r, db') \<Longrightarrow> fa_step db db'"
| ledger: "ledger_step db db' \<Longrightarrow> fa_step db db'"

lemma fa_step_wf:
  fixes db db' :: "'m fa_db_scheme"
  assumes "fa_step db db'" "fa_wf db"
  shows "fa_wf db'"
  using assms
proof cases
  case (ran t pid d r)
  show ?thesis
  proof (cases "run_charged db t pid = []")
    case True
    have "\<forall>a \<in> set (fixed_assets db). asset_ok a" using fa_wfD(4) [OF assms(2)] by blast
    from this ran have "db' = db" by (cases rule: run_depreciation_cases) (use True in simp_all)
    then show ?thesis using assms(2) by simp
  next
    case False
    then show ?thesis by (rule run_depreciation_effect(1) [OF assms(2) ran])
  qed
next
  case ledger
  have b: "books_wf db" by (rule fa_wfD(1) [OF assms(2)])
  show ?thesis using ledger_step_more [OF ledger b] ledger_step_wf [OF ledger b] by (intro fa_wf_frame [OF assms(2)]) simp_all
qed (use assms(2) create_asset_wf update_asset_wf activate_asset_wf in blast)+

text \<open>A second run of the period finds nothing to charge.\<close>

lemma run_booked_once:
  assumes wf: "fa_wf db" and b: "run_booked db db' t pid d r"
  shows "run_charged db' t pid = []"
proof -
  let ?E = "depreciation_entries db" and ?cs = "run_charged db t pid"
  from b obtain new where E': "depreciation_entries db' = ?E @ new"
    and new: "map (\<lambda>e. (de_tenant e, de_asset e, de_period e, de_run e, de_amount e)) new =
      map (\<lambda>a. (t, as_id a, pid, dr_id r, charge ?E t a)) ?cs"
    and fa: "fixed_assets db' = flipped_assets db t pid"
    unfolding run_booked_def Let_def by blast
  have N: "(\<lambda>e. (de_tenant e, de_asset e, de_period e)) ` set new = (\<lambda>a. (t, as_id a, pid)) ` set ?cs"
    using arg_cong [OF new, of "\<lambda>xs. (\<lambda>(a, b, c, _). (a, b, c)) ` set xs"] by (simp add: image_image)
  have "False" if "a \<in> set (run_charged db' t pid)" for a
  proof -
    have a: "a \<in> set (run_assets db' t pid)" "0 < charge (?E @ new) t a"
      using that by (auto simp: run_charged_def chargeable_def E')
    then obtain a0 where "a0 \<in> set (fixed_assets db)"
      "a = (if as_id a0 \<in> as_id ` set (filter (completes ?E t) ?cs) then a0\<lparr>as_status := ASSET_FULLY_DEPRECIATED\<rparr> else a0)"
      by (auto simp: run_assets_mem fa flipped_assets_def)
    then have a1: "a \<in> set (run_assets db t pid)" using a(1) by (auto simp: run_assets_mem E' split: if_splits)
    have no: "(t, as_id a, pid) \<notin> (\<lambda>e. (de_tenant e, de_asset e, de_period e)) ` set new"
      using a(1) unfolding run_assets_mem E' by auto
    then have "as_id a \<notin> as_id ` set ?cs" unfolding N by auto
    then have "charge ?E t a \<le> 0" using a1 by (auto simp: run_charged_def chargeable_def not_less)
    moreover have "filter (\<lambda>e. de_tenant e = t \<and> de_asset e = as_id a) new = []"
    proof -
      have "(de_tenant e, de_asset e) \<noteq> (t, as_id a)" if "e \<in> set new" for e
      proof -
        have "(de_tenant e, de_asset e, de_period e) \<in> (\<lambda>a. (t, as_id a, pid)) ` set ?cs" using that unfolding N [symmetric] by blast
        then show ?thesis using \<open>as_id a \<notin> as_id ` set ?cs\<close> by auto
      qed
      then show ?thesis by (simp add: filter_empty_conv)
    qed
    then have "charge (?E @ new) t a = charge ?E t a" by (simp add: charge_def accumulated_def asset_entries_def)
    ultimately show False using a(2) by simp
  qed
  then show ?thesis by (cases "run_charged db' t pid") auto
qed

text \<open>
  C8. A depreciation run that finds a charge posts one balanced entry of the run's date in the assets'
  currency, whose net on every account is the charges of the assets that expense to it less those that
  accumulate on it; the run row holds their total, every charged asset gets exactly one depreciation
  entry of its charge, the assets that reach their salvage value are closed, the register stays sound,
  and running the period again finds nothing to charge.
\<close>

theorem run_books_the_charges:
  fixes db db' :: "'m fa_db_scheme"
  assumes "fa_wf db" and "run_depreciation db t pid d = Inr (r, db')" and "run_charged db t pid \<noteq> []"
  shows "run_booked db db' t pid d r \<and> fa_wf db' \<and> run_charged db' t pid = []"
  using run_depreciation_effect [OF assms] run_booked_once [OF assms(1)] by blast

lemma fa_steps_wf:
  fixes db db' :: "'m fa_db_scheme"
  assumes "fa_step\<^sup>*\<^sup>* db db'" "fa_wf db"
  shows "fa_wf db'"
  using assms by (induction rule: rtranclp_induct) (auto intro: fa_step_wf)

text \<open>
  C7. However creating, editing, activating and depreciating assets and keeping the journal are
  interleaved, no asset is ever depreciated below its salvage value: its entries sum to at most cost less
  salvage, to exactly that when and only when it is marked fully depreciated, a draft has none, and
  no asset is charged twice for one period.
\<close>

theorem assets_stay_sound:
  fixes db db' :: "'m fa_db_scheme"
  assumes "fa_step\<^sup>*\<^sup>* db db'" and "fa_wf db" and "a \<in> set (fixed_assets db')"
  shows "(let s = accumulated (depreciation_entries db') (as_tenant a) (as_id a) in
      0 \<le> s \<and> as_salvage a \<le> as_cost a - s \<and> (as_status a = ASSET_FULLY_DEPRECIATED \<longleftrightarrow> as_cost a - s = as_salvage a)) \<and>
    (as_status a = ASSET_DRAFT \<longrightarrow> asset_entries (depreciation_entries db') (as_tenant a) (as_id a) = []) \<and>
    distinct (map entry_key (depreciation_entries db'))"
proof -
  note W = fa_wfD [OF fa_steps_wf [OF assms(1,2)]]
  show ?thesis
    using W(5) [OF assms(3)] W(7) asset_ok_depreciable(1) [OF W(4) [OF assms(3)]]
    by (auto simp: asset_state_def depreciable_def Let_def accumulated_def split: asset_status.splits)
qed

subsection \<open>A sample register\<close>

definition sample_fa :: fa_db where
  "sample_fa = (ap_db.extend sample_ap (fa_db.fields [sample_asset 1000 ''USD'' 3] [] []))\<lparr>uuid_supply := 70\<rparr>"

definition depreciated :: fa_db where
  "depreciated = snd (projr (run_depreciation sample_fa 1 2 (Date 2024 3 31)))"

lemma sample_fa_wf: "fa_wf sample_fa"
proof -
  have "asset_state [] (sample_asset 1000 ''USD'' 3)"
    by (simp add: asset_state_def accumulated_def asset_entries_def sample_asset_def depreciable_def)
  then show ?thesis
    using sample_asset_ok
    by (simp add: fa_wf_def books_wf_def sample_fa_def sample_ap_def ap_db.defs fa_db.defs) (simp add: sample_asset_def)
qed

lemma depreciated_Inr: obtains r where "run_depreciation sample_fa 1 2 (Date 2024 3 31) = Inr (r, depreciated)"
proof -
  have "is_ok (run_depreciation sample_fa 1 2 (Date 2024 3 31))" by code_simp
  then show thesis using that by (auto simp: depreciated_def elim!: is_okE)
qed

theorem run_books_the_charges_witness:
  "\<exists>r. run_depreciation sample_fa 1 2 (Date 2024 3 31) = Inr (r, depreciated) \<and>
     run_booked sample_fa depreciated 1 2 (Date 2024 3 31) r \<and> run_charged depreciated 1 2 = []"
proof (rule depreciated_Inr)
  fix r assume c: "run_depreciation sample_fa 1 2 (Date 2024 3 31) = Inr (r, depreciated)"
  have "run_charged sample_fa 1 2 \<noteq> []" by code_simp
  from run_books_the_charges [OF sample_fa_wf c this] c show ?thesis by blast
qed

theorem assets_stay_sound_witness:
  "\<exists>a \<in> set (fixed_assets depreciated). 0 \<le> accumulated (depreciation_entries depreciated) (as_tenant a) (as_id a) \<and>
     as_salvage a \<le> as_cost a - accumulated (depreciation_entries depreciated) (as_tenant a) (as_id a) \<and>
     distinct (map entry_key (depreciation_entries depreciated))"
proof (rule depreciated_Inr)
  fix r assume "run_depreciation sample_fa 1 2 (Date 2024 3 31) = Inr (r, depreciated)"
  then have st: "fa_step\<^sup>*\<^sup>* sample_fa depreciated" by (intro r_into_rtranclp fa_step.ran)
  have "fixed_assets depreciated \<noteq> []" by code_simp
  then obtain a where a: "a \<in> set (fixed_assets depreciated)" by (cases "fixed_assets depreciated") auto
  show ?thesis using assets_stay_sound [OF st sample_fa_wf a] a by (auto simp: Let_def)
qed

end
