(* ===== verification/Pagination.thy ===== *)
theory Pagination
  imports Prelude Calendar "HOL-Library.List_Lexorder" "HOL-Library.Char_ord"
begin

text \<open>
  Model of keyset pagination (\<^verbatim>\<open>core/pagination.py\<close>). A sort column is a function of the row with its
  type and direction; the values of all column types form one linear order, so that an \<open>ORDER BY\<close> is
  a sort by the list of directed values. What the standard library and the database driver do to
  values (\<open>isoformat\<close>, \<open>str\<close>, \<open>json\<close>, \<open>base64\<close>, the adaptation of bound values) is the parameter
  \<open>codec\<close>, with \<open>codec_ok\<close> for the round trips the code relies on. JSON numbers with a fraction are not
  modelled: no sort column prints as one. Sort columns are not nullable.
\<close>

subsection \<open>Values and columns\<close>

datatype sort_direction = ASC | DESC
datatype column_type = C_date | C_datetime | C_decimal | C_uuid | C_str | C_int
datatype column_value = V_date date | V_datetime nat | V_decimal decimal | V_uuid uuid | V_str string | V_int int

fun type_of :: "column_value \<Rightarrow> column_type" where
  "type_of (V_date _) = C_date"
| "type_of (V_datetime _) = C_datetime"
| "type_of (V_decimal _) = C_decimal"
| "type_of (V_uuid _) = C_uuid"
| "type_of (V_str _) = C_str"
| "type_of (V_int _) = C_int"

fun type_rank :: "column_type \<Rightarrow> nat" where
  "type_rank C_date = 0"
| "type_rank C_datetime = 1"
| "type_rank C_decimal = 2"
| "type_rank C_uuid = 3"
| "type_rank C_str = 4"
| "type_rank C_int = 5"

instantiation column_value :: linorder
begin

fun less_eq_column_value :: "column_value \<Rightarrow> column_value \<Rightarrow> bool" where
  "V_date x \<le> V_date y \<longleftrightarrow> x \<le> y"
| "V_datetime x \<le> V_datetime y \<longleftrightarrow> x \<le> y"
| "V_decimal x \<le> V_decimal y \<longleftrightarrow> x \<le> y"
| "V_uuid x \<le> V_uuid y \<longleftrightarrow> x \<le> y"
| "V_str x \<le> V_str y \<longleftrightarrow> x \<le> y"
| "V_int x \<le> V_int y \<longleftrightarrow> x \<le> y"
| "(a :: column_value) \<le> b \<longleftrightarrow> type_rank (type_of a) < type_rank (type_of b)"

definition less_column_value :: "column_value \<Rightarrow> column_value \<Rightarrow> bool" where
  "less_column_value a b \<longleftrightarrow> \<not> b \<le> a"

instance
proof
  fix a b c :: column_value
  show "(a < b) = (a \<le> b \<and> \<not> b \<le> a)" by (cases a; cases b) (auto simp: less_column_value_def)
  show "a \<le> a" by (cases a) simp_all
  show "a \<le> b \<Longrightarrow> b \<le> c \<Longrightarrow> a \<le> c" by (cases a; cases b; cases c) auto
  show "a \<le> b \<Longrightarrow> b \<le> a \<Longrightarrow> a = b" by (cases a; cases b) auto
  show "a \<le> b \<or> b \<le> a" by (cases a; cases b) auto
qed

end

text \<open>A value in the direction of its column.\<close>

datatype order_value = Up column_value | Down column_value

instantiation order_value :: linorder
begin

fun less_eq_order_value :: "order_value \<Rightarrow> order_value \<Rightarrow> bool" where
  "Up x \<le> Up y \<longleftrightarrow> x \<le> y"
| "Down x \<le> Down y \<longleftrightarrow> y \<le> x"
| "Up x \<le> Down y \<longleftrightarrow> True"
| "Down x \<le> Up y \<longleftrightarrow> False"

definition less_order_value :: "order_value \<Rightarrow> order_value \<Rightarrow> bool" where
  "less_order_value a b \<longleftrightarrow> \<not> b \<le> a"

instance
proof
  fix a b c :: order_value
  show "(a < b) = (a \<le> b \<and> \<not> b \<le> a)" by (cases a; cases b) (auto simp: less_order_value_def)
  show "a \<le> a" by (cases a) simp_all
  show "a \<le> b \<Longrightarrow> b \<le> c \<Longrightarrow> a \<le> c" by (cases a; cases b; cases c) auto
  show "a \<le> b \<Longrightarrow> b \<le> a \<Longrightarrow> a = b" by (cases a; cases b) auto
  show "a \<le> b \<or> b \<le> a" by (cases a; cases b) auto
qed

end

lemma less_order_value_simps [simp]:
  "Up x < Up y \<longleftrightarrow> x < y" "Down x < Down y \<longleftrightarrow> y < x"
  by (auto simp: less_order_value_def not_le)

record 'r order_key =
  ok_name :: string
  ok_type :: column_type
  ok_col :: "'r \<Rightarrow> column_value"
  ok_dir :: sort_direction

definition directed :: "sort_direction \<Rightarrow> column_value \<Rightarrow> order_value" where
  "directed d v = (case d of ASC \<Rightarrow> Up v | DESC \<Rightarrow> Down v)"

definition row_key :: "'r order_key list \<Rightarrow> 'r \<Rightarrow> order_value list" where
  "row_key keys r = map (\<lambda>k. directed (ok_dir k) (ok_col k r)) keys"

subsection \<open>The cursor\<close>

datatype 't json = J_null | J_bool bool | J_int int | J_str 't | J_list "'t json list" | J_dict "(string \<times> 't json) list"

record ('t, 'c) codec =
  date_text :: "date \<Rightarrow> 't"
  datetime_text :: "nat \<Rightarrow> 't"
  decimal_text :: "decimal \<Rightarrow> 't"
  uuid_text :: "uuid \<Rightarrow> 't"
  str_text :: "string \<Rightarrow> 't"
  parse_date :: "'t \<Rightarrow> date option"
  parse_datetime :: "'t \<Rightarrow> nat option"
  parse_decimal :: "'t \<Rightarrow> decimal option"
  parse_uuid :: "'t \<Rightarrow> uuid option"
  bind_value :: "column_type \<Rightarrow> 't json \<Rightarrow> column_value result"
  cursor_text :: "'t json \<Rightarrow> 'c"
  parse_cursor :: "'c \<Rightarrow> 't json option"

definition CURSOR_VERSION :: int where "CURSOR_VERSION = 1"
definition DEFAULT_LIMIT :: int where "DEFAULT_LIMIT = 50"
definition MAX_LIMIT :: int where "MAX_LIMIT = 200"

fun direction_str :: "sort_direction \<Rightarrow> string" where
  "direction_str ASC = ''asc''"
| "direction_str DESC = ''desc''"

fun join_with :: "string \<Rightarrow> string list \<Rightarrow> string" where
  "join_with sep [] = ''''"
| "join_with sep [s] = s"
| "join_with sep (s # ss) = s @ sep @ join_with sep ss"

definition sort_spec :: "'r order_key list \<Rightarrow> string" where
  "sort_spec keys = join_with '','' (map (\<lambda>k. ok_name k @ '':'' @ direction_str (ok_dir k)) keys)"

fun encode_value :: "('t, 'c) codec \<Rightarrow> column_value \<Rightarrow> 't json" where
  "encode_value cd (V_date d) = J_str (date_text cd d)"
| "encode_value cd (V_datetime d) = J_str (datetime_text cd d)"
| "encode_value cd (V_decimal x) = J_str (decimal_text cd x)"
| "encode_value cd (V_int n) = J_int n"
| "encode_value cd (V_str s) = J_str (str_text cd s)"
| "encode_value cd (V_uuid u) = J_str (uuid_text cd u)"

definition encode_cursor :: "('t, 'c) codec \<Rightarrow> column_value list \<Rightarrow> string \<Rightarrow> string \<Rightarrow> 'c" where
  "encode_cursor cd key_values spec fingerprint =
     cursor_text cd (J_dict [(''k'', J_list (map (encode_value cd) key_values)), (''q'', J_str (str_text cd fingerprint)),
       (''s'', J_str (str_text cd spec)), (''v'', J_int CURSOR_VERSION)])"

definition invalid_cursor :: atlas_error where
  "invalid_cursor = ValidationFailedError ''pagination.invalid_cursor''"

text \<open>Python counts \<open>True\<close> as equal to 1.\<close>

definition is_version :: "'t json option \<Rightarrow> bool" where
  "is_version v \<longleftrightarrow> v = Some (J_int CURSOR_VERSION) \<or> v = Some (J_bool True)"

definition decode_cursor :: "('t, 'c) codec \<Rightarrow> 'c \<Rightarrow> string \<Rightarrow> string \<Rightarrow> 't json list result" where
  "decode_cursor cd cursor spec fingerprint =
     (case parse_cursor cd cursor of
        Some (J_dict payload) \<Rightarrow>
          if \<not> is_version (map_of payload ''v'') \<or> map_of payload ''s'' \<noteq> Some (J_str (str_text cd spec)) \<or>
             map_of payload ''q'' \<noteq> Some (J_str (str_text cd fingerprint))
          then Inl invalid_cursor
          else (case map_of payload ''k'' of Some (J_list ks) \<Rightarrow> Inr ks | _ \<Rightarrow> Inl invalid_cursor)
      | _ \<Rightarrow> Inl invalid_cursor)"

definition parsed :: "string \<Rightarrow> ('a \<Rightarrow> column_value) \<Rightarrow> 'a option \<Rightarrow> column_value result" where
  "parsed exc f x = (case x of None \<Rightarrow> Inl (PyError exc) | Some v \<Rightarrow> Inr (f v))"

definition coerce_key_value :: "('t, 'c) codec \<Rightarrow> column_type \<Rightarrow> 't json \<Rightarrow> column_value result" where
  "coerce_key_value cd ty j =
     (case j of
        J_str t \<Rightarrow>
          (case ty of
             C_datetime \<Rightarrow> parsed ''ValueError'' V_datetime (parse_datetime cd t)
           | C_date \<Rightarrow> parsed ''ValueError'' V_date (parse_date cd t)
           | C_decimal \<Rightarrow> parsed ''InvalidOperation'' V_decimal (parse_decimal cd t)
           | C_uuid \<Rightarrow> parsed ''ValueError'' V_uuid (parse_uuid cd t)
           | _ \<Rightarrow> bind_value cd ty j)
      | _ \<Rightarrow> bind_value cd ty j)"

fun coerce_all :: "('t, 'c) codec \<Rightarrow> 'r order_key list \<Rightarrow> 't json list \<Rightarrow> column_value list result" where
  "coerce_all cd [] [] = Inr []"
| "coerce_all cd (k # ks) (j # js) =
     bindr (coerce_key_value cd (ok_type k) j) (\<lambda>v. bindr (coerce_all cd ks js) (\<lambda>vs. Inr (v # vs)))"
| "coerce_all cd _ _ = Inl (PyError ''ValueError'')"

text \<open>The expanded predicate: one clause per column.\<close>

definition seek_clause :: "'r order_key list \<Rightarrow> column_value list \<Rightarrow> nat \<Rightarrow> 'r \<Rightarrow> bool" where
  "seek_clause keys vs i r \<longleftrightarrow>
     list_all (\<lambda>j. ok_col (keys ! j) r = vs ! j) [0..<i] \<and>
     (if ok_dir (keys ! i) = ASC then vs ! i < ok_col (keys ! i) r else ok_col (keys ! i) r < vs ! i)"

definition seek_predicate :: "'r order_key list \<Rightarrow> column_value list \<Rightarrow> 'r \<Rightarrow> bool" where
  "seek_predicate keys vs r \<longleftrightarrow> list_ex (\<lambda>i. seek_clause keys vs i r) [0..<length keys]"

definition apply_order :: "'r order_key list \<Rightarrow> 'r list \<Rightarrow> 'r list" where
  "apply_order keys rows = sort_key (row_key keys) rows"

record ('r, 'c) page =
  pg_items :: "'r list"
  pg_next_cursor :: "'c option"
  pg_limit :: int

definition all_keys :: "'r order_key list \<Rightarrow> string \<times> ('r \<Rightarrow> uuid) \<Rightarrow> 'r order_key list" where
  "all_keys order_by pk = order_by @ [\<lparr>ok_name = fst pk, ok_type = C_uuid, ok_col = V_uuid \<circ> snd pk, ok_dir = ASC\<rparr>]"

definition seek_rows :: "('t, 'c) codec \<Rightarrow> 'r order_key list \<Rightarrow> string \<Rightarrow> 'c option \<Rightarrow> 'r list \<Rightarrow> 'r list result" where
  "seek_rows cd keys filters cursor rows =
     (case cursor of
        None \<Rightarrow> Inr rows
      | Some c \<Rightarrow>
          bindr (decode_cursor cd c (sort_spec keys) filters) (\<lambda>js.
          if length js \<noteq> length keys then Inl invalid_cursor
          else bindr (coerce_all cd keys js) (\<lambda>vs. Inr (filter (seek_predicate keys vs) rows))))"

definition paginate ::
  "('t, 'c) codec \<Rightarrow> 'r list \<Rightarrow> 'r order_key list \<Rightarrow> string \<times> ('r \<Rightarrow> uuid) \<Rightarrow> 'c option \<Rightarrow> int \<Rightarrow> string
    \<Rightarrow> ('r, 'c) page result" where
  "paginate cd table order_by pk cursor limit filters =
     (let limit = (if limit < 1 then 1 else limit);
          keys = all_keys order_by pk
      in bindr (seek_rows cd keys filters cursor table) (\<lambda>sought.
      let rows = take (nat limit + 1) (apply_order keys sought);
          has_more = length rows > nat limit;
          items = take (nat limit) rows;
          next_cursor =
            (if has_more \<and> items \<noteq> []
             then Some (encode_cursor cd (map (\<lambda>k. ok_col k (last items)) keys) (sort_spec keys) filters)
             else None)
      in Inr \<lparr>pg_items = items, pg_next_cursor = next_cursor, pg_limit = limit\<rparr>))"

definition map_page :: "('r \<Rightarrow> 's) \<Rightarrow> ('r, 'c) page \<Rightarrow> ('s, 'c) page" where
  "map_page schema p = \<lparr>pg_items = map schema (pg_items p), pg_next_cursor = pg_next_cursor p, pg_limit = pg_limit p\<rparr>"

definition cursor_params :: "'c option \<Rightarrow> int \<Rightarrow> 'c option \<times> int" where
  "cursor_params cursor limit = (cursor, max 1 (min limit MAX_LIMIT))"

text \<open>The fingerprint of the filters; the digest is a parameter.\<close>

definition filter_fingerprint :: "('t json \<Rightarrow> string) \<Rightarrow> 't json list \<Rightarrow> string" where
  "filter_fingerprint sha256_hex parts = take 16 (sha256_hex (J_list parts))"

subsection \<open>Following the cursors\<close>

text \<open>
  A client that follows the cursors: each page is fetched from the table as it is then, and the walk
  ends with the first page that has no cursor, or with the tables.
\<close>

fun browse :: "('d \<Rightarrow> 'c option \<Rightarrow> ('r, 'c) page result) \<Rightarrow> 'd list \<Rightarrow> 'c option \<Rightarrow> ('r, 'c) page list result" where
  "browse fetch [] c = Inr []"
| "browse fetch (T # Ts) c =
     bindr (fetch T c) (\<lambda>p. case pg_next_cursor p of
       None \<Rightarrow> Inr [p]
     | Some c' \<Rightarrow> bindr (browse fetch Ts (Some c')) (\<lambda>ps. Inr (p # ps)))"

lemma browse_map: "browse (\<lambda>db. fetch (table db)) dbs c = browse fetch (map table dbs) c"
  by (induction dbs arbitrary: c) (auto simp: bindr_def split: sum.splits option.splits)

definition browsed :: "('r, 'c) page list \<Rightarrow> 'r list" where
  "browsed ps = concat (map pg_items ps)"

lemma browsed_simps [simp]: "browsed [] = []" "browsed (p # ps) = pg_items p @ browsed ps"
  by (simp_all add: browsed_def)

function chunks :: "nat \<Rightarrow> 'r list \<Rightarrow> 'r list list" where
  "chunks L xs = (if L = 0 \<or> length xs \<le> L then [xs] else take L xs # chunks L (drop L xs))"
  by pat_completeness auto
termination by (relation "measure (length \<circ> snd)") auto

declare chunks.simps [simp del]

lemma chunks_ne [simp]: "chunks L xs \<noteq> []"
  by (subst chunks.simps) simp

lemma chunks_short: "length xs \<le> L \<Longrightarrow> chunks L xs = [xs]"
  by (subst chunks.simps) simp

lemma concat_chunks: "concat (chunks L xs) = xs"
proof (induction L xs rule: chunks.induct)
  case (1 L xs)
  then show ?case by (subst chunks.simps) auto
qed

definition after :: "('r \<Rightarrow> 'k :: linorder) \<Rightarrow> 'k option \<Rightarrow> 'r \<Rightarrow> bool" where
  "after key b r = (case b of None \<Rightarrow> True | Some k \<Rightarrow> k < key r)"

lemma after_simps [simp]: "after key None r" "after key (Some k) r \<longleftrightarrow> k < key r"
  by (simp_all add: after_def)

text \<open>
  The contract of a keyset page: behind a cursor minted at \<open>b\<close> come the first \<open>limit\<close> rows in key order
  that lie after \<open>b\<close>, and the new cursor is minted at the last of them when rows are left.
\<close>

locale keyset_pages =
  fixes key :: "'r \<Rightarrow> 'k :: linorder"
    and sound :: "'r list \<Rightarrow> bool"
    and limit :: nat
    and fetch :: "'r list \<Rightarrow> 'c option \<Rightarrow> ('r, 'c) page result"
    and mints :: "'c option \<Rightarrow> 'k option \<Rightarrow> bool"
  assumes limit_pos: "0 < limit"
    and sound_keys: "sound T \<Longrightarrow> distinct (map key T)"
    and mints_none: "mints None None"
    and fetch_page: "sound T \<Longrightarrow> mints c b \<Longrightarrow> xs = sort_key key (filter (after key b) T) \<Longrightarrow>
      \<exists>p. fetch T c = Inr p \<and> pg_items p = take limit xs \<and>
        (if length xs \<le> limit then pg_next_cursor p = None
         else \<exists>c'. pg_next_cursor p = Some c' \<and> mints (Some c') (Some (key (last (take limit xs)))))"
begin

definition rest :: "'r list \<Rightarrow> 'k option \<Rightarrow> 'r list" where
  "rest T b = sort_key key (filter (after key b) T)"

lemma set_rest [simp]: "set (rest T b) = {r \<in> set T. after key b r}"
  by (simp add: rest_def)

lemma rest_sorted: "sound T \<Longrightarrow> sorted_wrt (\<lambda>r s. key r < key s) (rest T b)"
proof -
  assume "sound T"
  then have "distinct (map key (filter (after key b) T))" by (simp add: sound_keys distinct_map_filter)
  moreover have "mset (map key (rest T b)) = mset (map key (filter (after key b) T))" by (simp add: rest_def)
  ultimately have "distinct (map key (rest T b))" by (metis mset_eq_imp_distinct_iff)
  then have "sorted_wrt (<) (map key (rest T b))" by (simp add: strict_sorted_iff rest_def)
  then show ?thesis by (simp add: sorted_wrt_map)
qed

lemma last_take_mem: "limit < length xs \<Longrightarrow> last (take limit xs) \<in> set (take limit xs)"
  using limit_pos by (intro last_in_set) auto

lemma split_at_limit:
  assumes "sorted_wrt (\<lambda>r s. key r < key s) xs" "limit < length xs"
  shows "\<And>r. r \<in> set (take limit xs) \<Longrightarrow> key r \<le> key (last (take limit xs))"
    and "\<And>r. r \<in> set (drop limit xs) \<Longrightarrow> key (last (take limit xs)) < key r"
proof -
  have s: "sorted_wrt (\<lambda>r s. key r < key s) (take limit xs @ drop limit xs)" using assms(1) by simp
  show "key (last (take limit xs)) < key r" if "r \<in> set (drop limit xs)" for r
    using s that last_take_mem [OF assms(2)] unfolding sorted_wrt_append by blast
  show "key r \<le> key (last (take limit xs))" if "r \<in> set (take limit xs)" for r
  proof -
    from that have ne: "take limit xs \<noteq> []" by (cases "take limit xs") simp_all
    then have "sorted_wrt (\<lambda>r s. key r < key s) (butlast (take limit xs) @ [last (take limit xs)])"
      using sorted_wrt_take [OF assms(1), of limit] by (simp only: append_butlast_last_id [OF ne])
    moreover have "r \<in> set (butlast (take limit xs)) \<or> r = last (take limit xs)"
      using that ne by (metis append_butlast_last_id in_set_conv_decomp_first rotate1.simps(2) set_ConsD set_rotate1)
    ultimately show ?thesis unfolding sorted_wrt_append by auto
  qed
qed

lemma rest_next:
  assumes "sound T" "limit < length (rest T b)"
  shows "rest T (Some (key (last (take limit (rest T b))))) = drop limit (rest T b)"
proof -
  let ?xs = "rest T b" and ?k = "key (last (take limit (rest T b)))"
  note S = split_at_limit [OF rest_sorted [OF assms(1)] assms(2)]
  have m: "after key b (last (take limit ?xs))" using last_take_mem [OF assms(2)] by (auto dest: in_set_takeD)
  have "filter (after key (Some ?k)) T = filter (\<lambda>r. ?k < key r) (filter (after key b) T)"
    using m by (cases b) (auto intro: filter_cong)
  then have "rest T (Some ?k) = filter (\<lambda>r. ?k < key r) ?xs" by (simp add: rest_def filter_sort)
  also have "\<dots> = filter (\<lambda>r. ?k < key r) (take limit ?xs) @ filter (\<lambda>r. ?k < key r) (drop limit ?xs)"
    by (simp flip: filter_append)
  also have "filter (\<lambda>r. ?k < key r) (take limit ?xs) = []" using S(1) by (auto simp: filter_empty_conv not_less)
  also have "filter (\<lambda>r. ?k < key r) (drop limit ?xs) = drop limit ?xs" using S(2) by (simp add: filter_id_conv)
  finally show ?thesis by simp
qed

lemma fetch_rest:
  assumes "sound T" "mints c b"
  obtains (final) p where "fetch T c = Inr p" "pg_items p = rest T b" "pg_next_cursor p = None" "length (rest T b) \<le> limit"
  | (more) p c' where "fetch T c = Inr p" "pg_items p = take limit (rest T b)" "pg_next_cursor p = Some c'"
      "mints (Some c') (Some (key (last (take limit (rest T b)))))" "limit < length (rest T b)"
  using fetch_page [OF assms refl] unfolding rest_def [symmetric]
  by (cases "length (rest T b) \<le> limit") (use that in \<open>auto simp: not_le\<close>)

text \<open>On a table that does not change the pages are the chunks of the sorted table.\<close>

lemma browse_chunks:
  assumes "sound T" "mints c b" "length (rest T b) \<le> n * limit" "0 < n"
  shows "\<exists>ps. browse fetch (replicate n T) c = Inr ps \<and> map pg_items ps = chunks limit (rest T b) \<and>
    pg_next_cursor (last ps) = None"
  using assms(2-4)
proof (induction n arbitrary: c b)
  case (Suc n)
  from assms(1) Suc.prems(1) show ?case
  proof (cases rule: fetch_rest)
    case (final p)
    then show ?thesis by (simp add: chunks_short)
  next
    case (more p c')
    let ?b = "Some (key (last (take limit (rest T b))))"
    note R = rest_next [OF assms(1) more(5)]
    have n: "length (rest T ?b) \<le> n * limit" using Suc.prems(2) unfolding R by simp
    have "0 < n" using Suc.prems(2) more(5) by (cases n) simp_all
    from Suc.IH [OF more(4) n \<open>0 < n\<close>] obtain ps where ps: "browse fetch (replicate n T) (Some c') = Inr ps"
      "map pg_items ps = chunks limit (drop limit (rest T b))" "pg_next_cursor (last ps) = None"
      unfolding R by blast
    have "ps \<noteq> []" using ps(2) chunks_ne by (metis list.map_disc_iff)
    moreover have "map pg_items (p # ps) = chunks limit (rest T b)"
      using more(2,5) ps(2) limit_pos by (subst chunks.simps) simp
    moreover have "browse fetch (replicate (Suc n) T) c = Inr (p # ps)" using more(1,3) ps(1) by simp
    ultimately show ?thesis using ps(3) by (intro exI [of _ "p # ps"]) simp
  qed
qed simp

text \<open>
  On a table that changes between the pages no row comes twice, everything comes in order, and a
  row that is there all the time is not skipped.
\<close>

lemma browse_stable:
  assumes "\<forall>T \<in> set Ts. sound T" "mints c b"
  shows "\<exists>ps. browse fetch Ts c = Inr ps \<and> sorted_wrt (\<lambda>r s. key r < key s) (browsed ps) \<and>
    (\<forall>r \<in> set (browsed ps). after key b r \<and> (\<exists>T \<in> set Ts. r \<in> set T)) \<and>
    (ps \<noteq> [] \<and> pg_next_cursor (last ps) = None \<longrightarrow>
      (\<forall>r. after key b r \<and> (\<forall>T \<in> set Ts. r \<in> set T) \<longrightarrow> r \<in> set (browsed ps)))"
  using assms
proof (induction Ts arbitrary: c b)
  case (Cons T Ts)
  then have T: "sound T" by simp
  from T Cons.prems(2) show ?case
  proof (cases rule: fetch_rest)
    case (final p)
    then show ?thesis using rest_sorted [OF T] by (auto intro!: exI [of _ "[p]"])
  next
    case (more p c')
    let ?xs = "rest T b" and ?k = "key (last (take limit (rest T b)))"
    note S = split_at_limit [OF rest_sorted [OF T, of b] more(5)]
    from Cons.IH [OF _ more(4)] Cons.prems(1) obtain ps where ps: "browse fetch Ts (Some c') = Inr ps"
      "sorted_wrt (\<lambda>r s. key r < key s) (browsed ps)"
      "\<forall>r \<in> set (browsed ps). ?k < key r \<and> (\<exists>T \<in> set Ts. r \<in> set T)"
      "ps \<noteq> [] \<and> pg_next_cursor (last ps) = None \<longrightarrow>
        (\<forall>r. ?k < key r \<and> (\<forall>T \<in> set Ts. r \<in> set T) \<longrightarrow> r \<in> set (browsed ps))"
      by auto
    have lt: "key r < key s" if "r \<in> set (take limit ?xs)" "s \<in> set (browsed ps)" for r s
      using S(1) [OF that(1)] ps(3) that(2) by (meson le_less_trans)
    have k: "after key b (last (take limit ?xs))" using last_take_mem [OF more(5)] by (auto dest: in_set_takeD)
    have "after key b r" if "?k < key r" for r using k that by (cases b) auto
    then have "\<forall>r \<in> set (browsed (p # ps)). after key b r \<and> (\<exists>T' \<in> set (T # Ts). r \<in> set T')"
      using ps(3) more(2) by (auto dest!: in_set_takeD)
    moreover have "sorted_wrt (\<lambda>r s. key r < key s) (browsed (p # ps))"
      using lt ps(2) rest_sorted [OF T, of b] by (simp add: sorted_wrt_append more(2) sorted_wrt_take)
    moreover have "r \<in> set (browsed (p # ps))"
      if "ps \<noteq> []" "pg_next_cursor (last ps) = None" "after key b r" "\<forall>T' \<in> set (T # Ts). r \<in> set T'" for r
    proof -
      have "r \<in> set (take limit ?xs @ drop limit ?xs)" using that(3,4) by simp
      then show ?thesis using S(2) ps(4) that more(2) by (auto simp del: append_take_drop_id)
    qed
    ultimately show ?thesis using ps(1) more(1,3)
      by (intro exI [of _ "p # ps"]) (simp split: if_splits)
  qed
qed simp

end

subsection \<open>The seek predicate\<close>

text \<open>The round trips of the library that the cursor relies on.\<close>

definition codec_ok :: "('t, 'c) codec \<Rightarrow> bool" where
  "codec_ok cd \<longleftrightarrow>
     (\<forall>d. parse_date cd (date_text cd d) = Some d) \<and> (\<forall>d. parse_datetime cd (datetime_text cd d) = Some d) \<and>
     (\<forall>x. parse_decimal cd (decimal_text cd x) = Some x) \<and> (\<forall>u. parse_uuid cd (uuid_text cd u) = Some u) \<and>
     (\<forall>s. bind_value cd C_str (J_str (str_text cd s)) = Inr (V_str s)) \<and>
     (\<forall>n. bind_value cd C_int (J_int n) = Inr (V_int n)) \<and> (\<forall>j. parse_cursor cd (cursor_text cd j) = Some j)"

lemma coerce_encode:
  assumes "codec_ok cd"
  shows "coerce_key_value cd (type_of v) (encode_value cd v) = Inr v"
  using assms by (cases v) (auto simp: coerce_key_value_def codec_ok_def parsed_def)

lemma coerce_all_encode:
  assumes "codec_ok cd" "map type_of vs = map ok_type ks"
  shows "coerce_all cd ks (map (encode_value cd) vs) = Inr vs"
  using assms(2)
proof (induction ks arbitrary: vs)
  case (Cons k ks)
  then obtain v vs' where "vs = v # vs'" "type_of v = ok_type k" "map type_of vs' = map ok_type ks" by (cases vs) auto
  then show ?case using Cons.IH coerce_encode [OF assms(1), of v] by simp
qed simp

lemma decode_encode:
  assumes "codec_ok cd"
  shows "decode_cursor cd (encode_cursor cd vs spec fp) spec fp = Inr (map (encode_value cd) vs)"
  using assms by (simp add: decode_cursor_def encode_cursor_def codec_ok_def is_version_def)

definition bound_key :: "'r order_key list \<Rightarrow> column_value list \<Rightarrow> order_value list" where
  "bound_key keys vs = map2 (\<lambda>k v. directed (ok_dir k) v) keys vs"

lemma list_all_upt: "list_all P [0..<n] \<longleftrightarrow> (\<forall>j < n. P j)"
  by (auto simp: list_all_iff)

lemma list_ex_upt: "list_ex P [0..<n] \<longleftrightarrow> (\<exists>j < n. P j)"
  by (auto simp: list_ex_iff)

lemma seek_predicate_Cons:
  "seek_predicate (k # ks) (v # vs) r \<longleftrightarrow>
     directed (ok_dir k) v < directed (ok_dir k) (ok_col k r) \<or> ok_col k r = v \<and> seek_predicate ks vs r"
proof -
  have "seek_clause (k # ks) (v # vs) (Suc i) r \<longleftrightarrow> ok_col k r = v \<and> seek_clause ks vs i r" for i
    unfolding seek_clause_def list_all_upt by (auto simp: All_less_Suc2)
  moreover have "seek_clause (k # ks) (v # vs) 0 r \<longleftrightarrow> directed (ok_dir k) v < directed (ok_dir k) (ok_col k r)"
    by (cases "ok_dir k") (simp_all add: seek_clause_def directed_def)
  ultimately show ?thesis unfolding seek_predicate_def list_ex_upt by (auto simp: Ex_less_Suc2)
qed

lemma directed_eq [simp]: "directed d v = directed d w \<longleftrightarrow> v = w"
  by (cases d) (simp_all add: directed_def)

lemma seek_predicate_iff:
  "length vs = length keys \<Longrightarrow> seek_predicate keys vs r \<longleftrightarrow> bound_key keys vs < row_key keys r"
proof (induction keys arbitrary: vs)
  case (Cons k ks)
  then obtain v vs' where "vs = v # vs'" "length vs' = length ks" by (cases vs) auto
  with Cons.IH [of vs'] show ?case
    by (auto simp: seek_predicate_Cons bound_key_def row_key_def)
qed (simp add: seek_predicate_def bound_key_def row_key_def)

lemma bound_key_row: "bound_key keys (map (\<lambda>k. ok_col k r) keys) = row_key keys r"
  by (induction keys) (simp_all add: bound_key_def row_key_def)

subsection \<open>Pages of the model\<close>

text \<open>A table that a list can page through: unique ids, and values of the declared types.\<close>

definition pageable :: "('t, 'c) codec \<Rightarrow> 'r order_key list \<Rightarrow> string \<times> ('r \<Rightarrow> uuid) \<Rightarrow> 'r list \<Rightarrow> bool" where
  "pageable cd order_by pk T \<longleftrightarrow> codec_ok cd \<and> distinct (map (snd pk) T) \<and>
     (\<forall>r \<in> set T. \<forall>k \<in> set order_by. type_of (ok_col k r) = ok_type k)"

definition minted ::
  "('t, 'c) codec \<Rightarrow> 'r order_key list \<Rightarrow> string \<times> ('r \<Rightarrow> uuid) \<Rightarrow> string \<Rightarrow> 'c option \<Rightarrow> order_value list option \<Rightarrow> bool" where
  "minted cd order_by pk fp c b \<longleftrightarrow>
     (case c of
        None \<Rightarrow> b = None
      | Some c' \<Rightarrow> \<exists>vs. map type_of vs = map ok_type (all_keys order_by pk) \<and>
          c' = encode_cursor cd vs (sort_spec (all_keys order_by pk)) fp \<and> b = Some (bound_key (all_keys order_by pk) vs))"

definition page_limit :: "int \<Rightarrow> nat" where
  "page_limit limit = nat (if limit < 1 then 1 else limit)"

lemma row_key_inj: "row_key (all_keys order_by pk) r = row_key (all_keys order_by pk) s \<Longrightarrow> snd pk r = snd pk s"
  by (simp add: row_key_def all_keys_def directed_def)

lemma seek_rows_minted:
  assumes "codec_ok cd" "minted cd order_by pk fp c b"
  shows "seek_rows cd (all_keys order_by pk) fp c T = Inr (filter (after (row_key (all_keys order_by pk)) b) T)"
proof (cases c)
  case None
  then show ?thesis using assms(2) by (simp add: minted_def seek_rows_def)
next
  case (Some c')
  with assms(2) obtain vs where vs: "map type_of vs = map ok_type (all_keys order_by pk)"
    "c' = encode_cursor cd vs (sort_spec (all_keys order_by pk)) fp" "b = Some (bound_key (all_keys order_by pk) vs)"
    by (auto simp: minted_def)
  have l: "length vs = length (all_keys order_by pk)" using arg_cong [OF vs(1), of length] by simp
  have "seek_predicate (all_keys order_by pk) vs = after (row_key (all_keys order_by pk)) b"
    by (rule ext) (simp add: seek_predicate_iff [OF l] vs(3))
  then show ?thesis
    using Some vs(2) l decode_encode [OF assms(1)] coerce_all_encode [OF assms(1) vs(1)] by (simp add: seek_rows_def)
qed

lemma paginate_page:
  assumes ok: "pageable cd order_by pk T" and c: "minted cd order_by pk fp c b"
    and xs: "xs = sort_key (row_key (all_keys order_by pk)) (filter (after (row_key (all_keys order_by pk)) b) T)"
  shows "\<exists>p. paginate cd T order_by pk c limit fp = Inr p \<and> pg_items p = take (page_limit limit) xs \<and>
    (if length xs \<le> page_limit limit then pg_next_cursor p = None
     else \<exists>c'. pg_next_cursor p = Some c' \<and>
       minted cd order_by pk fp (Some c') (Some (row_key (all_keys order_by pk) (last (take (page_limit limit) xs)))))"
proof -
  let ?K = "all_keys order_by pk" and ?L = "page_limit limit"
  have L: "0 < ?L" by (simp add: page_limit_def)
  have "minted cd order_by pk fp (Some (encode_cursor cd (map (\<lambda>k. ok_col k r) ?K) (sort_spec ?K) fp)) (Some (row_key ?K r))"
    if "r \<in> set T" for r
  proof -
    have "map type_of (map (\<lambda>k. ok_col k r) ?K) = map ok_type ?K" using ok that by (simp add: pageable_def all_keys_def)
    then show ?thesis unfolding minted_def option.case by (intro exI conjI, assumption) (simp_all only: bound_key_row)
  qed
  moreover have "last (take ?L xs) \<in> set T" if "?L < length xs"
  proof -
    have "last (take ?L xs) \<in> set (take ?L xs)" using that L by (intro last_in_set) auto
    then show ?thesis using xs by (auto dest: in_set_takeD)
  qed
  moreover have "paginate cd T order_by pk c limit fp =
      Inr \<lparr>pg_items = take ?L xs, pg_next_cursor =
        (if ?L < length xs then Some (encode_cursor cd (map (\<lambda>k. ok_col k (last (take ?L xs))) ?K) (sort_spec ?K) fp) else None),
        pg_limit = (if limit < 1 then 1 else limit)\<rparr>"
  proof -
    have "codec_ok cd" using ok by (simp add: pageable_def)
    note seek = seek_rows_minted [OF this c, of T]
    have "apply_order ?K (filter (after (row_key ?K) b) T) = xs" by (simp add: apply_order_def xs)
    then show ?thesis
      unfolding paginate_def Let_def page_limit_def [symmetric] seek bindr_simps using L by (auto simp: min_def)
  qed
  ultimately show ?thesis by simp
qed

interpretation paging: keyset_pages "row_key (all_keys order_by pk)" "pageable cd order_by pk" "page_limit limit"
  "\<lambda>T c. paginate cd T order_by pk c limit fp" "minted cd order_by pk fp"
  for cd :: "('t, 'c) codec" and order_by :: "'r order_key list" and pk limit fp
proof
  show "0 < page_limit limit" by (simp add: page_limit_def)
  show "distinct (map (row_key (all_keys order_by pk)) T)" if "pageable cd order_by pk T" for T
    using that by (auto simp: pageable_def distinct_map inj_on_def dest: row_key_inj)
  show "minted cd order_by pk fp None None" by (simp add: minted_def)
qed (rule paginate_page)

text \<open>
  C10. Following the cursors of \<open>paginate\<close> through a table that does not change returns, page by page, the
  table in the order of the sort columns with the id as tiebreaker: every page but the last is full,
  no row is skipped or repeated, no request fails, and the last page has no cursor.
\<close>

theorem paginate_walk_exact:
  fixes cd :: "('t, 'c) codec" and T :: "'r list"
  assumes "pageable cd order_by pk T" and "length T \<le> n * page_limit limit" and "0 < n"
  shows "\<exists>ps. browse (\<lambda>T c. paginate cd T order_by pk c limit fp) (replicate n T) None = Inr ps \<and>
    map pg_items ps = chunks (page_limit limit) (apply_order (all_keys order_by pk) T) \<and> pg_next_cursor (last ps) = None"
proof -
  let ?K = "all_keys order_by pk"
  have "filter (after (row_key ?K) None) T = T" by (simp add: filter_True)
  then have r: "paging.rest order_by pk T None = apply_order ?K T" by (simp add: paging.rest_def apply_order_def)
  then have "length (paging.rest order_by pk T None) = length T" by (simp add: apply_order_def)
  with paging.browse_chunks [OF assms(1) paging.mints_none _ assms(3)] assms(2) show ?thesis unfolding r by metis
qed

text \<open>
  C11. When rows are added and removed between the requests, following the cursors still never fails,
  returns rows in strictly ascending key order, so none twice, only rows that were there, and once the
  last page is reached every row that was there all the time has been returned.
\<close>

theorem paginate_walk_stable:
  fixes cd :: "('t, 'c) codec" and Ts :: "'r list list"
  assumes "\<forall>T \<in> set Ts. pageable cd order_by pk T"
  shows "\<exists>ps. browse (\<lambda>T c. paginate cd T order_by pk c limit fp) Ts None = Inr ps \<and>
    sorted_wrt (\<lambda>r s. row_key (all_keys order_by pk) r < row_key (all_keys order_by pk) s) (browsed ps) \<and>
    (\<forall>r \<in> set (browsed ps). \<exists>T \<in> set Ts. r \<in> set T) \<and>
    (ps \<noteq> [] \<and> pg_next_cursor (last ps) = None \<longrightarrow> (\<forall>r. (\<forall>T \<in> set Ts. r \<in> set T) \<longrightarrow> r \<in> set (browsed ps)))"
  using paging.browse_stable [OF assms paging.mints_none] by fastforce

subsection \<open>A sample list\<close>

datatype sample_text = T_date date | T_datetime nat | T_decimal decimal | T_uuid uuid | T_str string

definition sample_codec :: "(sample_text, sample_text json) codec" where
  "sample_codec =
     \<lparr>date_text = T_date, datetime_text = T_datetime, decimal_text = T_decimal, uuid_text = T_uuid, str_text = T_str,
      parse_date = (\<lambda>t. case t of T_date d \<Rightarrow> Some d | _ \<Rightarrow> None),
      parse_datetime = (\<lambda>t. case t of T_datetime d \<Rightarrow> Some d | _ \<Rightarrow> None),
      parse_decimal = (\<lambda>t. case t of T_decimal d \<Rightarrow> Some d | _ \<Rightarrow> None),
      parse_uuid = (\<lambda>t. case t of T_uuid d \<Rightarrow> Some d | _ \<Rightarrow> None),
      bind_value = (\<lambda>ty j. case (ty, j) of (C_str, J_str (T_str s)) \<Rightarrow> Inr (V_str s) | (C_int, J_int n) \<Rightarrow> Inr (V_int n)
        | _ \<Rightarrow> Inl (PyError ''StatementError'')),
      cursor_text = (\<lambda>j. j), parse_cursor = Some\<rparr>"

lemma sample_codec_ok: "codec_ok sample_codec"
  by (simp add: codec_ok_def sample_codec_def)

text \<open>Pairs of an id and a date, newest date first.\<close>

definition sample_order :: "(uuid \<times> date) order_key list" where
  "sample_order = [\<lparr>ok_name = ''d'', ok_type = C_date, ok_col = V_date \<circ> snd, ok_dir = DESC\<rparr>]"

definition sample_rows :: "(uuid \<times> date) list" where
  "sample_rows = [(1, Date 2024 3 1), (2, Date 2024 3 5), (3, Date 2024 3 5)]"

lemma sample_pageable: "pageable sample_codec sample_order (''id'', fst) sample_rows"
  "pageable sample_codec sample_order (''id'', fst) ((9, Date 2024 3 9) # sample_rows)"
  by (simp_all add: pageable_def sample_codec_ok sample_order_def sample_rows_def)

theorem paginate_walk_exact_witness:
  "\<exists>ps. browse (\<lambda>T c. paginate sample_codec T sample_order (''id'', fst) c 2 '''') (replicate 2 sample_rows) None = Inr ps \<and>
     map pg_items ps = chunks 2 (apply_order (all_keys sample_order (''id'', fst)) sample_rows) \<and> pg_next_cursor (last ps) = None"
  using paginate_walk_exact [OF sample_pageable(1), of 2 2 "''''"] by (simp add: page_limit_def sample_rows_def)

theorem paginate_walk_stable_witness:
  "\<exists>ps. browse (\<lambda>T c. paginate sample_codec T sample_order (''id'', fst) c 2 '''')
      [sample_rows, (9, Date 2024 3 9) # sample_rows] None = Inr ps \<and>
     sorted_wrt (\<lambda>r s. row_key (all_keys sample_order (''id'', fst)) r < row_key (all_keys sample_order (''id'', fst)) s) (browsed ps)"
proof -
  have "\<forall>T \<in> set [sample_rows, (9, Date 2024 3 9) # sample_rows]. pageable sample_codec sample_order (''id'', fst) T"
    using sample_pageable by simp
  from paginate_walk_stable [OF this, of 2 "''''"] show ?thesis by blast
qed

text \<open>A forged key with the right envelope is not refused as an invalid cursor: the parse error escapes.\<close>

lemma forged_key_escapes:
  "paginate sample_codec sample_rows sample_order (''id'', fst)
     (Some (J_dict [(''k'', J_list [J_str (T_str ''x''), J_str (T_uuid 1)]), (''q'', J_str (T_str '''')),
       (''s'', J_str (T_str ''d:desc,id:asc'')), (''v'', J_int 1)])) 2 '''' = Inl (PyError ''ValueError'')"
  by (simp add: paginate_def seek_rows_def decode_cursor_def sample_codec_def sample_order_def all_keys_def sort_spec_def
      is_version_def CURSOR_VERSION_def coerce_key_value_def parsed_def)

end
