(* ===== verification/Listings.thy ===== *)
theory Listings
  imports Assets Pagination
begin

text \<open>
  The paginated reads over the modelled tables: which rows a list shows, in which order, and that a
  client who follows its cursors sees exactly those rows. The filters go into the fingerprint of the
  cursor (\<open>sha\<close> is the digest).
\<close>

definition column :: "string \<Rightarrow> column_type \<Rightarrow> ('r \<Rightarrow> column_value) \<Rightarrow> sort_direction \<Rightarrow> 'r order_key" where
  "column n ty f d = \<lparr>ok_name = n, ok_type = ty, ok_col = f, ok_dir = d\<rparr>"

definition opt_part :: "('a \<Rightarrow> 't json) \<Rightarrow> 'a option \<Rightarrow> 't json" where
  "opt_part f x = (case x of None \<Rightarrow> J_null | Some v \<Rightarrow> f v)"

definition uuid_part :: "('t, 'c) codec \<Rightarrow> uuid option \<Rightarrow> 't json" where
  "uuid_part cd = opt_part (\<lambda>u. encode_value cd (V_uuid u))"

definition date_part :: "('t, 'c) codec \<Rightarrow> date option \<Rightarrow> 't json" where
  "date_part cd = opt_part (\<lambda>d. encode_value cd (V_date d))"

definition str_part :: "('t, 'c) codec \<Rightarrow> string option \<Rightarrow> 't json" where
  "str_part cd = opt_part (\<lambda>s. encode_value cd (V_str s))"

text \<open>\<open>if x is not None: stmt = stmt.where(...)\<close>\<close>

definition given :: "'a option \<Rightarrow> ('a \<Rightarrow> bool) \<Rightarrow> bool" where
  "given x P = (case x of None \<Rightarrow> True | Some v \<Rightarrow> P v)"

subsection \<open>Finance\<close>

definition list_fiscal_years ::
  "('t, 'c) codec \<Rightarrow> 'm fin_db_scheme \<Rightarrow> uuid \<Rightarrow> 'c option \<Rightarrow> int \<Rightarrow> (fiscal_year, 'c) page result" where
  "list_fiscal_years cd db tenant cursor limit =
     paginate cd (filter (\<lambda>y. fy_tenant y = tenant) (fiscal_years db))
       [column ''start_date'' C_date (V_date \<circ> fy_start) ASC] (''id'', fy_id) cursor limit ''''"

definition list_fiscal_periods ::
  "('t, 'c) codec \<Rightarrow> ('t json \<Rightarrow> string) \<Rightarrow> 'm fin_db_scheme \<Rightarrow> uuid \<Rightarrow> uuid option \<Rightarrow> 'c option \<Rightarrow> int
    \<Rightarrow> (fiscal_period, 'c) page result" where
  "list_fiscal_periods cd sha db tenant year_id cursor limit =
     paginate cd (filter (\<lambda>p. fp_tenant p = tenant \<and> given year_id (\<lambda>y. fp_year p = y)) (fiscal_periods db))
       [column ''start_date'' C_date (V_date \<circ> fp_start) ASC] (''id'', fp_id) cursor limit
       (filter_fingerprint sha [uuid_part cd year_id])"

definition list_currencies ::
  "('t, 'c) codec \<Rightarrow> 'm fin_db_scheme \<Rightarrow> uuid \<Rightarrow> 'c option \<Rightarrow> int \<Rightarrow> (currency, 'c) page result" where
  "list_currencies cd db tenant cursor limit =
     paginate cd (filter (\<lambda>c. cur_tenant c = tenant) (currencies db))
       [column ''code'' C_str (V_str \<circ> cur_code) ASC] (''id'', cur_id) cursor limit ''''"

definition list_tax_codes ::
  "('t, 'c) codec \<Rightarrow> ('t json \<Rightarrow> string) \<Rightarrow> 'm ap_db_scheme \<Rightarrow> uuid \<Rightarrow> 'c option \<Rightarrow> int \<Rightarrow> bool option
    \<Rightarrow> (tax_code, 'c) page result" where
  "list_tax_codes cd sha db tenant cursor limit active =
     paginate cd (filter (\<lambda>c. tc_tenant c = tenant \<and> given active (\<lambda>a. tc_is_active c = a)) (tax_codes db))
       [column ''code'' C_str (V_str \<circ> tc_code) ASC] (''id'', tc_id) cursor limit
       (filter_fingerprint sha [opt_part J_bool active])"

definition list_posting_defaults ::
  "('t, 'c) codec \<Rightarrow> 'm ap_db_scheme \<Rightarrow> uuid \<Rightarrow> 'c option \<Rightarrow> int \<Rightarrow> (posting_default, 'c) page result" where
  "list_posting_defaults cd db tenant cursor limit =
     paginate cd (filter (\<lambda>p. pd_tenant p = tenant) (posting_defaults db))
       [column ''purpose'' C_str (V_str \<circ> pd_purpose) ASC] (''id'', pd_id) cursor limit ''''"

definition list_assets ::
  "('t, 'c) codec \<Rightarrow> ('t json \<Rightarrow> string) \<Rightarrow> 'm fa_db_scheme \<Rightarrow> uuid \<Rightarrow> 'c option \<Rightarrow> int \<Rightarrow> asset_status option
    \<Rightarrow> (asset, 'c) page result" where
  "list_assets cd sha db tenant cursor limit status =
     paginate cd (filter (\<lambda>a. as_tenant a = tenant \<and> given status (\<lambda>s. as_status a = s)) (fixed_assets db))
       [column ''acquisition_date'' C_date (V_date \<circ> as_acquisition_date) DESC] (''id'', as_id) cursor limit
       (filter_fingerprint sha [str_part cd (map_option asset_status_str status)])"

definition list_depreciation_runs ::
  "('t, 'c) codec \<Rightarrow> ('t json \<Rightarrow> string) \<Rightarrow> 'm fa_db_scheme \<Rightarrow> uuid \<Rightarrow> 'c option \<Rightarrow> int \<Rightarrow> uuid option
    \<Rightarrow> (depreciation_run, 'c) page result" where
  "list_depreciation_runs cd sha db tenant cursor limit period_id =
     paginate cd (filter (\<lambda>r. dr_tenant r = tenant \<and> given period_id (\<lambda>p. dr_period r = p)) (depreciation_runs db))
       [column ''run_date'' C_date (V_date \<circ> dr_date) DESC] (''id'', dr_id) cursor limit
       (filter_fingerprint sha [uuid_part cd period_id])"

definition list_depreciation_entries ::
  "('t, 'c) codec \<Rightarrow> ('t json \<Rightarrow> string) \<Rightarrow> 'm fa_db_scheme \<Rightarrow> uuid \<Rightarrow> uuid \<Rightarrow> 'c option \<Rightarrow> int
    \<Rightarrow> (depreciation_entry, 'c) page result" where
  "list_depreciation_entries cd sha db tenant run_id cursor limit =
     paginate cd (filter (\<lambda>e. de_tenant e = tenant \<and> de_run e = run_id) (depreciation_entries db))
       [column ''asset_id'' C_uuid (V_uuid \<circ> de_asset) ASC] (''id'', de_id) cursor limit
       (filter_fingerprint sha [uuid_part cd (Some run_id)])"

subsection \<open>Inventory\<close>

record stock_move_filter =
  mf_item :: "uuid option"
  mf_bin :: "uuid option"
  mf_type :: "move_type option"
  mf_from :: "date option"
  mf_to :: "date option"

definition move_matches :: "stock_move_filter \<Rightarrow> stock_move \<Rightarrow> bool" where
  "move_matches f m \<longleftrightarrow>
     given (mf_item f) (\<lambda>i. sm_item m = i) \<and> given (mf_bin f) (\<lambda>b. sm_from_bin m = Some b \<or> sm_to_bin m = Some b) \<and>
     given (mf_type f) (\<lambda>t. sm_type m = t) \<and> given (mf_from f) (\<lambda>d. d \<le> sm_date m) \<and> given (mf_to f) (\<lambda>d. sm_date m \<le> d)"

definition list_moves ::
  "('t, 'c) codec \<Rightarrow> ('t json \<Rightarrow> string) \<Rightarrow> 'm inv_db_scheme \<Rightarrow> uuid \<Rightarrow> stock_move_filter \<Rightarrow> 'c option \<Rightarrow> int
    \<Rightarrow> (stock_move, 'c) page result" where
  "list_moves cd sha db tenant f cursor limit =
     paginate cd (filter (\<lambda>m. sm_tenant m = tenant \<and> move_matches f m) (stock_moves db))
       [column ''move_date'' C_date (V_date \<circ> sm_date) DESC] (''id'', sm_id) cursor limit
       (filter_fingerprint sha [uuid_part cd (mf_item f), uuid_part cd (mf_bin f),
         str_part cd (map_option move_type_str (mf_type f)), date_part cd (mf_from f), date_part cd (mf_to f)])"

definition list_on_hand ::
  "('t, 'c) codec \<Rightarrow> ('t json \<Rightarrow> string) \<Rightarrow> 'm inv_db_scheme \<Rightarrow> uuid \<Rightarrow> uuid option \<Rightarrow> uuid option \<Rightarrow> 'c option \<Rightarrow> int
    \<Rightarrow> (stock_quant, 'c) page result" where
  "list_on_hand cd sha db tenant item bin cursor limit =
     paginate cd (filter (\<lambda>q. sq_tenant q = tenant \<and> given item (\<lambda>i. sq_item q = i) \<and> given bin (\<lambda>b. sq_bin q = b))
         (stock_quants db))
       [column ''item_id'' C_uuid (V_uuid \<circ> sq_item) ASC] (''id'', sq_id) cursor limit
       (filter_fingerprint sha [uuid_part cd item, uuid_part cd bin])"

definition list_valuations ::
  "('t, 'c) codec \<Rightarrow> ('t json \<Rightarrow> string) \<Rightarrow> 'm inv_db_scheme \<Rightarrow> uuid \<Rightarrow> uuid option \<Rightarrow> uuid option \<Rightarrow> 'c option \<Rightarrow> int
    \<Rightarrow> (item_valuation, 'c) page result" where
  "list_valuations cd sha db tenant item wh cursor limit =
     paginate cd (filter (\<lambda>v. iv_tenant v = tenant \<and> given item (\<lambda>i. iv_item v = i) \<and> given wh (\<lambda>w. iv_warehouse v = w))
         (item_valuations db))
       [column ''item_id'' C_uuid (V_uuid \<circ> iv_item) ASC] (''id'', iv_id) cursor limit
       (filter_fingerprint sha [uuid_part cd item, uuid_part cd wh])"

definition list_cost_layers ::
  "('t, 'c) codec \<Rightarrow> ('t json \<Rightarrow> string) \<Rightarrow> 'm inv_db_scheme \<Rightarrow> uuid \<Rightarrow> uuid \<Rightarrow> uuid option \<Rightarrow> bool \<Rightarrow> 'c option \<Rightarrow> int
    \<Rightarrow> (cost_layer, 'c) page result" where
  "list_cost_layers cd sha db tenant item wh include_exhausted cursor limit =
     paginate cd (filter (\<lambda>l. cl_tenant l = tenant \<and> cl_item l = item \<and> given wh (\<lambda>w. cl_warehouse l = w) \<and>
         (include_exhausted \<or> 0 < cl_remaining l)) (cost_layers db))
       [column ''received_at'' C_date (V_date \<circ> cl_received_at) ASC] (''id'', cl_id) cursor limit
       (filter_fingerprint sha [uuid_part cd (Some item), uuid_part cd wh, J_bool include_exhausted])"

definition items_already_moved_for_document :: "'m inv_db_scheme \<Rightarrow> uuid \<Rightarrow> uuid \<Rightarrow> string \<Rightarrow> uuid set" where
  "items_already_moved_for_document db tenant predecessor link_type =
     (let successors = map dl_successor (filter (\<lambda>k. dl_tenant k = tenant \<and> dl_predecessor k = predecessor \<and>
            dl_link_type k = Some link_type) (doc_links db))
      in set (map sm_item (filter (\<lambda>m. sm_tenant m = tenant \<and> sm_document m \<in> set successors) (stock_moves db))))"

subsection \<open>Walking the stock ledger\<close>

text \<open>
  The pages of the move list, put together, are the tenant's moves that pass the filter, newest
  date first and by id within a date.
\<close>

lemma list_moves_walk:
  fixes cd :: "('t, 'c) codec" and db :: "'m inv_db_scheme"
  assumes cd: "codec_ok cd" and ids: "distinct (map sm_id (stock_moves db))"
    and n: "length (stock_moves db) \<le> n * page_limit limit" "0 < n"
  shows "\<exists>ps. browse (\<lambda>db c. list_moves cd sha db t f c limit) (replicate n db) None = Inr ps \<and>
    mset (browsed ps) = mset (filter (\<lambda>m. sm_tenant m = t \<and> move_matches f m) (stock_moves db)) \<and>
    sorted_wrt (\<lambda>m m'. sm_date m' < sm_date m \<or> sm_date m = sm_date m' \<and> sm_id m < sm_id m') (browsed ps)"
proof -
  let ?T = "filter (\<lambda>m. sm_tenant m = t \<and> move_matches f m) (stock_moves db)"
  let ?o = "[column ''move_date'' C_date (V_date \<circ> sm_date) DESC]" and ?pk = "(''id'', sm_id)"
  let ?fp = "filter_fingerprint sha [uuid_part cd (mf_item f), uuid_part cd (mf_bin f),
    str_part cd (map_option move_type_str (mf_type f)), date_part cd (mf_from f), date_part cd (mf_to f)]"
  let ?K = "all_keys ?o ?pk"
  have pg: "pageable cd ?o ?pk ?T" using cd ids by (simp add: pageable_def column_def distinct_map_filter)
  have rest: "paging.rest ?o ?pk ?T None = apply_order ?K ?T" by (simp add: paging.rest_def apply_order_def filter_True)
  have "length ?T \<le> n * page_limit limit" using n(1) length_filter_le order_trans by blast
  then have len: "length (paging.rest ?o ?pk ?T None) \<le> n * page_limit limit" by (simp add: rest apply_order_def)
  have eq: "browse (\<lambda>db c. list_moves cd sha db t f c limit) (replicate n db) None =
      browse (\<lambda>T c. paginate cd T ?o ?pk c limit ?fp) (replicate n ?T) None"
    unfolding list_moves_def
    by (subst browse_map [where table = "\<lambda>db. filter (\<lambda>m. sm_tenant m = t \<and> move_matches f m) (stock_moves db)"])
       simp
  from paging.browse_chunks [OF pg paging.mints_none len n(2)] obtain ps where
    ps: "browse (\<lambda>T c. paginate cd T ?o ?pk c limit ?fp) (replicate n ?T) None = Inr ps"
      "map pg_items ps = chunks (page_limit limit) (apply_order ?K ?T)"
    unfolding rest by blast
  have b: "browsed ps = apply_order ?K ?T" unfolding browsed_def ps(2) by (rule concat_chunks)
  have "sorted_wrt (\<lambda>m m'. row_key ?K m < row_key ?K m') (apply_order ?K ?T)"
    using paging.rest_sorted [OF pg, of None] unfolding rest .
  then have "sorted_wrt (\<lambda>m m'. sm_date m' < sm_date m \<or> sm_date m = sm_date m' \<and> sm_id m < sm_id m') (browsed ps)"
    unfolding b by (rule sorted_wrt_mono_rel [rotated])
      (auto simp: row_key_def all_keys_def column_def directed_def less_column_value_def less_order_value_def not_le)
  moreover have "mset (browsed ps) = mset ?T" by (simp add: b apply_order_def)
  ultimately show ?thesis using ps(1) unfolding eq by blast
qed

end
