(* ===== verification/Spec2Isabelle.thy ===== *)
theory Spec2Isabelle
  imports Ledger Event_Bus Stock_Ledger Inventory_Cogs Exceptions Payables Jobs Asset_Runs Listings
begin

text \<open>
  Verification of the Atlas ERP backend (\<^verbatim>\<open>backend/app\<close>): the posting core of the finance module,
  the perpetual inventory, the accounts-payable subledger, asset accounting, and the platform services
  that guard repeated requests and run background jobs.

  \<^bold>\<open>The program.\<close> Atlas is a multi-tenant ERP. Each request runs one service function inside a unit of
  work (\<^verbatim>\<open>core/events.py\<close>): the function reads and writes tables through a session, publishes
  domain events, and the events are drained to their handlers before the commit; any exception
  rolls everything back. The services share a document registry with a flow graph
  (\<^verbatim>\<open>core/docflow.py\<close>), gapless number sequences (\<^verbatim>\<open>core/numbering.py\<close>) and decimal money
  (\<^verbatim>\<open>core/money.py\<close>). Every subledger books through the journal (\<^verbatim>\<open>finance/service/journal.py\<close>),
  which database triggers protect once more (migration 0009).

  \<^bold>\<open>State and effects.\<close> The database is a record of tables, each a list of rows in insertion order:
  \<open>core_db\<close> (Core\_Db) has the registry, links, sequences, the event buffer, the clock and the supply
  of fresh identifiers; \<open>fin_db\<close> (Fin\_Db, Journal\_Db) adds accounts, calendar, currencies and the
  journal; \<open>inv_db\<close> (Inv\_Db) adds items, bins, moves, quants and valuations; \<open>ap_db\<close> (Ap\_Db) adds
  tax codes, posting defaults, bills and payments, and \<open>fa_db\<close> (Assets) the asset register. A service function takes the record and returns
  \<open>atlas_error + result \<times> record\<close> (Prelude: \<open>bindr\<close>, \<open>fold_result\<close>): \<open>Inl\<close> is the exception of the
  source, with its class and code, and also a constraint or trigger that fires. An exception
  discards the record, which is the rollback. Amounts are exact rationals (\<open>decimal\<close>); the
  28-digit context of Python's \<^verbatim>\<open>Decimal\<close> is \<open>ctx\<close>, with \<open>dmul\<close>, \<open>ddiv\<close> and \<open>dadd\<close>, and every column
  write rounds as the column type does (\<open>store_money\<close>, \<open>store_quantity\<close>, \<open>store_rate\<close>).

  \<^bold>\<open>Theories.\<close>
  \<^item> Prelude, Decimal\_Arith, Calendar: result monad, row operations on tables, decimal contexts and
    rounding modes, dates.
  \<^item> Money (\<^verbatim>\<open>core/money.py\<close>): column types, currency decimals, largest-remainder allocation;
    allocation is exact and within one minor unit of each share, stored amounts round trip.
  \<^item> Numbering (\<^verbatim>\<open>core/numbering.py\<close>): claims are consecutive per year, formatted numbers distinct.
  \<^item> Docflow (\<^verbatim>\<open>core/docflow.py\<close>): the recursive query finds exactly what is reachable in 20 links.
  \<^item> Event\_Bus (\<^verbatim>\<open>core/events.py\<close>): the capped drain terminates; the locale \<open>uow_invariant\<close> carries an
    invariant of the handlers through a unit of work.
  \<^item> Exceptions (\<^verbatim>\<open>core/exceptions.py\<close>): translation of trigger errors.
  \<^item> Periods, Fx (\<^verbatim>\<open>finance/service/periods.py\<close>, \<^verbatim>\<open>fx.py\<close>, \<^verbatim>\<open>fx_translation.py\<close>): periods tile the
    year and stay disjoint; rate lookup; translation of a balanced entry balances.
  \<^item> Journal\_Db, Journal, Journal\_Wf, Ledger (\<^verbatim>\<open>finance/service/journal*.py\<close>, migration 0009): the
    triggers, the whole handlers, the invariant \<open>books_wf\<close>, and the runs of committed operations:
    the trial balance is exact, posted lines are never edited, reversals cancel.
  \<^item> Posting: what a draft and its posting do to the tables, the interface the subledgers use.
  \<^item> Stock\_Quants, Costing\_Mav, Costing\_Fifo, Costing, Stock\_Moves, Stock\_Ledger
    (\<^verbatim>\<open>inventory/service\<close>): on-hand rows, the two costing engines against reference definitions,
    moves and reversals, and the invariant that stock on hand is the sum of the posted moves.
  \<^item> Inventory\_Cogs (\<^verbatim>\<open>finance/handlers/inventory_cogs.py\<close>): the valuation handler, interpreted in the
    unit of work of a stock move, so that a move and its journal commit together.
  \<^item> Tax, Clearing\_Fx, Vendor\_Bills (\<^verbatim>\<open>finance/service/tax.py\<close>, \<^verbatim>\<open>clearing_fx.py\<close>,
    \<^verbatim>\<open>posting_defaults.py\<close>, \<^verbatim>\<open>vendor_bills.py\<close>): tax of lines and documents, the clearing entry with
    its realised exchange difference, and vendor bills from draft to open item.
  \<^item> Open\_Items, Vendor\_Payments, Payables (\<^verbatim>\<open>vendor_payments.py\<close>, \<^verbatim>\<open>payment_clearing.py\<close>): the contract of
    an open-item subledger as a locale, interpreted on bills and allocations; payments, the payment
    run, the runs of the whole subledger, and its reconciliation with the control account.
  \<^item> Assets, Depreciation, Asset\_Runs (\<^verbatim>\<open>assets.py\<close>, \<^verbatim>\<open>depreciation.py\<close>, \<^verbatim>\<open>depreciation_read.py\<close>): the
    register and the posting run; the charges of an asset never pass cost less salvage and a
    straight-line asset reaches it exactly, a run books the charges of its assets and nothing else,
    and the register stays sound under every operation.
  \<^item> Idempotency, Jobs (\<^verbatim>\<open>core/idempotency.py\<close>, \<^verbatim>\<open>core/jobs.py\<close>, \<^verbatim>\<open>core/job_sweeper.py\<close>): concurrent
    requests and workers as step relations whose steps are the single committed transactions of the
    source; a key executes at most once, a job runs at most once, and the sweeper drains its backlog.
  \<^item> Pagination, Listings (\<^verbatim>\<open>core/pagination.py\<close> and the lists of the services): keyset pages as a locale,
    interpreted on \<open>paginate\<close>; the pages of a walk are the chunks of the sorted table, and rows that come
    and go between the pages cause no repetition and no gap.

  \<^bold>\<open>Bounds.\<close> The drain needs no fuel: its recursion is bounded by the dispatch cap of the source. The
  chain query stops at depth 20 as the source does. Properties of decimal arithmetic carry explicit
  bounds (amounts below \<open>10 ^ 12\<close> or \<open>10 ^ 26\<close> minor units) under which the 28-digit context is exact;
  the columns hold less.

  \<^bold>\<open>Not modelled.\<close> Audit columns and timestamps that no operation reads; foreign keys and check
  constraints that cannot fire on the modelled paths; the overflow of \<^verbatim>\<open>NUMERIC\<close> columns; the
  serial lifecycle of lots and serial numbers; identifiers are numbers drawn from a supply; sums of
  stored amounts are taken exactly; messages and details of errors; lists sorted by creation time, routers,
  authentication and authorisation; a patch that sets a required column of an asset to null.
  Concurrent requests and jobs interleave in Idempotency and Jobs; in the business services
  concurrency is the committed order of units of work, which the row locks of the source serialise. The other modules (procurement, sales,
  manufacturing, HR, hospitality, CRM) build on the same services and are not modelled.
\<close>

end
